(* ===== verification/PM_Prelude.thy ===== *)
theory PM_Prelude
  imports Main "HOL-Library.AList" "HOL-Library.Multiset" "HOL-Library.Word"
begin

text \<open>
  Shared vocabulary of the development: Go errors as values, Go maps as association lists,
  strings and bytes, 64-bit arithmetic, decimal formatting, and reachability of a transition
  system together with the interface of an inductive invariant.

  A Go map is an association list whose keys are distinct. Its order is the order in which one
  \<open>range\<close> loop visits the entries. Go leaves that order unspecified, and the statements of the
  development are about every list, so about every order.
\<close>

section \<open>Errors\<close>

text \<open>
  A Go function that returns only an \<open>error\<close> returns a \<open>go_error option\<close> (\<open>None\<close> is \<open>nil\<close>); one
  that returns \<open>(T, error)\<close> returns \<open>go_error + 'a\<close>, with \<open>Inl\<close> for the error.
\<close>

datatype go_error =
    ErrNotFound                \<comment> \<open>\<open>store.ErrNotFound\<close>\<close>
  | ErrConflict                \<comment> \<open>\<open>store.ErrConflict\<close>\<close>
  | ErrEOF                     \<comment> \<open>\<open>io.EOF\<close>, also a short read\<close>
  | ErrCanceled                \<comment> \<open>\<open>context.Canceled\<close>\<close>
  | ErrLib string              \<comment> \<open>an error value of a library call, by its text\<close>
  | ErrMsg string              \<comment> \<open>\<open>errors.New\<close>, or \<open>fmt.Errorf\<close> without \<open>%w\<close>\<close>
  | ErrWrap string go_error    \<comment> \<open>\<open>fmt.Errorf("prefix: %w", err)\<close>\<close>

fun error_text :: "go_error \<Rightarrow> string" where
  "error_text ErrNotFound = ''not found''"
| "error_text ErrConflict = ''version conflict''"
| "error_text ErrEOF = ''EOF''"
| "error_text ErrCanceled = ''context canceled''"
| "error_text (ErrLib t) = t"
| "error_text (ErrMsg t) = t"
| "error_text (ErrWrap p e) = p @ '': '' @ error_text e"

text \<open>\<open>errors.Is\<close>: the error itself or one it wraps.\<close>

fun errors_is :: "go_error \<Rightarrow> go_error \<Rightarrow> bool" where
  "errors_is (ErrWrap p e) t = (ErrWrap p e = t \<or> errors_is e t)"
| "errors_is e t = (e = t)"

text \<open>The \<open>if err != nil\<close> after a call.\<close>

definition attempt :: "'e + 'a \<Rightarrow> ('a \<Rightarrow> 'e + 'b) \<Rightarrow> 'e + 'b" where
  "attempt x f = (case x of Inl err \<Rightarrow> Inl err | Inr v \<Rightarrow> f v)"

lemma attempt_Inr [simp]: "attempt x f = Inr v \<longleftrightarrow> (\<exists>u. x = Inr u \<and> f u = Inr v)"
  by (auto simp: attempt_def split: sum.splits)

section \<open>Maps\<close>

type_synonym ('k, 'v) gomap = "('k \<times> 'v) list"

abbreviation gget :: "('k, 'v) gomap \<Rightarrow> 'k \<Rightarrow> 'v option" where
  "gget \<equiv> map_of"

abbreviation gput :: "'k \<Rightarrow> 'v \<Rightarrow> ('k, 'v) gomap \<Rightarrow> ('k, 'v) gomap" where
  "gput \<equiv> AList.update"

abbreviation gdel :: "'k \<Rightarrow> ('k, 'v) gomap \<Rightarrow> ('k, 'v) gomap" where
  "gdel \<equiv> AList.delete"

definition gwf :: "('k, 'v) gomap \<Rightarrow> bool" where
  "gwf m \<longleftrightarrow> distinct (map fst m)"

named_theorems gomap "laws of Go maps as association lists"

lemma gwf_Nil [gomap, simp]: "gwf []"
  by (simp add: gwf_def)

lemma gwf_put [gomap, simp]: "gwf m \<Longrightarrow> gwf (gput k v m)"
  by (simp add: gwf_def distinct_update)

lemma gwf_del [gomap, simp]: "gwf m \<Longrightarrow> gwf (gdel k m)"
  by (simp add: gwf_def distinct_delete)

lemma gget_put [gomap, simp]: "gget (gput k v m) k' = (if k' = k then Some v else gget m k')"
  by (simp add: update_conv')

lemma gget_del [gomap, simp]: "gget (gdel k m) k' = (if k' = k then None else gget m k')"
  by (simp add: delete_conv')

lemma gwf_Cons [gomap]: "gwf ((k, v) # m) \<longleftrightarrow> gget m k = None \<and> gwf m"
  by (auto simp: gwf_def map_of_eq_None_iff)

lemma gget_iff_mem [gomap]: "gwf m \<Longrightarrow> gget m k = Some v \<longleftrightarrow> (k, v) \<in> set m"
  by (simp add: gwf_def)

lemma gget_mem: "gget m k = Some v \<Longrightarrow> (k, v) \<in> set m"
  by (rule map_of_SomeD)

lemma ball_vals_iff: "gwf m \<Longrightarrow> (\<forall>v \<in> snd ` set m. P v) \<longleftrightarrow> (\<forall>k v. gget m k = Some v \<longrightarrow> P v)"
  by (force simp: gget_iff_mem)

text \<open>Two lists with the same entries are two iteration orders of one map: lookups agree.\<close>

lemma gwf_order: "mset m = mset m' \<Longrightarrow> gwf m' \<Longrightarrow> gwf m"
  unfolding gwf_def by (metis mset_eq_imp_distinct_iff mset_map)

lemma gget_order:
  assumes "mset m = mset m'" and "gwf m'"
  shows "gget m = gget m'"
proof
  fix k
  have "gwf m" and "set m = set m'"
    using assms by (auto intro: gwf_order dest: mset_eq_setD)
  then show "gget m k = gget m' k"
    using assms(2) by (metis (no_types) gget_iff_mem not_Some_eq)
qed

lemma gwf_rev [simp]: "gwf (rev m) = gwf m"
  by (simp add: gwf_def rev_map [symmetric])

lemma gget_rev: "gwf m \<Longrightarrow> gget (rev m) = gget m"
  by (rule gget_order) simp_all

lemma distinct_map_neq: "distinct (map f (x # xs)) \<Longrightarrow> y \<in> set xs \<Longrightarrow> f y \<noteq> f x"
  by (simp add: image_iff) metis

section \<open>Reachable states and invariants\<close>

inductive reach :: "('s \<Rightarrow> bool) \<Rightarrow> ('s \<Rightarrow> 's \<Rightarrow> bool) \<Rightarrow> 's \<Rightarrow> bool"
  for init :: "'s \<Rightarrow> bool" and step :: "'s \<Rightarrow> 's \<Rightarrow> bool" where
  reach_init: "init s \<Longrightarrow> reach init step s"
| reach_step: "reach init step s \<Longrightarrow> step s t \<Longrightarrow> reach init step t"

lemma reach_weaken: "reach init step s \<Longrightarrow> (\<And>s. init s \<Longrightarrow> init' s) \<Longrightarrow> reach init' step s"
  by (induction rule: reach.induct) (auto intro: reach.intros)

text \<open>What a component promises when it claims an invariant of all its states.\<close>

locale invariant_of =
  fixes init :: "'s \<Rightarrow> bool" and step :: "'s \<Rightarrow> 's \<Rightarrow> bool" and inv :: "'s \<Rightarrow> bool"
  assumes inv_init: "init s \<Longrightarrow> inv s"
    and inv_step: "inv s \<Longrightarrow> step s t \<Longrightarrow> inv t"
begin

lemma reach_inv: "reach init step s \<Longrightarrow> inv s"
  by (induction rule: reach.induct) (auto intro: inv_init inv_step)

lemma steps_inv: "step\<^sup>*\<^sup>* s t \<Longrightarrow> inv s \<Longrightarrow> inv t"
  by (induction rule: rtranclp_induct) (auto intro: inv_step)

end

section \<open>Numbers, strings and bytes\<close>

type_synonym byte = "8 word"
type_synonym u64 = "64 word"

text \<open>Go's \<open>int64\<close> (and \<open>int\<close>) as \<open>int\<close> with the wrap-around written out.\<close>

definition s64 :: "int \<Rightarrow> int" where
  "s64 x = signed_take_bit 63 x"

definition in_s64 :: "int \<Rightarrow> bool" where
  "in_s64 x \<longleftrightarrow> - (2 ^ 63) \<le> x \<and> x < 2 ^ 63"

lemma s64_id: "in_s64 x \<Longrightarrow> s64 x = x"
  by (simp add: s64_def in_s64_def signed_take_bit_int_eq_self)

lemma s64_in: "in_s64 (s64 x)"
  using signed_take_bit_int_greater_eq_minus_exp [of 63 x] signed_take_bit_int_less_exp [of 63 x]
  by (simp add: s64_def in_s64_def)

definition bytes_of :: "string \<Rightarrow> byte list" where
  "bytes_of s = map (\<lambda>c. word_of_nat (of_char c)) s"

definition string_of :: "byte list \<Rightarrow> string" where
  "string_of bs = map (\<lambda>b. char_of (unat b)) bs"

lemma char_of_byte [simp]: "char_of (unat (word_of_nat (of_char c) :: byte)) = c"
  by (simp add: unat_of_nat)

lemma string_of_bytes_of [simp]: "string_of (bytes_of s) = s"
  by (induction s) (simp_all add: string_of_def bytes_of_def)

lemma length_bytes_of [simp]: "length (bytes_of s) = length s"
  by (simp add: bytes_of_def)

text \<open>Decimal formatting, \<open>fmt.Sprint\<close> and \<open>%d\<close> of an integer.\<close>

definition digit_char :: "nat \<Rightarrow> char" where
  "digit_char d = char_of (48 + d)"

fun nat_digits :: "nat \<Rightarrow> string" where
  "nat_digits n = (if n < 10 then [digit_char n] else nat_digits (n div 10) @ [digit_char (n mod 10)])"

declare nat_digits.simps [simp del]

definition sprint_int :: "int \<Rightarrow> string" where
  "sprint_int v = (if v < 0 then ''-'' @ nat_digits (nat (- v)) else nat_digits (nat v))"

text \<open>\<open>%q\<close> of a string of printable ASCII characters: quoted, with the two escapes that apply.\<close>

definition go_quote :: "string \<Rightarrow> string" where
  "go_quote s = ''\"'' @ concat (map (\<lambda>c. if c = CHR 0x22 \<or> c = CHR 0x5C then [CHR 0x5C, c] else [c]) s) @ ''\"''"

end
