(* ===== verification/PM_Model.thy ===== *)
theory PM_Model
  imports PM_Prelude
begin

text \<open>
  The data model of \<open>internal/model/model.go\<close>: devices with their Shadowsocks ingresses, upstream
  SOCKS5 credentials, the versioned route of a device, and a gateway's heartbeat. A \<open>time.Time\<close>
  is an instant as an integer; \<open>*time.Time\<close> is an \<open>option\<close>.
\<close>

section \<open>Records\<close>

type_synonym time = int

record device_ingress =
  di_Port :: int
  di_Method :: string
  di_Password :: string
  di_Primary :: bool
  di_CreatedAt :: time

record device =
  d_ID :: string
  d_Username :: string
  d_PasswordHash :: string
  d_IngressPort :: int
  d_IngressMethod :: string
  d_IngressPassword :: string
  d_Ingresses :: "device_ingress list"
  d_Enabled :: bool
  d_CreatedAt :: time
  d_UpdatedAt :: time

record proxy_credential =
  pc_ID :: string
  pc_Host :: string
  pc_Port :: int
  pc_Username :: string
  pc_Password :: string
  pc_EncryptedPassword :: "byte list"
  pc_ExpiresAt :: "time option"
  pc_CreatedAt :: time
  pc_ProviderID :: string
  pc_GenerationMetadata :: "(string, string) gomap"

record device_route =
  r_DeviceID :: string
  r_DeviceUsername :: string
  r_PasswordHash :: string
  r_IngressPort :: int
  r_IngressMethod :: string
  r_IngressPassword :: string
  r_Ingresses :: "device_ingress list"
  r_Credential :: proxy_credential
  r_Version :: int
  r_Status :: string
  r_UpdatedAt :: time

record gateway_info =
  gi_ID :: string
  gi_Address :: string
  gi_Status :: string
  gi_AppliedVersion :: int
  gi_ActiveConnections :: int
  gi_LastHeartbeatAt :: time

text \<open>The status constants.\<close>

definition RoutePending :: string where "RoutePending = ''pending''"
definition RouteActive :: string where "RouteActive = ''active''"
definition GatewayReady :: string where "GatewayReady = ''READY''"
definition GatewaySyncing :: string where "GatewaySyncing = ''SYNCING''"
definition GatewayDraining :: string where "GatewayDraining = ''DRAINING''"
definition GatewayOffline :: string where "GatewayOffline = ''OFFLINE''"

lemmas status_defs = RoutePending_def RouteActive_def GatewayReady_def GatewaySyncing_def
  GatewayDraining_def GatewayOffline_def

section \<open>Effective ingresses\<close>

definition Device_EffectiveIngresses :: "device \<Rightarrow> device_ingress list" where
  "Device_EffectiveIngresses d =
     (if d_Ingresses d \<noteq> [] then d_Ingresses d
      else if d_IngressPort d = 0 then []
      else [\<lparr>di_Port = d_IngressPort d, di_Method = d_IngressMethod d,
             di_Password = d_IngressPassword d, di_Primary = True,
             di_CreatedAt = d_CreatedAt d\<rparr>])"

definition Route_EffectiveIngresses :: "device_route \<Rightarrow> device_ingress list" where
  "Route_EffectiveIngresses r =
     (if r_Ingresses r \<noteq> [] then r_Ingresses r
      else if r_IngressPort r = 0 then []
      else [\<lparr>di_Port = r_IngressPort r, di_Method = r_IngressMethod r,
             di_Password = r_IngressPassword r, di_Primary = True,
             di_CreatedAt = r_UpdatedAt r\<rparr>])"

text \<open>The zero values that a composite literal leaves in the fields it does not name.\<close>

definition zero_credential :: proxy_credential where
  "zero_credential = \<lparr>pc_ID = [], pc_Host = [], pc_Port = 0, pc_Username = [], pc_Password = [],
     pc_EncryptedPassword = [], pc_ExpiresAt = None, pc_CreatedAt = 0, pc_ProviderID = [],
     pc_GenerationMetadata = []\<rparr>"

definition zero_route :: device_route where
  "zero_route = \<lparr>r_DeviceID = [], r_DeviceUsername = [], r_PasswordHash = [], r_IngressPort = 0,
     r_IngressMethod = [], r_IngressPassword = [], r_Ingresses = [], r_Credential = zero_credential,
     r_Version = 0, r_Status = [], r_UpdatedAt = 0\<rparr>"

definition zero_device :: device where
  "zero_device = \<lparr>d_ID = [], d_Username = [], d_PasswordHash = [], d_IngressPort = 0,
     d_IngressMethod = [], d_IngressPassword = [], d_Ingresses = [], d_Enabled = False,
     d_CreatedAt = 0, d_UpdatedAt = 0\<rparr>"

lemmas zero_defs = zero_credential_def zero_route_def zero_device_def

text \<open>
  A device and the route built from it offer the same ports with the same methods and passwords,
  whatever the two time stamps of a synthesised primary ingress are.
\<close>

definition ingress_key :: "device_ingress \<Rightarrow> int \<times> string \<times> string" where
  "ingress_key i = (di_Port i, di_Method i, di_Password i)"

lemma effective_ingresses_agree:
  assumes "r_Ingresses r = d_Ingresses d" and "r_IngressPort r = d_IngressPort d"
    and "r_IngressMethod r = d_IngressMethod d" and "r_IngressPassword r = d_IngressPassword d"
  shows "map ingress_key (Route_EffectiveIngresses r) = map ingress_key (Device_EffectiveIngresses d)"
  using assms by (simp add: Route_EffectiveIngresses_def Device_EffectiveIngresses_def ingress_key_def)

end
