(* ===== verification/PM_Base64.thy ===== *)
theory PM_Base64
  imports PM_Prelude
begin

text \<open>
  The two encodings of \<open>encoding/base64\<close> that the program uses: \<open>StdEncoding\<close> (padded, both
  directions) and \<open>RawURLEncoding\<close> (unpadded, encoding only). The decoder skips carriage returns and
  line feeds and ignores left-over bits, as Go's non-strict decoder does.
\<close>

section \<open>Alphabets\<close>

definition std_alphabet :: string where
  "std_alphabet = ''ABCDEFGHIJKLMNOPQRSTUVWXYZabcdefghijklmnopqrstuvwxyz0123456789+/''"

definition url_alphabet :: string where
  "url_alphabet = ''ABCDEFGHIJKLMNOPQRSTUVWXYZabcdefghijklmnopqrstuvwxyz0123456789-_''"

fun index_of :: "'a \<Rightarrow> 'a list \<Rightarrow> nat option" where
  "index_of x [] = None"
| "index_of x (y # ys) = (if x = y then Some 0 else map_option Suc (index_of x ys))"

lemma index_of_nth: "distinct xs \<Longrightarrow> i < length xs \<Longrightarrow> index_of (xs ! i) xs = Some i"
  by (induction xs arbitrary: i) (auto simp: nth_Cons nth_mem split: nat.splits)

lemma std_alphabet_ok: "length std_alphabet = 64" "distinct std_alphabet"
  by (simp_all add: std_alphabet_def)

lemma url_alphabet_ok: "length url_alphabet = 64"
  by (simp add: url_alphabet_def)

section \<open>Encoding\<close>

text \<open>A group of one, two or three bytes as sextets.\<close>

fun sextets :: "nat list \<Rightarrow> nat list" where
  "sextets (a # b # c # rest) =
     [a div 4, a mod 4 * 16 + b div 16, b mod 16 * 4 + c div 64, c mod 64] @ sextets rest"
| "sextets [a, b] = [a div 4, a mod 4 * 16 + b div 16, b mod 16 * 4]"
| "sextets [a] = [a div 4, a mod 4 * 16]"
| "sextets [] = []"

definition padding :: "nat \<Rightarrow> string" where
  "padding n = (if n mod 3 = 1 then ''=='' else if n mod 3 = 2 then ''='' else [])"

definition StdEncoding_EncodeToString :: "byte list \<Rightarrow> string" where
  "StdEncoding_EncodeToString bs =
     map (\<lambda>i. std_alphabet ! i) (sextets (map unat bs)) @ padding (length bs)"

definition RawURLEncoding_EncodeToString :: "byte list \<Rightarrow> string" where
  "RawURLEncoding_EncodeToString bs = map (\<lambda>i. url_alphabet ! i) (sextets (map unat bs))"

section \<open>Decoding\<close>

fun dec_quanta :: "string \<Rightarrow> nat list option" where
  "dec_quanta [] = Some []"
| "dec_quanta (a # b # c # d # rest) =
     (case (index_of a std_alphabet, index_of b std_alphabet) of
        (Some i, Some j) \<Rightarrow>
          if c = CHR ''='' then
            (if d = CHR ''='' \<and> rest = [] then Some [i * 4 + j div 16] else None)
          else (case index_of c std_alphabet of
              None \<Rightarrow> None
            | Some k \<Rightarrow>
                if d = CHR ''='' then
                  (if rest = [] then Some [i * 4 + j div 16, j mod 16 * 16 + k div 4] else None)
                else (case (index_of d std_alphabet, dec_quanta rest) of
                    (Some l, Some out) \<Rightarrow>
                      Some ([i * 4 + j div 16, j mod 16 * 16 + k div 4, k mod 4 * 64 + l] @ out)
                  | _ \<Rightarrow> None))
      | _ \<Rightarrow> None)"
| "dec_quanta _ = None"

definition StdEncoding_DecodeString :: "string \<Rightarrow> go_error + byte list" where
  "StdEncoding_DecodeString s =
     (case dec_quanta (filter (\<lambda>c. c \<noteq> CHR 0x0D \<and> c \<noteq> CHR 0x0A) s) of
        None \<Rightarrow> Inl (ErrLib ''illegal base64 data'')
      | Some out \<Rightarrow> Inr (map word_of_nat out))"

section \<open>Lengths and the round trip\<close>

lemma length_sextets:
  "length (sextets bs) = 4 * (length bs div 3) + (if length bs mod 3 = 0 then 0 else length bs mod 3 + 1)"
proof (induction bs rule: sextets.induct)
  case (1 a b c rest)
  have "length (a # b # c # rest) div 3 = length rest div 3 + 1"
    and "length (a # b # c # rest) mod 3 = length rest mod 3"
    by simp_all
  with 1 show ?case by (simp only: sextets.simps length_append list.size) simp
qed simp_all

lemma sextets_bound: "\<forall>b \<in> set bs. b < 256 \<Longrightarrow> \<forall>s \<in> set (sextets bs). s < 64"
  by (induction bs rule: sextets.induct) auto

abbreviation alpha :: "nat \<Rightarrow> char" where
  "alpha i \<equiv> std_alphabet ! i"

lemma index_alpha: "i < 64 \<Longrightarrow> index_of (alpha i) std_alphabet = Some i"
  by (rule index_of_nth) (simp_all add: std_alphabet_ok)

lemma alpha_not_special: "i < 64 \<Longrightarrow> alpha i \<noteq> CHR ''='' \<and> alpha i \<noteq> CHR 0x0D \<and> alpha i \<noteq> CHR 0x0A"
proof -
  assume "i < 64"
  then have "alpha i \<in> set std_alphabet" by (simp add: std_alphabet_ok)
  then show ?thesis by (auto simp: std_alphabet_def)
qed

text \<open>Splitting bytes into sextets and joining them again is the identity.\<close>

lemma sextet_lt:
  assumes "a < 256" "b < 256" "c < (256 :: nat)"
  shows "a div 4 < 64" "a mod 4 * 16 + b div 16 < 64" "b mod 16 * 4 + c div 64 < 64" "c mod 64 < 64"
    "a mod 4 * 16 < 64" "b mod 16 * 4 < 64"
proof -
  have d: "a div 4 < 64" "b div 16 < 16" "c div 64 < 4"
    using assms by (simp_all add: less_mult_imp_div_less)
  have m: "a mod 4 < 4" "b mod 16 < 16" "c mod 64 < 64" by simp_all
  show "a div 4 < 64" "a mod 4 * 16 + b div 16 < 64" "b mod 16 * 4 + c div 64 < 64" "c mod 64 < 64"
    "a mod 4 * 16 < 64" "b mod 16 * 4 < 64"
    using d m by linarith+
qed

lemma sextet_join:
  assumes "b < 256" "c < (256 :: nat)"
  shows "a div 4 * 4 + (a mod 4 * 16 + b div 16) div 16 = a"
    "(a mod 4 * 16 + b div 16) mod 16 * 16 + (b mod 16 * 4 + c div 64) div 4 = b"
    "(b mod 16 * 4 + c div 64) mod 4 * 64 + c mod 64 = c"
    "(a mod 4 * 16 + b div 16) mod 16 * 16 + (b mod 16 * 4) div 4 = b"
proof -
  have d: "b div 16 < 16" "c div 64 < 4"
    using assms by (simp_all add: less_mult_imp_div_less)
  have "(a mod 4 * 16 + b div 16) div 16 = a mod 4" "(a mod 4 * 16 + b div 16) mod 16 = b div 16"
    "(b mod 16 * 4 + c div 64) div 4 = b mod 16" "(b mod 16 * 4 + c div 64) mod 4 = c div 64"
    using d by simp_all
  then show "a div 4 * 4 + (a mod 4 * 16 + b div 16) div 16 = a"
    "(a mod 4 * 16 + b div 16) mod 16 * 16 + (b mod 16 * 4 + c div 64) div 4 = b"
    "(b mod 16 * 4 + c div 64) mod 4 * 64 + c mod 64 = c"
    "(a mod 4 * 16 + b div 16) mod 16 * 16 + (b mod 16 * 4) div 4 = b"
    by (simp_all only: div_mult_mod_eq) simp
qed

lemma dec_enc_quanta:
  "\<forall>b \<in> set bs. b < 256 \<Longrightarrow>
     dec_quanta (map alpha (sextets bs) @ padding (length bs)) = Some bs"
proof (induction bs rule: sextets.induct)
  case (1 a b c rest)
  have pad: "padding (length (a # b # c # rest)) = padding (length rest)"
    by (simp add: padding_def)
  have lim: "a < 256" "b < 256" "c < 256" using 1 by simp_all
  note lt = sextet_lt [OF lim]
  have "dec_quanta (map alpha (sextets rest) @ padding (length rest)) = Some rest" using 1 by simp
  then show ?case unfolding pad
    by (simp only: sextets.simps list.map append.simps dec_quanta.simps index_alpha [OF lt(1)]
        index_alpha [OF lt(2)] index_alpha [OF lt(3)] index_alpha [OF lt(4)]
        alpha_not_special [OF lt(3)] alpha_not_special [OF lt(4)] prod.case option.case if_False
        sextet_join [OF lim(2,3)])
next
  case (2 a b)
  then have lim: "a < 256" "b < 256" "0 < (256 :: nat)" by simp_all
  note lt = sextet_lt [OF lim]
  have pad: "padding (length [a, b]) = ''=''" by (simp add: padding_def)
  show ?case unfolding pad
    by (simp only: sextets.simps list.map append.simps dec_quanta.simps index_alpha [OF lt(1)]
        index_alpha [OF lt(2)] index_alpha [OF lt(6)] alpha_not_special [OF lt(6)]
        prod.case option.case if_False if_True simp_thms sextet_join [OF lim(2,3)])
next
  case (3 a)
  then have lim: "a < 256" "0 < (256 :: nat)" "0 < (256 :: nat)" by simp_all
  note lt = sextet_lt [OF lim]
  show ?case
    by (simp add: padding_def index_alpha [OF lt(1)] index_alpha [OF lt(5)])
next
  case 4
  then show ?case by (simp add: padding_def)
qed

lemma std_roundtrip: "StdEncoding_DecodeString (StdEncoding_EncodeToString bs) = Inr bs"
proof -
  let ?s = "StdEncoding_EncodeToString bs"
  have lim: "\<forall>b \<in> set (map unat bs). b < 256"
    by (auto intro: order_less_le_trans [OF unsigned_less])
  have "\<forall>c \<in> set ?s. c \<noteq> CHR 0x0D \<and> c \<noteq> CHR 0x0A"
    using sextets_bound [OF lim] alpha_not_special
    by (auto simp: StdEncoding_EncodeToString_def padding_def split: if_splits)
  then have "filter (\<lambda>c. c \<noteq> CHR 0x0D \<and> c \<noteq> CHR 0x0A) ?s = ?s"
    by (simp add: filter_id_conv)
  then show ?thesis
    using dec_enc_quanta [OF lim]
    by (simp add: StdEncoding_DecodeString_def) (simp add: StdEncoding_EncodeToString_def comp_def)
qed

lemma length_raw_url:
  "length (RawURLEncoding_EncodeToString bs) = 4 * (length bs div 3) + (if length bs mod 3 = 0 then 0 else length bs mod 3 + 1)"
  by (simp add: RawURLEncoding_EncodeToString_def length_sextets)

end
