(* ===== verification/PM_Cryptox.thy ===== *)
theory PM_Cryptox
  imports PM_Base64
begin

text \<open>
  The cipher for secrets at rest, \<open>internal/cryptox/cipher.go\<close>. AES-GCM and SHA-256 are parameters.
  The cipher keeps the AEAD it was made with; \<open>Encrypt\<close> takes the nonce that
  \<open>io.ReadFull(rand.Reader, nonce)\<close> produced, or the error of that read.
\<close>

record aead =
  NonceSize :: nat
  Seal :: "byte list \<Rightarrow> byte list \<Rightarrow> byte list"
  Open :: "byte list \<Rightarrow> byte list \<Rightarrow> go_error + byte list"

text \<open>The primitives of the Go library: \<open>sha256.Sum256\<close>, and \<open>aes.NewCipher\<close> with \<open>cipher.NewGCM\<close>.\<close>

record crypto_lib =
  sha256_Sum256 :: "byte list \<Rightarrow> byte list"
  aes_NewGCM :: "byte list \<Rightarrow> go_error + aead"

definition cipher_key :: "crypto_lib \<Rightarrow> string \<Rightarrow> byte list" where
  "cipher_key lib key =
     (case StdEncoding_DecodeString key of
        Inl _ \<Rightarrow> sha256_Sum256 lib (bytes_of key)
      | Inr raw \<Rightarrow> if length raw \<noteq> 32 then sha256_Sum256 lib (bytes_of key) else raw)"

definition Cipher_New :: "crypto_lib \<Rightarrow> string \<Rightarrow> go_error + aead" where
  "Cipher_New lib key =
     (if key = [] then Inl (ErrMsg ''encryption key is required'')
      else aes_NewGCM lib (cipher_key lib key))"

definition Cipher_Encrypt :: "aead \<Rightarrow> go_error + byte list \<Rightarrow> byte list \<Rightarrow> go_error + byte list" where
  "Cipher_Encrypt c nonce_read plain =
     (case nonce_read of Inl e \<Rightarrow> Inl e | Inr nonce \<Rightarrow> Inr (nonce @ Seal c nonce plain))"

definition Cipher_Decrypt :: "aead \<Rightarrow> byte list \<Rightarrow> go_error + byte list" where
  "Cipher_Decrypt c value =
     (if length value < NonceSize c then Inl (ErrMsg ''ciphertext too short'')
      else Open c (take (NonceSize c) value) (drop (NonceSize c) value))"

text \<open>
  What the program relies on: opening undoes sealing under the same nonce; a SHA-256 sum has 32
  bytes; AES-GCM can be set up with any 32-byte key.
\<close>

definition aead_ok :: "aead \<Rightarrow> bool" where
  "aead_ok c \<longleftrightarrow> (\<forall>nonce p. length nonce = NonceSize c \<longrightarrow> Open c nonce (Seal c nonce p) = Inr p)"

definition crypto_lib_ok :: "crypto_lib \<Rightarrow> bool" where
  "crypto_lib_ok lib \<longleftrightarrow> (\<forall>b. length (sha256_Sum256 lib b) = 32)
     \<and> (\<forall>k. length k = 32 \<longrightarrow> (\<exists>c. aes_NewGCM lib k = Inr c \<and> aead_ok c))"

lemma decrypt_encrypt:
  assumes "aead_ok c" and "length nonce = NonceSize c" and "Cipher_Encrypt c (Inr nonce) p = Inr v"
  shows "Cipher_Decrypt c v = Inr p"
  using assms by (auto simp: Cipher_Encrypt_def Cipher_Decrypt_def aead_ok_def)

lemma length_cipher_key: "crypto_lib_ok lib \<Longrightarrow> length (cipher_key lib key) = 32"
  by (auto simp: cipher_key_def crypto_lib_ok_def split: sum.splits)

text \<open>
  any non-empty key, Base64 or not, yields a cipher, and what that cipher encrypts under a
  full nonce it decrypts to the same bytes; a value shorter than a nonce is rejected.
\<close>

theorem cipher_roundtrip:
  assumes "crypto_lib_ok lib" and "key \<noteq> []"
  shows "\<exists>c. Cipher_New lib key = Inr c
     \<and> (\<forall>nonce p. length nonce = NonceSize c \<longrightarrow>
          (\<exists>v. Cipher_Encrypt c (Inr nonce) p = Inr v \<and> Cipher_Decrypt c v = Inr p))
     \<and> (\<forall>v. length v < NonceSize c \<longrightarrow> Cipher_Decrypt c v = Inl (ErrMsg ''ciphertext too short''))"
proof -
  from length_cipher_key [OF assms(1)] assms(1)
  obtain c where c: "aes_NewGCM lib (cipher_key lib key) = Inr c" and ok: "aead_ok c"
    unfolding crypto_lib_ok_def by blast
  have "Cipher_New lib key = Inr c" using c assms(2) by (simp add: Cipher_New_def)
  moreover have "\<exists>v. Cipher_Encrypt c (Inr nonce) p = Inr v \<and> Cipher_Decrypt c v = Inr p"
    if "length nonce = NonceSize c" for nonce p
    using decrypt_encrypt [OF ok that] by (simp add: Cipher_Encrypt_def)
  ultimately show ?thesis by (auto simp: Cipher_Decrypt_def)
qed

text \<open>An AEAD that authenticates with a copy of the nonce, to show the hypotheses can hold.\<close>

definition demo_aead :: aead where
  "demo_aead = \<lparr>NonceSize = 2, Seal = (\<lambda>n p. n @ p),
     Open = (\<lambda>n v. if take (length n) v = n then Inr (drop (length n) v) else Inl (ErrLib ''authentication failed''))\<rparr>"

definition demo_lib :: crypto_lib where
  "demo_lib = \<lparr>sha256_Sum256 = (\<lambda>b. take 32 (b @ replicate 32 0)), aes_NewGCM = (\<lambda>_. Inr demo_aead)\<rparr>"

lemma demo_aead_ok: "aead_ok demo_aead"
  by (simp add: aead_ok_def demo_aead_def)

theorem cipher_roundtrip_witness:
  "crypto_lib_ok demo_lib \<and> ''k'' \<noteq> [] \<and> (\<exists>c. Cipher_New demo_lib ''k'' = Inr c)"
proof -
  have ok: "crypto_lib_ok demo_lib"
    by (auto simp: crypto_lib_ok_def demo_aead_ok) (auto simp: demo_lib_def demo_aead_ok min_def)
  show ?thesis using cipher_roundtrip [OF ok, of "''k''"] ok by auto
qed

end
