(* ===== verification/PM_Provider.thy ===== *)
theory PM_Provider
  imports PM_Model "HOL-Library.Sublist" "HOL-Library.List_Lexorder" "HOL-Library.Char_ord"
begin

unbundle bit_operations_syntax

text \<open>
  Upstream providers, \<open>internal/provider/provider.go\<close>: validation of a definition, the template language of
  hosts, usernames and passwords, weighted choice, sessions, and the sampling of random numbers.

  \<open>crypto/rand\<close> is a parameter: \<open>src i n\<close> is what the \<open>i\<close>-th read into a buffer of \<open>n\<close> bytes gives. A function that
  reads takes the number of the next read and returns it moved on. Case folding and trimming are written
  for ASCII text. A \<open>float64\<close> is a mantissa and a binary exponent; \<open>conv\<close> is what the machine makes of a float that does
  not fit \<open>uint64\<close>, which Go leaves to the implementation.
\<close>

section \<open>Data\<close>

record value_rule =
  vr_Default :: string
  vr_WithState :: string
  vr_WithCity :: string
  vr_ByCountry :: "(string, string) gomap"

record port_range =
  pg_From :: int
  pg_To :: int

record port_rule =
  pr_Default :: int
  pr_ByCountry :: "(string, port_range) gomap"

record session_rule =
  sr_Type :: string
  sr_Min :: int
  sr_Max :: int
  sr_Length :: int

datatype float64 = Float (mantissa: int) (exponent: int)

record provider_config =
  cf_Protocol :: string
  cf_Host :: value_rule
  cf_Port :: port_rule
  cf_Username :: value_rule
  cf_Password :: value_rule
  cf_CountryAliases :: "(string, string) gomap"
  cf_StateFallbackWeights :: "(string, float64) gomap"
  cf_StateFallbackByCountry :: "(string, (string, float64) gomap) gomap"
  cf_Session :: session_rule
  cf_SessionMinutes :: int
  cf_RouteTTLMinutes :: int

record provider_definition =
  pd_ID :: string
  pd_Enabled :: bool
  pd_Weight :: int
  pd_Config :: provider_config
  pd_Secrets :: "(string, string) gomap"

record provider_request =
  pq_Country :: string
  pq_State :: string
  pq_City :: string

record endpoint =
  ep_ProviderID :: string
  ep_Protocol :: string
  ep_Host :: string
  ep_Port :: int
  ep_Username :: string
  ep_Password :: string
  ep_Country :: string
  ep_State :: string
  ep_City :: string
  ep_SessionID :: string

text \<open>The values that the control plane writes as JSON; \<open>JConfig\<close> is the object of a \<open>Config\<close>.\<close>

datatype json =
    JNull
  | JBool bool
  | JInt int
  | JStr string
  | JTime time
  | JList "json list"
  | JObj "(string \<times> json) list"
  | JConfig provider_config

section \<open>Strings\<close>

definition is_space :: "char \<Rightarrow> bool" where
  "is_space c \<longleftrightarrow> of_char c \<in> {9, 10, 11, 12, 13, 32 :: nat}"

definition TrimSpace :: "string \<Rightarrow> string" where
  "TrimSpace s = rev (dropWhile is_space (rev (dropWhile is_space s)))"

definition lower_char :: "char \<Rightarrow> char" where
  "lower_char c = (let n = of_char c :: nat in if 65 \<le> n \<and> n \<le> 90 then char_of (n + 32) else c)"

definition ToLower :: "string \<Rightarrow> string" where
  "ToLower s = map lower_char s"

definition EqualFold :: "string \<Rightarrow> string \<Rightarrow> bool" where
  "EqualFold a b \<longleftrightarrow> ToLower a = ToLower b"

fun str_contains :: "string \<Rightarrow> string \<Rightarrow> bool" where
  "str_contains [] t = (t = [])"
| "str_contains (c # cs) t = (prefix t (c # cs) \<or> str_contains cs t)"

text \<open>\<open>strings.ReplaceAll(s, old, new)\<close> for an \<open>old\<close> that is not empty.\<close>

function ReplaceAll :: "string \<Rightarrow> string \<Rightarrow> string \<Rightarrow> string" where
  "ReplaceAll old new [] = []"
| "ReplaceAll old new (c # cs) =
     (if old \<noteq> [] \<and> prefix old (c # cs) then new @ ReplaceAll old new (drop (length old) (c # cs))
      else c # ReplaceAll old new cs)"
  by pat_completeness auto

termination by (relation "measure (\<lambda>(old, new, s). length s)") (auto simp: neq_Nil_conv)

definition normalizeCountry :: "string \<Rightarrow> string" where
  "normalizeCountry v = ToLower (TrimSpace v)"

definition normalizeLocation :: "string \<Rightarrow> string" where
  "normalizeLocation v = ReplaceAll '' '' ''_'' (ToLower (TrimSpace v))"

text \<open>A read of a missing key of a Go map gives the zero value.\<close>

definition gget_str :: "(string, string) gomap \<Rightarrow> string \<Rightarrow> string" where
  "gget_str m k = (case gget m k of None \<Rightarrow> [] | Some v \<Rightarrow> v)"

section \<open>Regular expressions\<close>

definition is_lower_alnum :: "char \<Rightarrow> bool" where
  "is_lower_alnum c \<longleftrightarrow> (let n = of_char c :: nat in (97 \<le> n \<and> n \<le> 122) \<or> (48 \<le> n \<and> n \<le> 57))"

definition is_upper :: "char \<Rightarrow> bool" where
  "is_upper c \<longleftrightarrow> (let n = of_char c :: nat in 65 \<le> n \<and> n \<le> 90)"

definition is_name_char :: "char \<Rightarrow> bool" where
  "is_name_char c \<longleftrightarrow> is_lower_alnum c \<or> is_upper c \<or> c \<in> set ''_.-''"

definition validID :: "string \<Rightarrow> bool" where
  "validID s = (case s of [] \<Rightarrow> False
     | c # cs \<Rightarrow> is_lower_alnum c \<and> list_all (\<lambda>c. is_lower_alnum c \<or> c \<in> set ''._-'') cs \<and> length cs \<le> 63)"

definition secret_open :: string where "secret_open = ''{{secret.''"
definition brace_close :: string where "brace_close = ''}}''"

text \<open>
  A match of \<open>secretExpression\<close> at the beginning of a string: the name and what follows. The characters of a
  name are no braces, so the greedy repetition has only one way to match.
\<close>

definition match_secret :: "string \<Rightarrow> (string \<times> string) option" where
  "match_secret s =
     (if prefix secret_open s
      then let rest = drop (length secret_open) s; name = takeWhile is_name_char rest; after = dropWhile is_name_char rest in
           if name \<noteq> [] \<and> prefix brace_close after then Some (name, drop (length brace_close) after) else None
      else None)"

lemma match_secret_shorter: "match_secret s = Some (name, rest) \<Longrightarrow> length rest < length s"
  using length_dropWhile_le [of is_name_char "drop (length secret_open) s"]
  by (auto simp: match_secret_def Let_def secret_open_def brace_close_def prefix_def split: if_splits)

text \<open>\<open>FindAllStringSubmatch\<close>: the names, from left to right.\<close>

function secret_names :: "string \<Rightarrow> string list" where
  "secret_names [] = []"
| "secret_names (c # cs) =
     (case match_secret (c # cs) of Some (name, rest) \<Rightarrow> name # secret_names rest | None \<Rightarrow> secret_names cs)"
  by pat_completeness auto

termination by (relation "measure length") (auto dest: match_secret_shorter)

text \<open>\<open>ReplaceAllStringFunc\<close> with the function of \<open>render\<close>: the text, and the last name that is no key of the secrets.\<close>

function replace_secrets :: "(string, string) gomap \<Rightarrow> string \<Rightarrow> string \<Rightarrow> string \<times> string" where
  "replace_secrets secrets missing [] = ([], missing)"
| "replace_secrets secrets missing (c # cs) =
     (case match_secret (c # cs) of
        Some (name, rest) \<Rightarrow>
          (case gget secrets name of
             None \<Rightarrow> (let (out, m) = replace_secrets secrets name rest in (secret_open @ name @ brace_close @ out, m))
           | Some v \<Rightarrow> (let (out, m) = replace_secrets secrets missing rest in (v @ out, m)))
      | None \<Rightarrow> (let (out, m) = replace_secrets secrets missing cs in (c # out, m)))"
  by pat_completeness auto

termination by (relation "measure (\<lambda>(s, m, t). length t)") (auto dest: match_secret_shorter)

definition is_brace :: "char \<Rightarrow> bool" where
  "is_brace c \<longleftrightarrow> c \<in> set ''{}''"

definition match_any :: "string \<Rightarrow> string option" where
  "match_any s =
     (if prefix ''{{'' s
      then let rest = drop 2 s; name = takeWhile (\<lambda>c. \<not> is_brace c) rest; after = dropWhile (\<lambda>c. \<not> is_brace c) rest in
           if name \<noteq> [] \<and> prefix brace_close after then Some (''{{'' @ name @ brace_close) else None
      else None)"

text \<open>\<open>anyExpression.FindString\<close>: the leftmost match, empty when there is none.\<close>

fun find_any :: "string \<Rightarrow> string" where
  "find_any [] = []"
| "find_any (c # cs) = (case match_any (c # cs) of Some m \<Rightarrow> m | None \<Rightarrow> find_any cs)"

section \<open>Validation\<close>

definition templates :: "value_rule \<Rightarrow> string list" where
  "templates rule = [vr_Default rule, vr_WithState rule, vr_WithCity rule] @ map snd (vr_ByCountry rule)"

definition valid_range :: "string \<times> port_range \<Rightarrow> bool" where
  "valid_range kv \<longleftrightarrow> \<not> (normalizeCountry (fst kv) = [] \<or> pg_From (snd kv) < 1 \<or> pg_To (snd kv) > 65535
     \<or> pg_To (snd kv) < pg_From (snd kv))"

definition validatePortRule :: "port_rule \<Rightarrow> go_error option" where
  "validatePortRule rule =
     (if pr_Default rule \<noteq> 0 \<and> (pr_Default rule < 1 \<or> pr_Default rule > 65535)
      then Some (ErrMsg ''default provider port is invalid'')
      else case find (\<lambda>kv. \<not> valid_range kv) (pr_ByCountry rule) of
        Some (country, _) \<Rightarrow> Some (ErrMsg (''provider port range for '' @ go_quote country @ '' is invalid''))
      | None \<Rightarrow>
          if pr_Default rule = 0 \<and> pr_ByCountry rule = [] then Some (ErrMsg ''provider port rule is required'') else None)"

text \<open>The first secret that a template names and the definition lacks.\<close>

definition missing_secret :: "provider_definition \<Rightarrow> string option" where
  "missing_secret d = find (\<lambda>name. gget (pd_Secrets d) name = None)
     (concat (map secret_names (concat (map templates [cf_Host (pd_Config d), cf_Username (pd_Config d), cf_Password (pd_Config d)]))))"

definition validateSession :: "provider_config \<Rightarrow> go_error option" where
  "validateSession c =
     (let s = cf_Session c in
      if sr_Type s \<notin> {''uuid'', ''int'', ''alnum''} then Some (ErrMsg ''session.type must be uuid, int or alnum'')
      else if sr_Type s = ''int'' \<and> (sr_Min s < 0 \<or> sr_Max s \<le> sr_Min s) then Some (ErrMsg ''integer session range is invalid'')
      else if sr_Type s = ''alnum'' \<and> (sr_Length s < 1 \<or> sr_Length s > 128)
      then Some (ErrMsg ''alnum session length must be between 1 and 128'')
      else if cf_SessionMinutes c < 0 \<or> cf_RouteTTLMinutes c < 0
      then Some (ErrMsg ''sessionMinutes and routeTTLMinutes must not be negative'')
      else None)"

definition Provider_Validate :: "provider_definition \<Rightarrow> go_error option" where
  "Provider_Validate d =
     (let c = pd_Config d in
      if \<not> validID (pd_ID d)
      then Some (ErrMsg ''provider id must be 1-64 lowercase letters, digits, dots, underscores or hyphens'')
      else if pd_Weight d < 0 \<or> pd_Weight d > 10000 then Some (ErrMsg ''provider weight must be between 0 and 10000'')
      else if \<not> EqualFold (cf_Protocol c) ''socks5'' then Some (ErrMsg ''only socks5 providers are supported'')
      else if vr_Default (cf_Host c) = [] \<and> vr_ByCountry (cf_Host c) = [] then Some (ErrMsg ''provider host rule is required'')
      else if list_ex (\<lambda>t. t \<noteq> [] \<and> \<not> str_contains t secret_open) (templates (cf_Password c))
      then Some (ErrMsg ''provider password templates must reference an encrypted secret'')
      else case missing_secret d of
        Some name \<Rightarrow> Some (ErrMsg (''missing provider secret '' @ go_quote name))
      | None \<Rightarrow>
          (case validatePortRule (cf_Port c) of Some err \<Rightarrow> Some err | None \<Rightarrow> validateSession c))"

section \<open>Random numbers\<close>

type_synonym rand_src = "nat \<Rightarrow> nat \<Rightarrow> go_error + byte list"

definition BigEndian_Uint64 :: "byte list \<Rightarrow> u64" where
  "BigEndian_Uint64 bs = foldl (\<lambda>acc b. push_bit 8 acc OR ucast b) 0 bs"

definition uint_ceiling :: "u64 \<Rightarrow> u64" where
  "uint_ceiling limit = NOT 0 - (NOT 0 mod limit)"

text \<open>The loop reads until a value is below the ceiling; \<open>None\<close> is a run that never ends.\<close>

partial_function (option) uint_loop :: "rand_src \<Rightarrow> u64 \<Rightarrow> nat \<Rightarrow> (nat \<times> (go_error + u64)) option" where
  "uint_loop src limit i =
     (case src i 8 of
        Inl err \<Rightarrow> Some (Suc i, Inl err)
      | Inr b \<Rightarrow>
          if BigEndian_Uint64 b < uint_ceiling limit then Some (Suc i, Inr (BigEndian_Uint64 b mod limit))
          else uint_loop src limit (Suc i))"

declare uint_loop.simps [code]

definition cryptoUint :: "rand_src \<Rightarrow> nat \<Rightarrow> u64 \<Rightarrow> (nat \<times> (go_error + u64)) option" where
  "cryptoUint src i limit =
     (if limit = 0 then Some (i, Inl (ErrMsg ''invalid random limit'')) else uint_loop src limit i)"

definition cryptoInt :: "rand_src \<Rightarrow> nat \<Rightarrow> int \<Rightarrow> int \<Rightarrow> (nat \<times> (go_error + int)) option" where
  "cryptoInt src i lo hi =
     (if hi < lo then Some (i, Inl (ErrMsg ''invalid random range''))
      else map_option (\<lambda>(j, r). (j, case r of Inl err \<Rightarrow> Inl err | Inr n \<Rightarrow> Inr (s64 (lo + sint n))))
             (cryptoUint src i (word_of_int (s64 (hi - lo)) + 1)))"

text \<open>Sequencing of readers: a run that ends with a value passes it on.\<close>

definition andThen :: "(nat \<times> (go_error + 'a)) option \<Rightarrow> (nat \<Rightarrow> 'a \<Rightarrow> (nat \<times> (go_error + 'b)) option) \<Rightarrow> (nat \<times> (go_error + 'b)) option" where
  "andThen x f = (case x of None \<Rightarrow> None | Some (i, Inl err) \<Rightarrow> Some (i, Inl err) | Some (i, Inr v) \<Rightarrow> f i v)"

section \<open>Weighted choice\<close>

definition eligible :: "provider_definition \<Rightarrow> bool" where
  "eligible d \<longleftrightarrow> pd_Enabled d \<and> pd_Weight d > 0"

definition total_weight :: "provider_definition list \<Rightarrow> int" where
  "total_weight ds = foldl (\<lambda>t d. s64 (t + pd_Weight d)) 0 ds"

fun pick_weighted :: "int \<Rightarrow> provider_definition list \<Rightarrow> go_error + provider_definition" where
  "pick_weighted n [] = Inl (ErrMsg ''provider selection failed'')"
| "pick_weighted n (d # ds) = (let m = s64 (n - pd_Weight d) in if m < 0 then Inr d else pick_weighted m ds)"

definition SelectWeighted :: "rand_src \<Rightarrow> nat \<Rightarrow> provider_definition list \<Rightarrow> (nat \<times> (go_error + provider_definition)) option" where
  "SelectWeighted src i definitions =
     (let enabled = filter eligible definitions; total = total_weight enabled in
      if total = 0 then Some (i, Inl (ErrMsg ''no enabled weighted proxy provider''))
      else andThen (cryptoInt src i 0 (s64 (total - 1))) (\<lambda>j n. Some (j, pick_weighted n enabled)))"

text \<open>
  \<open>uint64(weight * 1_000_000)\<close>: the product is rounded to 53 bits, ties to even, and then truncated. A product below 1
  truncates to 0 whatever its rounding, so the range of subnormal numbers needs no case of its own.
\<close>

function bit_length :: "int \<Rightarrow> nat" where
  "bit_length n = (if n \<le> 0 then 0 else Suc (bit_length (n div 2)))"
  by pat_completeness auto

termination by (relation "measure nat") auto

declare bit_length.simps [simp del]

definition round_even :: "nat \<Rightarrow> int \<Rightarrow> int" where
  "round_even k m =
     (let q = m div 2 ^ k; r = m mod 2 ^ k in
      if 2 * r > 2 ^ k \<or> (2 * r = 2 ^ k \<and> odd q) then q + 1 else q)"

definition scaled_weight :: "(float64 \<Rightarrow> u64) \<Rightarrow> float64 \<Rightarrow> u64" where
  "scaled_weight conv w =
     (let m = mantissa w * 1000000; k = bit_length m - 53; m' = round_even k m; x = exponent w + int k;
          v = (if 0 \<le> x then m' * 2 ^ nat x else m' div 2 ^ nat (- x)) in
      if v < 2 ^ 64 then word_of_int v else conv w)"

definition positive_weights :: "(string, float64) gomap \<Rightarrow> (string, float64) gomap" where
  "positive_weights weights = filter (\<lambda>(key, w). mantissa w > 0) weights"

fun pick_state :: "(string \<Rightarrow> u64) \<Rightarrow> u64 \<Rightarrow> string list \<Rightarrow> go_error + string" where
  "pick_state w n [] = Inl (ErrMsg ''state selection failed'')"
| "pick_state w n (key # keys) = (if n < w key then Inr (normalizeLocation key) else pick_state w (n - w key) keys)"

definition state_weight :: "(float64 \<Rightarrow> u64) \<Rightarrow> (string, float64) gomap \<Rightarrow> string \<Rightarrow> u64" where
  "state_weight conv weights key = (case gget weights key of None \<Rightarrow> 0 | Some w \<Rightarrow> scaled_weight conv w)"

definition weightedString :: "(float64 \<Rightarrow> u64) \<Rightarrow> rand_src \<Rightarrow> nat \<Rightarrow> (string, float64) gomap \<Rightarrow> (nat \<times> (go_error + string)) option" where
  "weightedString conv src i weights =
     (let keys = map fst (positive_weights weights);
          total = foldl (\<lambda>t (key, w). t + scaled_weight conv w) 0 (positive_weights weights) in
      if total = 0 then Some (i, Inl (ErrMsg ''state fallback weights are invalid''))
      else andThen (cryptoUint src i total) (\<lambda>j n. Some (j, pick_state (state_weight conv weights) n (sort keys))))"

section \<open>Sessions, templates and ports\<close>

definition hex_digit :: "nat \<Rightarrow> char" where
  "hex_digit d = (if d < 10 then digit_char d else char_of (87 + d))"

definition hex_bytes :: "byte list \<Rightarrow> string" where
  "hex_bytes bs = concat (map (\<lambda>b. [hex_digit (unat b div 16), hex_digit (unat b mod 16)]) bs)"

definition uuid_bytes :: "byte list \<Rightarrow> byte list" where
  "uuid_bytes b = b[6 := (b ! 6 AND 0x0f) OR 0x40, 8 := (b ! 8 AND 0x3f) OR 0x80]"

definition uuid_text :: "byte list \<Rightarrow> string" where
  "uuid_text b = hex_bytes (take 4 b) @ ''-'' @ hex_bytes (take 2 (drop 4 b)) @ ''-'' @ hex_bytes (take 2 (drop 6 b)) @ ''-''
     @ hex_bytes (take 2 (drop 8 b)) @ ''-'' @ hex_bytes (take 6 (drop 10 b))"

definition alphabet :: string where
  "alphabet = ''abcdefghijklmnopqrstuvwxyz0123456789''"

primrec alnum_loop :: "rand_src \<Rightarrow> nat \<Rightarrow> nat \<Rightarrow> (nat \<times> (go_error + string)) option" where
  "alnum_loop src 0 i = Some (i, Inr [])"
| "alnum_loop src (Suc len) i =
     andThen (cryptoInt src i 0 (int (length alphabet) - 1)) (\<lambda>j n.
     andThen (alnum_loop src len j) (\<lambda>k out. Some (k, Inr (alphabet ! nat n # out))))"

definition generateSession :: "rand_src \<Rightarrow> nat \<Rightarrow> session_rule \<Rightarrow> (nat \<times> (go_error + string)) option" where
  "generateSession src i rule =
     (if sr_Type rule = ''uuid''
      then Some (Suc i, case src i 16 of Inl err \<Rightarrow> Inl err | Inr b \<Rightarrow> Inr (uuid_text (uuid_bytes b)))
      else if sr_Type rule = ''int''
      then andThen (cryptoInt src i (sr_Min rule) (sr_Max rule)) (\<lambda>j n. Some (j, Inr (sprint_int n)))
      else if sr_Type rule = ''alnum'' then alnum_loop src (nat (sr_Length rule)) i
      else Some (i, Inl (ErrMsg ''unsupported session type'')))"

definition selectTemplate :: "value_rule \<Rightarrow> string \<Rightarrow> string \<Rightarrow> string \<Rightarrow> string" where
  "selectTemplate rule country state city =
     (if gget_str (vr_ByCountry rule) country \<noteq> [] then gget_str (vr_ByCountry rule) country
      else if city \<noteq> [] \<and> vr_WithCity rule \<noteq> [] then vr_WithCity rule
      else if state \<noteq> [] \<and> vr_WithState rule \<noteq> [] then vr_WithState rule
      else vr_Default rule)"

definition replace_vars :: "(string, string) gomap \<Rightarrow> string \<Rightarrow> string" where
  "replace_vars vars t = fold (\<lambda>key out. ReplaceAll (''{{'' @ key @ ''}}'') (gget_str vars key) out) (sort (map fst vars)) t"

definition render :: "string \<Rightarrow> (string, string) gomap \<Rightarrow> (string, string) gomap \<Rightarrow> go_error + string" where
  "render template vars secrets =
     (case replace_secrets secrets [] (replace_vars vars template) of (out, missing) \<Rightarrow>
      if missing \<noteq> [] then Inl (ErrMsg (''missing provider secret '' @ go_quote missing))
      else if find_any out \<noteq> [] then Inl (ErrMsg (''unresolved template expression '' @ go_quote (find_any out)))
      else Inr out)"

definition selectPort :: "rand_src \<Rightarrow> nat \<Rightarrow> port_rule \<Rightarrow> string \<Rightarrow> (nat \<times> (go_error + int)) option" where
  "selectPort src i rule country =
     (case gget (pr_ByCountry rule) country of
        None \<Rightarrow>
          Some (i, if pr_Default rule = 0
                   then Inl (ErrMsg (''provider does not support country '' @ go_quote country))
                   else Inr (pr_Default rule))
      | Some v \<Rightarrow> cryptoInt src i (pg_From v) (pg_To v))"

section \<open>Generate\<close>

definition request_country :: "provider_config \<Rightarrow> string \<Rightarrow> string" where
  "request_country c country =
     (let country = normalizeCountry country; alias = gget_str (cf_CountryAliases c) country in
      if alias \<noteq> [] then normalizeCountry alias else country)"

definition fallback_weights :: "provider_config \<Rightarrow> string \<Rightarrow> (string, float64) gomap" where
  "fallback_weights c country =
     (let w = (case gget (cf_StateFallbackByCountry c) country of None \<Rightarrow> [] | Some w \<Rightarrow> w) in
      if w = [] then cf_StateFallbackWeights c else w)"

definition template_vars :: "provider_config \<Rightarrow> string \<Rightarrow> string \<Rightarrow> string \<Rightarrow> string \<Rightarrow> (string, string) gomap" where
  "template_vars c country state city session =
     [(''country'', country), (''state'', state), (''city'', city), (''session'', session),
      (''duration'', sprint_int (cf_SessionMinutes c))]"

definition render_error :: "string \<Rightarrow> go_error + string \<Rightarrow> go_error + string" where
  "render_error what r = (case r of Inl err \<Rightarrow> Inl (ErrWrap (''render '' @ what) err) | Inr out \<Rightarrow> Inr out)"

definition render_endpoint ::
    "rand_src \<Rightarrow> nat \<Rightarrow> provider_definition \<Rightarrow> string \<Rightarrow> string \<Rightarrow> string \<Rightarrow> string \<Rightarrow> (nat \<times> (go_error + endpoint)) option" where
  "render_endpoint src i d country state city session =
     (let c = pd_Config d; vars = template_vars c country state city session;
          r = (\<lambda>what rule. render_error what (render (selectTemplate rule country state city) vars (pd_Secrets d))) in
      andThen (Some (i, r ''host'' (cf_Host c))) (\<lambda>i host.
      andThen (Some (i, r ''username'' (cf_Username c))) (\<lambda>i username.
      andThen (Some (i, r ''password'' (cf_Password c))) (\<lambda>i password.
      andThen (selectPort src i (cf_Port c) country) (\<lambda>i port.
      Some (i, Inr \<lparr>ep_ProviderID = pd_ID d, ep_Protocol = ''socks5'', ep_Host = host, ep_Port = port,
        ep_Username = username, ep_Password = password, ep_Country = country, ep_State = state, ep_City = city,
        ep_SessionID = session\<rparr>))))))"

definition Generate ::
    "(float64 \<Rightarrow> u64) \<Rightarrow> rand_src \<Rightarrow> nat \<Rightarrow> provider_definition \<Rightarrow> provider_request \<Rightarrow> (nat \<times> (go_error + endpoint)) option" where
  "Generate conv src i d req =
     (case Provider_Validate d of
        Some err \<Rightarrow> Some (i, Inl err)
      | None \<Rightarrow>
          let c = pd_Config d; country = request_country c (pq_Country req);
              state = normalizeLocation (pq_State req); city = normalizeLocation (pq_City req);
              weights = fallback_weights c country in
          if country = [] then Some (i, Inl (ErrMsg ''country is required''))
          else andThen (if state = [] \<and> weights \<noteq> [] then weightedString conv src i weights else Some (i, Inr state)) (\<lambda>i state.
               andThen (generateSession src i (cf_Session c)) (\<lambda>i session.
               render_endpoint src i d country state city session)))"

end
