(* ===== verification/PM_Postgres.thy ===== *)
theory PM_Postgres
  imports PM_Model PM_Cryptox PM_Provider "HOL-Library.Product_Lexorder" "HOL-Library.List_Lexorder" "HOL-Library.Char_ord"
begin

text \<open>
  The store of the control plane, \<open>internal/store/postgres.go\<close>, on the tables and constraints of the
  migrations under \<open>db/migrations\<close>. A table is a list of rows in insertion order, or a map where the
  program only reaches it by its primary key. An SQL statement is a function on the tables that
  fails as its constraints say, checks first, then unique indexes, then foreign keys; on top of that any
  statement may fail for reasons of its own (\<open>pe_io\<close>, by the number of the statement in the call).
  A transaction that does not reach its commit leaves the tables as they were; a commit that
  reports an error is taken not to have happened.
\<close>

section \<open>Tables\<close>

record device_row =
  dr_id :: string
  dr_username :: string
  dr_password_hash :: string
  dr_ingress_port :: "int option"
  dr_ingress_method :: string
  dr_ingress_password_cipher :: "byte list option"
  dr_enabled :: bool
  dr_created_at :: time
  dr_updated_at :: time

record ingress_row =
  ir_device_id :: string
  ir_port :: int
  ir_method :: string
  ir_password_cipher :: "byte list"
  ir_is_primary :: bool
  ir_created_at :: time

record credential_row =
  cr_id :: string
  cr_host :: string
  cr_port :: int
  cr_username :: string
  cr_password_cipher :: "byte list"
  cr_expires_at :: "time option"
  cr_created_at :: time
  cr_provider_id :: "string option"
  cr_generation_metadata :: "(string, string) gomap"

record route_row =
  rr_device_id :: string
  rr_credential_id :: string
  rr_version :: int
  rr_status :: string
  rr_updated_at :: time

record provider_row =
  pv_id :: string
  pv_enabled :: bool
  pv_weight :: int
  pv_config :: provider_config
  pv_secrets_cipher :: "byte list"

record db =
  db_devices :: "(string, device_row) gomap"
  db_ingresses :: "ingress_row list"
  db_credentials :: "(string, credential_row) gomap"
  db_routes :: "route_row list"
  db_providers :: "(string, provider_row) gomap"
  db_gateways :: "(string, gateway_info) gomap"
  db_deployments :: "(string \<times> int \<times> string \<times> string, bool \<times> string \<times> time) gomap"
  db_audit :: "(string \<times> string \<times> string \<times> (string \<times> json) list) list"

definition empty_db :: db where
  "empty_db = \<lparr>db_devices = [], db_ingresses = [], db_credentials = [], db_routes = [], db_providers = [],
     db_gateways = [], db_deployments = [], db_audit = []\<rparr>"

text \<open>Times are in nanoseconds; a \<open>timestamptz\<close> column keeps microseconds.\<close>

definition pg_time :: "time \<Rightarrow> time" where
  "pg_time t = t div 1000 * 1000"

section \<open>Errors and transactions\<close>

datatype pg_error = NoRows | UniqueViolation | PgFailure go_error

definition raw_error :: "pg_error \<Rightarrow> go_error" where
  "raw_error e = (case e of
     NoRows \<Rightarrow> ErrLib ''no rows in result set''
   | UniqueViolation \<Rightarrow> ErrLib ''duplicate key value violates unique constraint''
   | PgFailure err \<Rightarrow> err)"

definition mapErr :: "pg_error \<Rightarrow> go_error" where
  "mapErr e = (case e of NoRows \<Rightarrow> ErrNotFound | UniqueViolation \<Rightarrow> ErrConflict | PgFailure err \<Rightarrow> err)"

definition with_error :: "('e \<Rightarrow> 'f) \<Rightarrow> 'e + 'a \<Rightarrow> 'f + 'a" where
  "with_error f x = (case x of Inl err \<Rightarrow> Inl (f err) | Inr v \<Rightarrow> Inr v)"

record pg_env =
  pe_cipher :: aead
  pe_nonce :: "nat \<Rightarrow> go_error + byte list"
  pe_io :: "nat \<Rightarrow> go_error option"
  pe_now :: time
  pe_Marshal :: "(string, string) gomap \<Rightarrow> go_error + byte list"
  pe_Unmarshal :: "byte list \<Rightarrow> go_error + (string, string) gomap"

definition stmt :: "pg_env \<Rightarrow> nat \<Rightarrow> pg_error + 'a \<Rightarrow> pg_error + 'a" where
  "stmt e n result = (case pe_io e n of Some err \<Rightarrow> Inl (PgFailure err) | None \<Rightarrow> result)"

definition encrypt :: "pg_env \<Rightarrow> nat \<Rightarrow> string \<Rightarrow> go_error + byte list" where
  "encrypt e n plain = Cipher_Encrypt (pe_cipher e) (pe_nonce e n) (bytes_of plain)"

definition decrypt :: "pg_env \<Rightarrow> byte list \<Rightarrow> go_error + string" where
  "decrypt e value = (case Cipher_Decrypt (pe_cipher e) value of Inl err \<Rightarrow> Inl err | Inr p \<Rightarrow> Inr (string_of p))"

text \<open>\<open>Begin\<close> and \<open>Commit\<close>, and the deferred rollback.\<close>

definition begin_tx :: "pg_env \<Rightarrow> nat \<Rightarrow> db \<Rightarrow> go_error + db" where
  "begin_tx e n db = with_error raw_error (stmt e n (Inr db))"

definition commit_tx :: "pg_env \<Rightarrow> nat \<Rightarrow> db \<Rightarrow> go_error + db" where
  "commit_tx e n db = with_error raw_error (stmt e n (Inr db))"

definition transact :: "db \<Rightarrow> go_error + db \<Rightarrow> db \<times> go_error option" where
  "transact db result = (case result of Inl err \<Rightarrow> (db, Some err) | Inr db' \<Rightarrow> (db', None))"

section \<open>Devices\<close>

definition valid_port :: "int \<Rightarrow> bool" where
  "valid_port p \<longleftrightarrow> 1 \<le> p \<and> p \<le> 65535"

definition check_violation :: pg_error where
  "check_violation = PgFailure (ErrLib ''new row violates check constraint'')"

definition fk_violation :: pg_error where
  "fk_violation = PgFailure (ErrLib ''violates foreign key constraint'')"

definition insert_device :: "db \<Rightarrow> device_row \<Rightarrow> pg_error + db" where
  "insert_device db row =
     (if \<not> (case dr_ingress_port row of None \<Rightarrow> True | Some p \<Rightarrow> valid_port p) then Inl check_violation
      else if list_ex (\<lambda>(key, r). key = dr_id row \<or> dr_username r = dr_username row
                 \<or> (dr_ingress_port row \<noteq> None \<and> dr_ingress_port r = dr_ingress_port row)) (db_devices db)
      then Inl UniqueViolation
      else Inr (db\<lparr>db_devices := gput (dr_id row) row (db_devices db)\<rparr>))"

definition insert_ingress :: "db \<Rightarrow> ingress_row \<Rightarrow> pg_error + db" where
  "insert_ingress db row =
     (if \<not> valid_port (ir_port row) then Inl check_violation
      else if list_ex (\<lambda>r. ir_port r = ir_port row
                 \<or> (ir_is_primary row \<and> ir_is_primary r \<and> ir_device_id r = ir_device_id row)) (db_ingresses db)
      then Inl UniqueViolation
      else if gget (db_devices db) (ir_device_id row) = None then Inl fk_violation
      else Inr (db\<lparr>db_ingresses := db_ingresses db @ [row]\<rparr>))"

definition ingress_to_row :: "string \<Rightarrow> device_ingress \<Rightarrow> byte list \<Rightarrow> ingress_row" where
  "ingress_to_row did i enc = \<lparr>ir_device_id = did, ir_port = di_Port i, ir_method = di_Method i,
     ir_password_cipher = enc, ir_is_primary = di_Primary i, ir_created_at = pg_time (di_CreatedAt i)\<rparr>"

text \<open>The loop of \<open>CreateDevice\<close>; \<open>n\<close> numbers the statements and the encryptions.\<close>

fun insert_ingresses :: "pg_env \<Rightarrow> nat \<Rightarrow> string \<Rightarrow> device_ingress list \<Rightarrow> db \<Rightarrow> go_error + db" where
  "insert_ingresses e n did [] db = Inr db"
| "insert_ingresses e n did (i # is) db =
     attempt (encrypt e n (di_Password i)) (\<lambda>enc.
     attempt (with_error mapErr (stmt e n (insert_ingress db (ingress_to_row did i enc)))) (\<lambda>db'.
     insert_ingresses e (Suc n) did is db'))"

definition device_to_row :: "device \<Rightarrow> byte list option \<Rightarrow> device_row" where
  "device_to_row d enc = \<lparr>dr_id = d_ID d, dr_username = d_Username d, dr_password_hash = d_PasswordHash d,
     dr_ingress_port = (if d_IngressPort d \<noteq> 0 then Some (d_IngressPort d) else None),
     dr_ingress_method = d_IngressMethod d, dr_ingress_password_cipher = enc, dr_enabled = d_Enabled d,
     dr_created_at = pg_time (d_CreatedAt d), dr_updated_at = pg_time (d_UpdatedAt d)\<rparr>"

definition CreateDevice :: "pg_env \<Rightarrow> db \<Rightarrow> device \<Rightarrow> db \<times> go_error option" where
  "CreateDevice e db d = transact db (
     attempt (if d_IngressPassword d \<noteq> [] then attempt (encrypt e 0 (d_IngressPassword d)) (\<lambda>b. Inr (Some b))
              else Inr None) (\<lambda>enc.
     attempt (begin_tx e 0 db) (\<lambda>db0.
     attempt (with_error mapErr (stmt e 1 (insert_device db0 (device_to_row d enc)))) (\<lambda>db1.
     attempt (insert_ingresses e 2 (d_ID d) (Device_EffectiveIngresses d) db1) (\<lambda>db2.
     commit_tx e (2 + length (Device_EffectiveIngresses d)) db2)))))"

text \<open>\<open>ORDER BY is_primary DESC, created_at, port\<close>.\<close>

definition device_ingress_rows :: "db \<Rightarrow> string \<Rightarrow> ingress_row list" where
  "device_ingress_rows db did = filter (\<lambda>r. ir_device_id r = did) (db_ingresses db)"

definition ingress_order :: "ingress_row \<Rightarrow> bool \<times> time \<times> int" where
  "ingress_order r = (\<not> ir_is_primary r, ir_created_at r, ir_port r)"

fun scan_ingresses :: "pg_env \<Rightarrow> ingress_row list \<Rightarrow> go_error + device_ingress list" where
  "scan_ingresses e [] = Inr []"
| "scan_ingresses e (r # rs) =
     attempt (decrypt e (ir_password_cipher r)) (\<lambda>plain.
     attempt (scan_ingresses e rs) (\<lambda>out.
     Inr (\<lparr>di_Port = ir_port r, di_Method = ir_method r, di_Password = plain, di_Primary = ir_is_primary r,
           di_CreatedAt = ir_created_at r\<rparr> # out)))"

definition loadDeviceIngresses :: "pg_env \<Rightarrow> nat \<Rightarrow> db \<Rightarrow> string \<Rightarrow> go_error + device_ingress list" where
  "loadDeviceIngresses e n db did =
     attempt (with_error raw_error (stmt e n (Inr (sort_key ingress_order (device_ingress_rows db did)))))
       (scan_ingresses e)"

definition select_device :: "db \<Rightarrow> string \<Rightarrow> pg_error + device_row" where
  "select_device db did = (case gget (db_devices db) did of None \<Rightarrow> Inl NoRows | Some row \<Rightarrow> Inr row)"

definition row_to_device :: "device_row \<Rightarrow> string \<Rightarrow> device_ingress list \<Rightarrow> device" where
  "row_to_device row password ings = \<lparr>d_ID = dr_id row, d_Username = dr_username row,
     d_PasswordHash = dr_password_hash row,
     d_IngressPort = (case dr_ingress_port row of None \<Rightarrow> 0 | Some p \<Rightarrow> p),
     d_IngressMethod = dr_ingress_method row, d_IngressPassword = password, d_Ingresses = ings,
     d_Enabled = dr_enabled row, d_CreatedAt = dr_created_at row, d_UpdatedAt = dr_updated_at row\<rparr>"

definition decrypt_nullable :: "pg_env \<Rightarrow> byte list option \<Rightarrow> go_error + string" where
  "decrypt_nullable e enc = (case enc of None \<Rightarrow> Inr [] | Some b \<Rightarrow> if b = [] then Inr [] else decrypt e b)"

text \<open>Reading a device at statement number \<open>n\<close> of the call it is part of.\<close>

definition GetDevice_at :: "pg_env \<Rightarrow> nat \<Rightarrow> db \<Rightarrow> string \<Rightarrow> go_error + device" where
  "GetDevice_at e n db did =
     attempt (with_error mapErr (stmt e n (select_device db did))) (\<lambda>row.
     attempt (decrypt_nullable e (dr_ingress_password_cipher row)) (\<lambda>password.
     attempt (loadDeviceIngresses e (Suc n) db did) (\<lambda>ings.
     Inr (row_to_device row password ings))))"

definition GetDevice :: "pg_env \<Rightarrow> db \<Rightarrow> string \<Rightarrow> go_error + device" where
  "GetDevice e db did = GetDevice_at e 0 db did"

definition update_device :: "(device_row \<Rightarrow> device_row) \<Rightarrow> string \<Rightarrow> db \<Rightarrow> db" where
  "update_device f did db = db\<lparr>db_devices := map (\<lambda>(key, r). (key, if key = did then f r else r)) (db_devices db)\<rparr>"

definition update_ingresses :: "(ingress_row \<Rightarrow> bool) \<Rightarrow> (ingress_row \<Rightarrow> ingress_row) \<Rightarrow> db \<Rightarrow> db" where
  "update_ingresses p f db = db\<lparr>db_ingresses := map (\<lambda>r. if p r then f r else r) (db_ingresses db)\<rparr>"

definition UpdateDeviceCredential :: "pg_env \<Rightarrow> db \<Rightarrow> string \<Rightarrow> string \<Rightarrow> db \<times> (go_error + device)" where
  "UpdateDeviceCredential e db did password =
     (case transact db (
        attempt (encrypt e 0 password) (\<lambda>enc.
        attempt (begin_tx e 0 db) (\<lambda>db0.
        attempt (with_error mapErr (stmt e 1 (select_device db0 did))) (\<lambda>row.
        let db1 = update_device (\<lambda>r. r\<lparr>dr_ingress_password_cipher := Some enc, dr_updated_at := pe_now e\<rparr>) did db0 in
        attempt (with_error raw_error (stmt e 2 (Inr (update_ingresses (\<lambda>r. ir_device_id r = did \<and> ir_is_primary r)
                   (\<lambda>r. r\<lparr>ir_password_cipher := enc\<rparr>) db1)))) (\<lambda>db2.
        commit_tx e 3 db2))))) of
        (db', Some err) \<Rightarrow> (db', Inl err)
      | (db', None) \<Rightarrow>
          (db', attempt (with_error raw_error (select_device db' did)) (\<lambda>row.
                attempt (loadDeviceIngresses e 4 db' did) (\<lambda>ings. Inr (row_to_device row password ings)))))"

text \<open>Two statements without a transaction: a failure of the second leaves the new row behind.\<close>

definition AddDeviceIngress :: "pg_env \<Rightarrow> db \<Rightarrow> string \<Rightarrow> device_ingress \<Rightarrow> db \<times> (go_error + device)" where
  "AddDeviceIngress e db did i =
     (case encrypt e 0 (di_Password i) of
        Inl err \<Rightarrow> (db, Inl err)
      | Inr enc \<Rightarrow>
     (case with_error mapErr (stmt e 0 (insert_ingress db (ingress_to_row did (i\<lparr>di_Primary := False\<rparr>) enc))) of
        Inl err \<Rightarrow> (db, Inl err)
      | Inr db1 \<Rightarrow>
     (case with_error raw_error (stmt e 1 (Inr (update_device (\<lambda>r. r\<lparr>dr_updated_at := pe_now e\<rparr>) did db1))) of
        Inl err \<Rightarrow> (db1, Inl err)
      | Inr db2 \<Rightarrow> (db2, GetDevice_at e 2 db2 did))))"

text \<open>\<open>ORDER BY created_at, port LIMIT 1\<close>.\<close>

definition oldest_ingress :: "db \<Rightarrow> string \<Rightarrow> pg_error + ingress_row" where
  "oldest_ingress db did =
     (case sort_key (\<lambda>r. (ir_created_at r, ir_port r)) (device_ingress_rows db did) of
        [] \<Rightarrow> Inl NoRows | r # _ \<Rightarrow> Inr r)"

definition delete_ingress :: "db \<Rightarrow> string \<Rightarrow> int \<Rightarrow> pg_error + db \<times> bool" where
  "delete_ingress db did port =
     (case filter (\<lambda>r. ir_device_id r = did \<and> ir_port r = port) (db_ingresses db) of
        [] \<Rightarrow> Inl NoRows
      | r # _ \<Rightarrow> Inr (db\<lparr>db_ingresses := filter (\<lambda>r. \<not> (ir_device_id r = did \<and> ir_port r = port)) (db_ingresses db)\<rparr>,
                      ir_is_primary r))"

definition mark_primary :: "string \<Rightarrow> ingress_row \<Rightarrow> db \<Rightarrow> db" where
  "mark_primary did next = update_ingresses (\<lambda>r. ir_device_id r = did \<and> ir_port r = ir_port next) (\<lambda>r. r\<lparr>ir_is_primary := True\<rparr>)"

definition adopt_primary :: "pg_env \<Rightarrow> string \<Rightarrow> ingress_row \<Rightarrow> db \<Rightarrow> pg_error + db" where
  "adopt_primary e did next db =
     (if list_ex (\<lambda>(key, r). key \<noteq> did \<and> dr_ingress_port r = Some (ir_port next)) (db_devices db)
      then Inl UniqueViolation
      else Inr (update_device (\<lambda>r. r\<lparr>dr_ingress_port := Some (ir_port next), dr_ingress_method := ir_method next,
             dr_ingress_password_cipher := Some (ir_password_cipher next), dr_updated_at := pe_now e\<rparr>) did db))"

definition delete_body :: "pg_env \<Rightarrow> db \<Rightarrow> string \<Rightarrow> int \<Rightarrow> go_error + db" where
  "delete_body e db did port =
     attempt (begin_tx e 0 db) (\<lambda>db0.
     attempt (with_error mapErr (stmt e 1 (select_device db0 did))) (\<lambda>_.
     attempt (with_error mapErr (stmt e 2 (Inr (length (device_ingress_rows db0 did))))) (\<lambda>count.
     if count \<le> 1 then Inl ErrConflict else
     attempt (with_error mapErr (stmt e 3 (delete_ingress db0 did port))) (\<lambda>(db1, primary).
     attempt (if primary
              then attempt (with_error mapErr (stmt e 4 (oldest_ingress db1 did))) (\<lambda>next.
                   attempt (with_error raw_error (stmt e 5 (Inr (mark_primary did next db1)))) (\<lambda>db2.
                   with_error raw_error (stmt e 6 (adopt_primary e did next db2))))
              else with_error raw_error (stmt e 4 (Inr (update_device (\<lambda>r. r\<lparr>dr_updated_at := pe_now e\<rparr>) did db1))))
     (\<lambda>db3. commit_tx e 7 db3)))))"

definition DeleteDeviceIngress :: "pg_env \<Rightarrow> db \<Rightarrow> string \<Rightarrow> int \<Rightarrow> db \<times> (go_error + device)" where
  "DeleteDeviceIngress e db did port =
     (case transact db (delete_body e db did port) of
        (db', Some err) \<Rightarrow> (db', Inl err)
      | (db', None) \<Rightarrow> (db', GetDevice_at e 8 db' did))"

section \<open>Providers\<close>

text \<open>A \<open>Config\<close> is stored as a JSON value; the map of secrets is marshalled to bytes, which are encrypted.\<close>

definition put_provider :: "db \<Rightarrow> provider_row \<Rightarrow> pg_error + db" where
  "put_provider db row =
     (if \<not> (0 \<le> pv_weight row \<and> pv_weight row \<le> 10000) then Inl check_violation
      else Inr (db\<lparr>db_providers := gput (pv_id row) row (db_providers db)\<rparr>))"

definition UpsertProvider :: "pg_env \<Rightarrow> db \<Rightarrow> provider_definition \<Rightarrow> db \<times> go_error option" where
  "UpsertProvider e db d = transact db (
     attempt (pe_Marshal e (pd_Secrets d)) (\<lambda>secretJSON.
     attempt (Cipher_Encrypt (pe_cipher e) (pe_nonce e 0) secretJSON) (\<lambda>ciphertext.
     with_error raw_error (stmt e 0 (put_provider db
       \<lparr>pv_id = pd_ID d, pv_enabled = pd_Enabled d, pv_weight = pd_Weight d, pv_config = pd_Config d,
        pv_secrets_cipher = ciphertext\<rparr>)))))"

definition GetProvider_at :: "pg_env \<Rightarrow> nat \<Rightarrow> db \<Rightarrow> string \<Rightarrow> go_error + provider_definition" where
  "GetProvider_at e n db pid =
     attempt (with_error mapErr (stmt e n (case gget (db_providers db) pid of None \<Rightarrow> Inl NoRows | Some row \<Rightarrow> Inr row))) (\<lambda>row.
     attempt (Cipher_Decrypt (pe_cipher e) (pv_secrets_cipher row)) (\<lambda>plain.
     attempt (pe_Unmarshal e plain) (\<lambda>secrets.
     Inr \<lparr>pd_ID = pv_id row, pd_Enabled = pv_enabled row, pd_Weight = pv_weight row, pd_Config = pv_config row,
          pd_Secrets = secrets\<rparr>)))"

definition GetProvider :: "pg_env \<Rightarrow> db \<Rightarrow> string \<Rightarrow> go_error + provider_definition" where
  "GetProvider e db pid = GetProvider_at e 0 db pid"

fun load_providers :: "pg_env \<Rightarrow> nat \<Rightarrow> db \<Rightarrow> string list \<Rightarrow> go_error + provider_definition list" where
  "load_providers e n db [] = Inr []"
| "load_providers e n db (pid # pids) =
     attempt (GetProvider_at e n db pid) (\<lambda>d. attempt (load_providers e (Suc n) db pids) (\<lambda>out. Inr (d # out)))"

definition ListProviders :: "pg_env \<Rightarrow> db \<Rightarrow> go_error + provider_definition list" where
  "ListProviders e db =
     attempt (with_error raw_error (stmt e 0 (Inr (sort (map fst (db_providers db)))))) (load_providers e 1 db)"

section \<open>Routes\<close>

definition route_superseded :: string where "route_superseded = ''superseded''"

definition active_routes :: "db \<Rightarrow> string \<Rightarrow> route_row list" where
  "active_routes db did = filter (\<lambda>r. rr_device_id r = did \<and> rr_status r = RouteActive) (db_routes db)"

text \<open>\<open>COALESCE(MAX(version) FILTER (WHERE status='active'),0)\<close>.\<close>

definition active_version :: "db \<Rightarrow> string \<Rightarrow> int" where
  "active_version db did =
     (case map rr_version (active_routes db did) of [] \<Rightarrow> 0 | v # vs \<Rightarrow> fold max vs v)"

definition is_pending :: "string \<Rightarrow> route_row \<Rightarrow> bool" where
  "is_pending did r \<longleftrightarrow> rr_device_id r = did \<and> rr_status r = RoutePending"

definition delete_pending :: "db \<Rightarrow> string \<Rightarrow> db \<times> string list" where
  "delete_pending db did =
     (db\<lparr>db_routes := filter (\<lambda>r. \<not> is_pending did r) (db_routes db)\<rparr>,
      map rr_credential_id (filter (is_pending did) (db_routes db)))"

definition delete_credential :: "db \<Rightarrow> string \<Rightarrow> pg_error + db" where
  "delete_credential db cid =
     (if gget (db_credentials db) cid \<noteq> None \<and> list_ex (\<lambda>r. rr_credential_id r = cid) (db_routes db)
      then Inl fk_violation
      else Inr (db\<lparr>db_credentials := gdel cid (db_credentials db)\<rparr>))"

fun delete_credentials :: "pg_env \<Rightarrow> nat \<Rightarrow> string list \<Rightarrow> db \<Rightarrow> go_error + db" where
  "delete_credentials e n [] db = Inr db"
| "delete_credentials e n (cid # cids) db =
     attempt (with_error raw_error (stmt e n (delete_credential db cid))) (\<lambda>db'.
     delete_credentials e (Suc n) cids db')"

definition insert_credential :: "db \<Rightarrow> credential_row \<Rightarrow> pg_error + db" where
  "insert_credential db row =
     (if \<not> valid_port (cr_port row) then Inl check_violation
      else if gget (db_credentials db) (cr_id row) \<noteq> None then Inl UniqueViolation
      else if (case cr_provider_id row of None \<Rightarrow> False | Some p \<Rightarrow> gget (db_providers db) p = None) then Inl fk_violation
      else Inr (db\<lparr>db_credentials := gput (cr_id row) row (db_credentials db)\<rparr>))"

definition insert_route :: "db \<Rightarrow> route_row \<Rightarrow> pg_error + db" where
  "insert_route db row =
     (if list_ex (\<lambda>r. rr_device_id r = rr_device_id row \<and> rr_version r = rr_version row) (db_routes db)
      then Inl UniqueViolation
      else if gget (db_devices db) (rr_device_id row) = None \<or> gget (db_credentials db) (rr_credential_id row) = None
      then Inl fk_violation
      else Inr (db\<lparr>db_routes := db_routes db @ [row]\<rparr>))"

definition nullableString :: "string \<Rightarrow> string option" where
  "nullableString value = (if value = [] then None else Some value)"

definition credential_to_row :: "proxy_credential \<Rightarrow> byte list \<Rightarrow> credential_row" where
  "credential_to_row c enc = \<lparr>cr_id = pc_ID c, cr_host = pc_Host c, cr_port = pc_Port c, cr_username = pc_Username c,
     cr_password_cipher = enc, cr_expires_at = map_option pg_time (pc_ExpiresAt c), cr_created_at = pg_time (pc_CreatedAt c),
     cr_provider_id = nullableString (pc_ProviderID c), cr_generation_metadata = pc_GenerationMetadata c\<rparr>"

definition StageRoute :: "pg_env \<Rightarrow> db \<Rightarrow> device_route \<Rightarrow> int \<Rightarrow> db \<times> go_error option" where
  "StageRoute e db r expected = transact db (
     attempt (encrypt e 0 (pc_Password (r_Credential r))) (\<lambda>enc.
     attempt (begin_tx e 0 db) (\<lambda>db0.
     attempt (with_error mapErr (stmt e 1 (select_device db0 (r_DeviceID r)))) (\<lambda>_.
     attempt (with_error raw_error (stmt e 2 (Inr (active_version db0 (r_DeviceID r))))) (\<lambda>current.
     if current \<noteq> expected then Inl ErrConflict else
     attempt (with_error raw_error (stmt e 3 (Inr (delete_pending db0 (r_DeviceID r))))) (\<lambda>(db1, stale).
     attempt (delete_credentials e 4 stale db1) (\<lambda>db2.
     attempt (with_error raw_error (stmt e (4 + length stale)
               (insert_credential db2 (credential_to_row (r_Credential r) enc)))) (\<lambda>db3.
     attempt (with_error raw_error (stmt e (5 + length stale)
               (insert_route db3 \<lparr>rr_device_id = r_DeviceID r, rr_credential_id = pc_ID (r_Credential r),
                  rr_version = r_Version r, rr_status = RoutePending, rr_updated_at = pg_time (r_UpdatedAt r)\<rparr>))) (\<lambda>db4.
     commit_tx e (6 + length stale) db4)))))))))"

definition supersede :: "pg_env \<Rightarrow> string \<Rightarrow> db \<Rightarrow> db" where
  "supersede e did db = db\<lparr>db_routes := map (\<lambda>r. if rr_device_id r = did \<and> rr_status r = RouteActive
     then r\<lparr>rr_status := route_superseded, rr_updated_at := pe_now e\<rparr> else r) (db_routes db)\<rparr>"

definition activates :: "string \<Rightarrow> int \<Rightarrow> route_row \<Rightarrow> bool" where
  "activates did version r \<longleftrightarrow> rr_device_id r = did \<and> rr_version r = version \<and> rr_status r = RoutePending"

definition activate_pending :: "pg_env \<Rightarrow> string \<Rightarrow> int \<Rightarrow> db \<Rightarrow> db" where
  "activate_pending e did version db = db\<lparr>db_routes := map (\<lambda>r. if activates did version r
     then r\<lparr>rr_status := RouteActive, rr_updated_at := pe_now e\<rparr> else r) (db_routes db)\<rparr>"

definition ActivateRoute :: "pg_env \<Rightarrow> db \<Rightarrow> string \<Rightarrow> int \<Rightarrow> db \<times> go_error option" where
  "ActivateRoute e db did version = transact db (
     attempt (begin_tx e 0 db) (\<lambda>db0.
     attempt (with_error raw_error (stmt e 1 (Inr (supersede e did db0)))) (\<lambda>db1.
     attempt (with_error raw_error (stmt e 2 (Inr (activate_pending e did version db1)))) (\<lambda>db2.
     if length (filter (activates did version) (db_routes db1)) \<noteq> 1 then Inl ErrConflict
     else commit_tx e 3 db2))))"

text \<open>The join of a route row with its device and its credential, and the columns read from it.\<close>

definition join_route :: "db \<Rightarrow> route_row \<Rightarrow> (device_row \<times> credential_row \<times> route_row) option" where
  "join_route db r =
     (case (gget (db_devices db) (rr_device_id r), gget (db_credentials db) (rr_credential_id r)) of
        (Some d, Some c) \<Rightarrow> Some (d, c, r) | _ \<Rightarrow> None)"

definition joined_routes :: "db \<Rightarrow> (device_row \<times> credential_row \<times> route_row) list" where
  "joined_routes db = List.map_filter (join_route db) (filter (\<lambda>r. rr_status r = RouteActive) (db_routes db))"

definition row_to_route :: "device_row \<Rightarrow> credential_row \<Rightarrow> route_row \<Rightarrow> string \<Rightarrow> string \<Rightarrow> device_ingress list \<Rightarrow> device_route" where
  "row_to_route d c r password ingress_password ings =
     \<lparr>r_DeviceID = dr_id d, r_DeviceUsername = dr_username d, r_PasswordHash = dr_password_hash d,
      r_IngressPort = (case dr_ingress_port d of None \<Rightarrow> 0 | Some p \<Rightarrow> p), r_IngressMethod = dr_ingress_method d,
      r_IngressPassword = ingress_password, r_Ingresses = ings,
      r_Credential = \<lparr>pc_ID = cr_id c, pc_Host = cr_host c, pc_Port = cr_port c, pc_Username = cr_username c,
        pc_Password = password, pc_EncryptedPassword = [], pc_ExpiresAt = cr_expires_at c,
        pc_CreatedAt = cr_created_at c, pc_ProviderID = (case cr_provider_id c of None \<Rightarrow> [] | Some p \<Rightarrow> p),
        pc_GenerationMetadata = cr_generation_metadata c\<rparr>,
      r_Version = rr_version r, r_Status = rr_status r, r_UpdatedAt = rr_updated_at r\<rparr>"

definition scan_route :: "pg_env \<Rightarrow> nat \<Rightarrow> db \<Rightarrow> device_row \<times> credential_row \<times> route_row \<Rightarrow> go_error + device_route" where
  "scan_route e n db row =
     (case row of (d, c, r) \<Rightarrow>
        attempt (decrypt e (cr_password_cipher c)) (\<lambda>password.
        attempt (decrypt_nullable e (dr_ingress_password_cipher d)) (\<lambda>ingress_password.
        attempt (loadDeviceIngresses e n db (dr_id d)) (\<lambda>ings.
        Inr (row_to_route d c r password ingress_password ings)))))"

definition GetRoute :: "pg_env \<Rightarrow> db \<Rightarrow> string \<Rightarrow> go_error + device_route" where
  "GetRoute e db did =
     attempt (with_error mapErr (stmt e 0
       (case filter (\<lambda>(d, c, r). rr_device_id r = did) (joined_routes db) of [] \<Rightarrow> Inl NoRows | row # _ \<Rightarrow> Inr row)))
       (scan_route e 1 db)"

fun scan_routes :: "pg_env \<Rightarrow> nat \<Rightarrow> db \<Rightarrow> (device_row \<times> credential_row \<times> route_row) list \<Rightarrow> go_error + device_route list" where
  "scan_routes e n db [] = Inr []"
| "scan_routes e n db (row # rows) =
     attempt (scan_route e n db row) (\<lambda>r. attempt (scan_routes e (Suc n) db rows) (\<lambda>out. Inr (r # out)))"

definition ListActiveRoutes :: "pg_env \<Rightarrow> db \<Rightarrow> go_error + device_route list" where
  "ListActiveRoutes e db =
     attempt (with_error raw_error (stmt e 0 (Inr (sort_key (\<lambda>(d, c, r). dr_id d) (joined_routes db)))))
       (scan_routes e 1 db)"

section \<open>Gateways, deployments and audit\<close>

definition UpsertGateway :: "pg_env \<Rightarrow> db \<Rightarrow> gateway_info \<Rightarrow> db \<times> go_error option" where
  "UpsertGateway e db g = transact db (with_error raw_error (stmt e 0
     (Inr (db\<lparr>db_gateways := gput (gi_ID g) (g\<lparr>gi_LastHeartbeatAt := pg_time (gi_LastHeartbeatAt g)\<rparr>) (db_gateways db)\<rparr>))))"

definition heartbeat_limit :: int where
  "heartbeat_limit = 15 * 10 ^ 9"

definition ListGateways :: "pg_env \<Rightarrow> db \<Rightarrow> go_error + gateway_info list" where
  "ListGateways e db = with_error raw_error (stmt e 0 (Inr (map (\<lambda>g.
     if gi_LastHeartbeatAt g < pe_now e - heartbeat_limit then g\<lparr>gi_Status := GatewayOffline\<rparr> else g)
     (sort_key gi_ID (map snd (db_gateways db))))))"

definition AppendAudit ::
    "pg_env \<Rightarrow> db \<Rightarrow> string \<Rightarrow> string \<Rightarrow> string \<Rightarrow> (string \<times> json) list \<Rightarrow> db \<times> go_error option" where
  "AppendAudit e db actor action resource details = transact db (with_error raw_error (stmt e 0
     (Inr (db\<lparr>db_audit := db_audit db @ [(actor, action, resource, details)]\<rparr>))))"

definition RecordRouteDeployment ::
    "pg_env \<Rightarrow> db \<Rightarrow> string \<Rightarrow> int \<Rightarrow> string \<Rightarrow> string \<Rightarrow> bool \<Rightarrow> string \<Rightarrow> db \<times> go_error option" where
  "RecordRouteDeployment e db did version gid phase success message = transact db (with_error raw_error (stmt e 0
     (Inr (db\<lparr>db_deployments := gput (did, version, gid, phase) (success, message, pe_now e) (db_deployments db)\<rparr>))))"

end
