(* ===== verification/PM_Store.thy ===== *)
theory PM_Store
  imports PM_Postgres
begin

text \<open>
  What the store of \<open>PM_Postgres\<close> guarantees: the tables stay consistent under every operation and every
  failure, staging is a compare-and-set on the active version, activation replaces the active
  route by the staged one, and what was stored under encryption is read back.
\<close>

section \<open>Results of statements\<close>

lemma with_error_Inr [simp]: "with_error g x = Inr v \<longleftrightarrow> x = Inr v"
  by (auto simp: with_error_def split: sum.splits)

lemma stmt_Inr [simp]: "stmt e n r = Inr v \<longleftrightarrow> pe_io e n = None \<and> r = Inr v"
  by (auto simp: stmt_def split: option.splits)

lemma tx_Inr [simp]:
  "begin_tx e n db = Inr v \<longleftrightarrow> pe_io e n = None \<and> v = db" "commit_tx e n db = Inr v \<longleftrightarrow> pe_io e n = None \<and> v = db"
  by (auto simp: begin_tx_def commit_tx_def)

lemma transact_simps [simp]:
  "transact db x = (db', None) \<longleftrightarrow> x = Inr db'" "transact db x = (db', Some err) \<longleftrightarrow> x = Inl err \<and> db' = db"
  by (auto simp: transact_def split: sum.splits)

lemma transact_keeps:
  "P db \<Longrightarrow> (\<And>db'. x = Inr db' \<Longrightarrow> P db') \<Longrightarrow> P (fst (transact db x))"
  by (auto simp: transact_def split: sum.splits)

lemma gput_new: "k \<notin> fst ` set m \<Longrightarrow> gput k v m = m @ [(k, v)]"
  by (induction m) auto

section \<open>Consistent tables\<close>

definition devices_ok :: "db \<Rightarrow> bool" where
  "devices_ok db \<longleftrightarrow> gwf (db_devices db)
     \<and> (\<forall>k r. gget (db_devices db) k = Some r \<longrightarrow> dr_id r = k)
     \<and> (\<forall>k1 k2 r1 r2. gget (db_devices db) k1 = Some r1 \<and> gget (db_devices db) k2 = Some r2
          \<and> (dr_username r1 = dr_username r2 \<or> (dr_ingress_port r1 \<noteq> None \<and> dr_ingress_port r1 = dr_ingress_port r2))
          \<longrightarrow> k1 = k2)"

definition one_primary :: "ingress_row list \<Rightarrow> bool" where
  "one_primary is \<longleftrightarrow> (\<forall>r1 \<in> set is. \<forall>r2 \<in> set is.
     ir_is_primary r1 \<and> ir_is_primary r2 \<and> ir_device_id r1 = ir_device_id r2 \<longrightarrow> ir_port r1 = ir_port r2)"

lemma one_primaryI:
  "(\<And>r1 r2. r1 \<in> set is \<Longrightarrow> r2 \<in> set is \<Longrightarrow> ir_is_primary r1 \<Longrightarrow> ir_is_primary r2 \<Longrightarrow>
     ir_device_id r1 = ir_device_id r2 \<Longrightarrow> ir_port r1 = ir_port r2) \<Longrightarrow> one_primary is"
  unfolding one_primary_def by blast

lemma one_primaryD:
  "one_primary is \<Longrightarrow> r1 \<in> set is \<Longrightarrow> r2 \<in> set is \<Longrightarrow> ir_is_primary r1 \<Longrightarrow> ir_is_primary r2 \<Longrightarrow>
     ir_device_id r1 = ir_device_id r2 \<Longrightarrow> ir_port r1 = ir_port r2"
  unfolding one_primary_def by blast

definition ingresses_ok :: "db \<Rightarrow> bool" where
  "ingresses_ok db \<longleftrightarrow> distinct (map ir_port (db_ingresses db))
     \<and> (\<forall>r \<in> set (db_ingresses db). valid_port (ir_port r) \<and> gget (db_devices db) (ir_device_id r) \<noteq> None)
     \<and> one_primary (db_ingresses db)"

definition routes_ok :: "db \<Rightarrow> bool" where
  "routes_ok db \<longleftrightarrow> distinct (map (\<lambda>r. (rr_device_id r, rr_version r)) (db_routes db))
     \<and> distinct (map rr_credential_id (db_routes db))
     \<and> (\<forall>r \<in> set (db_routes db). gget (db_devices db) (rr_device_id r) \<noteq> None
          \<and> gget (db_credentials db) (rr_credential_id r) \<noteq> None
          \<and> rr_status r \<in> {RoutePending, RouteActive, route_superseded})
     \<and> (\<forall>did. length (active_routes db did) \<le> 1)
     \<and> gwf (db_credentials db) \<and> (\<forall>k c. gget (db_credentials db) k = Some c \<longrightarrow> cr_id c = k)"

definition db_ok :: "db \<Rightarrow> bool" where
  "db_ok db \<longleftrightarrow> devices_ok db \<and> ingresses_ok db \<and> routes_ok db"

lemma route_status_distinct:
  "RoutePending \<noteq> RouteActive" "RouteActive \<noteq> route_superseded" "RoutePending \<noteq> route_superseded"
  "RouteActive \<noteq> RoutePending" "route_superseded \<noteq> RouteActive" "route_superseded \<noteq> RoutePending"
  by (simp_all add: status_defs route_superseded_def)

definition rows_clash :: "device_row \<Rightarrow> device_row \<Rightarrow> bool" where
  "rows_clash r1 r2 \<longleftrightarrow> dr_username r1 = dr_username r2
     \<or> (dr_ingress_port r1 \<noteq> None \<and> dr_ingress_port r1 = dr_ingress_port r2)"

lemma rows_clash_sym: "rows_clash r1 r2 = rows_clash r2 r1"
  unfolding rows_clash_def by metis

lemma devices_okI:
  assumes "gwf (db_devices db)" and "\<And>k r. gget (db_devices db) k = Some r \<Longrightarrow> dr_id r = k"
    and "\<And>k1 k2 r1 r2. gget (db_devices db) k1 = Some r1 \<Longrightarrow> gget (db_devices db) k2 = Some r2 \<Longrightarrow> rows_clash r1 r2 \<Longrightarrow> k1 = k2"
  shows "devices_ok db"
  using assms by (auto simp: devices_ok_def rows_clash_def)

lemma devices_okD:
  assumes "db_ok db"
  shows "gwf (db_devices db)" "gget (db_devices db) k = Some r \<Longrightarrow> dr_id r = k"
    "gget (db_devices db) k1 = Some r1 \<Longrightarrow> gget (db_devices db) k2 = Some r2 \<Longrightarrow> rows_clash r1 r2 \<Longrightarrow> k1 = k2"
  using assms by (auto simp: db_ok_def devices_ok_def rows_clash_def)

text \<open>Which tables a step reads decides what it can break.\<close>

lemma ok_cong:
  "db_devices db' = db_devices db \<Longrightarrow> devices_ok db' = devices_ok db"
  "db_devices db' = db_devices db \<Longrightarrow> db_ingresses db' = db_ingresses db \<Longrightarrow> ingresses_ok db' = ingresses_ok db"
  "db_devices db' = db_devices db \<Longrightarrow> db_routes db' = db_routes db \<Longrightarrow> db_credentials db' = db_credentials db \<Longrightarrow>
     routes_ok db' = routes_ok db"
  by (simp_all add: devices_ok_def ingresses_ok_def routes_ok_def active_routes_def)

text \<open>Adding devices never orphans a row.\<close>

lemma devices_grow:
  assumes "\<And>did. gget (db_devices db) did \<noteq> None \<Longrightarrow> gget (db_devices db') did \<noteq> None"
    and "db_ingresses db' = db_ingresses db" and "db_routes db' = db_routes db" and "db_credentials db' = db_credentials db"
  shows "ingresses_ok db \<Longrightarrow> ingresses_ok db'" and "routes_ok db \<Longrightarrow> routes_ok db'"
  using assms by (auto simp: ingresses_ok_def routes_ok_def active_routes_def)

subsection \<open>Devices and ingresses\<close>

lemma list_ex_gget:
  "gwf m \<Longrightarrow> list_ex (\<lambda>(k, r). P k r) m \<longleftrightarrow> (\<exists>k r. gget m k = Some r \<and> P k r)"
  by (auto simp: list_ex_iff gget_iff_mem)

lemma insert_device_ok:
  assumes "db_ok db" and "insert_device db row = Inr db'"
  shows "db_ok db'"
proof -
  have wf: "gwf (db_devices db)" using assms(1) by (simp add: db_ok_def devices_ok_def)
  have db': "db' = db\<lparr>db_devices := gput (dr_id row) row (db_devices db)\<rparr>"
    and no: "\<not> (\<exists>k r. gget (db_devices db) k = Some r \<and> (k = dr_id row \<or> dr_username r = dr_username row
      \<or> (dr_ingress_port row \<noteq> None \<and> dr_ingress_port r = dr_ingress_port row)))"
    using assms(2) unfolding insert_device_def list_ex_gget [OF wf] by (auto split: if_splits)
  have free: "k \<noteq> dr_id row \<and> \<not> rows_clash row r" if "gget (db_devices db) k = Some r" for k r
    using no that unfolding rows_clash_def by metis
  have "devices_ok db'"
  proof (rule devices_okI)
    fix k1 k2 r1 r2
    assume "gget (db_devices db') k1 = Some r1" "gget (db_devices db') k2 = Some r2" "rows_clash r1 r2"
    then show "k1 = k2" using devices_okD(3) [OF assms(1), of k1 r1 k2 r2] free rows_clash_sym [of r1 r2]
      by (cases "k1 = dr_id row"; cases "k2 = dr_id row") (auto simp: db')
  qed (use wf devices_okD(2) [OF assms(1)] in \<open>auto simp: db' split: if_splits\<close>)
  then show ?thesis using assms(1) devices_grow [of db db'] by (auto simp: db_ok_def db')
qed

lemma insert_ingress_ok:
  assumes "db_ok db" and "insert_ingress db row = Inr db'"
  shows "db_ok db'"
proof -
  have db': "db' = db\<lparr>db_ingresses := db_ingresses db @ [row]\<rparr>" and v: "valid_port (ir_port row)"
    and dev: "gget (db_devices db) (ir_device_id row) \<noteq> None"
    and free: "\<forall>r \<in> set (db_ingresses db). ir_port r \<noteq> ir_port row
      \<and> \<not> (ir_is_primary row \<and> ir_is_primary r \<and> ir_device_id r = ir_device_id row)"
    using assms(2) by (auto simp: insert_ingress_def list_ex_iff split: if_splits)
  have one: "one_primary (db_ingresses db)" using assms(1) by (simp add: db_ok_def ingresses_ok_def)
  have "one_primary (db_ingresses db @ [row])"
  proof (rule one_primaryI)
    fix r1 r2 assume "r1 \<in> set (db_ingresses db @ [row])" "r2 \<in> set (db_ingresses db @ [row])"
      "ir_is_primary r1" "ir_is_primary r2" "ir_device_id r1 = ir_device_id r2"
    then show "ir_port r1 = ir_port r2" using free one_primaryD [OF one, of r1 r2] by auto
  qed
  then have "ingresses_ok db'" using assms(1) v dev free unfolding db' db_ok_def ingresses_ok_def by auto
  then show ?thesis using assms(1) by (simp add: db_ok_def db' devices_ok_def routes_ok_def active_routes_def)
qed

lemma insert_ingresses_ok:
  "db_ok db \<Longrightarrow> insert_ingresses e n did is db = Inr db' \<Longrightarrow> db_ok db'"
  by (induction "is" arbitrary: db n) (auto dest: insert_ingress_ok)

lemma CreateDevice_success:
  assumes "CreateDevice e db d = (db', None)"
  obtains enc db1 where "if d_IngressPassword d = [] then enc = None else \<exists>b. enc = Some b \<and> encrypt e 0 (d_IngressPassword d) = Inr b"
    "insert_device db (device_to_row d enc) = Inr db1"
    "insert_ingresses e 2 (d_ID d) (Device_EffectiveIngresses d) db1 = Inr db'"
  using assms unfolding CreateDevice_def by (auto split: if_splits)

lemma CreateDevice_failure: "CreateDevice e db d = (db', Some err) \<Longrightarrow> db' = db"
  by (simp add: CreateDevice_def)

text \<open>An operation that keeps the tables on failure keeps whatever its successful runs keep.\<close>

lemma keeps_on_success:
  assumes "\<And>db' err. op = (db', Some err) \<Longrightarrow> db' = db" and "P db" and "\<And>db'. op = (db', None) \<Longrightarrow> P db'"
  shows "P (fst op)"
proof (cases op)
  case (Pair db' err)
  then show ?thesis using assms by (cases err) auto
qed

lemma CreateDevice_ok: "db_ok db \<Longrightarrow> db_ok (fst (CreateDevice e db d))"
  by (rule keeps_on_success [where P = db_ok, OF CreateDevice_failure])
    (auto elim!: CreateDevice_success dest: insert_device_ok insert_ingresses_ok)

text \<open>Updates in place.\<close>

lemma gget_update_device:
  "gget (db_devices (update_device f did db)) k = map_option (if k = did then f else (\<lambda>r. r)) (gget (db_devices db) k)"
proof -
  have "gget (map (\<lambda>(key, r). (key, if key = did then f r else r)) m) k
      = map_option (if k = did then f else (\<lambda>r. r)) (gget m k)" for m
    by (induction m) auto
  then show ?thesis by (simp add: update_device_def)
qed

lemma update_device_keeps [simp]:
  "db_ingresses (update_device f did db) = db_ingresses db" "db_routes (update_device f did db) = db_routes db"
  "db_credentials (update_device f did db) = db_credentials db"
  by (simp_all add: update_device_def)

lemma gwf_update_device: "gwf (db_devices (update_device f did db)) = gwf (db_devices db)"
proof -
  have "map fst (map (\<lambda>(key, r). (key, if key = did then f r else r)) m) = map fst m" for m :: "(string \<times> device_row) list"
    by (induction m) auto
  then show ?thesis by (simp add: update_device_def gwf_def del: map_map)
qed

lemma update_device_ok:
  assumes "db_ok db"
    and "\<And>r. gget (db_devices db) did = Some r \<Longrightarrow> dr_id (f r) = dr_id r \<and> dr_username (f r) = dr_username r
       \<and> (dr_ingress_port (f r) = dr_ingress_port r \<or>
          (\<forall>k r'. gget (db_devices db) k = Some r' \<longrightarrow> k \<noteq> did \<longrightarrow> dr_ingress_port r' \<noteq> dr_ingress_port (f r)))"
  shows "db_ok (update_device f did db)"
proof -
  have clash: "rows_clash (f r) r' \<Longrightarrow> rows_clash r r'"
    if "gget (db_devices db) did = Some r" "gget (db_devices db) k = Some r'" "k \<noteq> did" for r r' k
    using assms(2) [OF that(1)] that unfolding rows_clash_def by metis
  have "devices_ok (update_device f did db)"
  proof (rule devices_okI)
    show "gwf (db_devices (update_device f did db))" using devices_okD(1) [OF assms(1)] by (simp add: gwf_update_device)
    show "dr_id r = k" if "gget (db_devices (update_device f did db)) k = Some r" for k r
      using that devices_okD(2) [OF assms(1)] assms(2) by (auto simp: gget_update_device split: if_splits)
    fix k1 k2 r1 r2
    assume a: "gget (db_devices (update_device f did db)) k1 = Some r1" "gget (db_devices (update_device f did db)) k2 = Some r2"
      and c: "rows_clash r1 r2"
    obtain o1 where o1: "gget (db_devices db) k1 = Some o1" "r1 = (if k1 = did then f o1 else o1)"
      using a(1) by (auto simp: gget_update_device split: if_splits)
    obtain o2 where o2: "gget (db_devices db) k2 = Some o2" "r2 = (if k2 = did then f o2 else o2)"
      using a(2) by (auto simp: gget_update_device split: if_splits)
    show "k1 = k2"
    proof (rule ccontr)
      assume ne: "k1 \<noteq> k2"
      then have "rows_clash o1 o2"
        using c o1 o2 clash [of o1 k2 o2] clash [of o2 k1 o1] rows_clash_sym by (auto split: if_splits)
      then show False using devices_okD(3) [OF assms(1) o1(1) o2(1)] ne by simp
    qed
  qed
  moreover have "ingresses_ok (update_device f did db)" "routes_ok (update_device f did db)"
    using assms(1) devices_grow [of db "update_device f did db"] gget_update_device [of f did db]
    by (auto simp: db_ok_def)
  ultimately show ?thesis by (simp add: db_ok_def)
qed

lemma touch_device_ok: "db_ok db \<Longrightarrow> db_ok (update_device (\<lambda>r. r\<lparr>dr_updated_at := t\<rparr>) did db)"
  by (rule update_device_ok) simp_all

lemma change_ingresses_ok:
  assumes "db_ok db" and "ingresses_ok (db\<lparr>db_ingresses := is\<rparr>)"
  shows "db_ok (db\<lparr>db_ingresses := is\<rparr>)"
  using assms by (simp add: db_ok_def devices_ok_def routes_ok_def active_routes_def)

lemma map_ingresses_ok:
  assumes ok: "db_ok db" and keep: "\<And>r. ir_port (f r) = ir_port r \<and> ir_device_id (f r) = ir_device_id r"
    and prim: "\<And>r1 r2. r1 \<in> set (db_ingresses db) \<Longrightarrow> r2 \<in> set (db_ingresses db) \<Longrightarrow> ir_is_primary (f r1) \<Longrightarrow>
       ir_is_primary (f r2) \<Longrightarrow> ir_device_id r1 = ir_device_id r2 \<Longrightarrow> ir_port r1 = ir_port r2"
  shows "db_ok (db\<lparr>db_ingresses := map f (db_ingresses db)\<rparr>)"
proof (rule change_ingresses_ok [OF ok])
  have "ir_port \<circ> f = ir_port" by (simp add: fun_eq_iff keep)
  moreover have "one_primary (map f (db_ingresses db))"
  proof (rule one_primaryI)
    fix x y assume "x \<in> set (map f (db_ingresses db))" "y \<in> set (map f (db_ingresses db))"
      and p: "ir_is_primary x" "ir_is_primary y" "ir_device_id x = ir_device_id y"
    then obtain r1 r2 where "r1 \<in> set (db_ingresses db)" "r2 \<in> set (db_ingresses db)" "x = f r1" "y = f r2" by auto
    then show "ir_port x = ir_port y" using prim [of r1 r2] p keep [of r1] keep [of r2] by simp
  qed
  ultimately show "ingresses_ok (db\<lparr>db_ingresses := map f (db_ingresses db)\<rparr>)"
    using ok keep by (auto simp: db_ok_def ingresses_ok_def)
qed

lemma primary_port:
  assumes "db_ok db" and "r1 \<in> set (db_ingresses db)" and "r2 \<in> set (db_ingresses db)" and "ir_is_primary r1"
    and "ir_is_primary r2" and "ir_device_id r1 = ir_device_id r2"
  shows "ir_port r1 = ir_port r2"
  using assms one_primaryD unfolding db_ok_def ingresses_ok_def by blast

lemma set_cipher_ok: "db_ok db \<Longrightarrow> db_ok (update_ingresses p (\<lambda>r. r\<lparr>ir_password_cipher := c\<rparr>) db)"
  unfolding update_ingresses_def
proof (rule map_ingresses_ok)
  fix r1 r2
  let ?f = "\<lambda>r. if p r then r\<lparr>ir_password_cipher := c\<rparr> else r"
  assume "db_ok db" "r1 \<in> set (db_ingresses db)" "r2 \<in> set (db_ingresses db)" "ir_is_primary (?f r1)" "ir_is_primary (?f r2)"
    "ir_device_id r1 = ir_device_id r2"
  then show "ir_port r1 = ir_port r2" by (intro primary_port [of db r1 r2]) (auto split: if_splits)
qed simp_all

definition rotate_tables :: "pg_env \<Rightarrow> string \<Rightarrow> byte list \<Rightarrow> db \<Rightarrow> db" where
  "rotate_tables e did enc db = update_ingresses (\<lambda>r. ir_device_id r = did \<and> ir_is_primary r) (\<lambda>r. r\<lparr>ir_password_cipher := enc\<rparr>)
     (update_device (\<lambda>r. r\<lparr>dr_ingress_password_cipher := Some enc, dr_updated_at := pe_now e\<rparr>) did db)"

lemma fst_UpdateDeviceCredential:
  "fst (UpdateDeviceCredential e db did pw) = db
   \<or> (\<exists>enc. encrypt e 0 pw = Inr enc \<and> fst (UpdateDeviceCredential e db did pw) = rotate_tables e did enc db)"
  unfolding UpdateDeviceCredential_def rotate_tables_def
  by (auto simp: Let_def transact_def split: prod.splits option.splits sum.splits)

lemma UpdateDeviceCredential_ok: "db_ok db \<Longrightarrow> db_ok (fst (UpdateDeviceCredential e db did pw))"
  using fst_UpdateDeviceCredential [of e db did pw]
  by (auto simp: rotate_tables_def intro!: set_cipher_ok update_device_ok)

lemma AddDeviceIngress_ok: "db_ok db \<Longrightarrow> db_ok (fst (AddDeviceIngress e db did i))"
  unfolding AddDeviceIngress_def
  using insert_ingress_ok [of db] touch_device_ok by (auto split: sum.splits)

lemma delete_ingress_ok:
  assumes "db_ok db" and "delete_ingress db did port = Inr (db', b)"
  shows "db_ok db'"
proof -
  have db': "db' = db\<lparr>db_ingresses := filter (\<lambda>r. \<not> (ir_device_id r = did \<and> ir_port r = port)) (db_ingresses db)\<rparr>"
    using assms(2) by (simp add: delete_ingress_def split: list.splits)
  show ?thesis unfolding db'
    by (rule change_ingresses_ok [OF assms(1)])
      (use assms(1) in \<open>auto simp: db_ok_def ingresses_ok_def one_primary_def intro: distinct_map_filter\<close>)
qed

text \<open>After the primary is gone, marking the oldest remaining ingress restores exactly one.\<close>

definition no_primary :: "db \<Rightarrow> string \<Rightarrow> bool" where
  "no_primary db did \<longleftrightarrow> (\<forall>r \<in> set (db_ingresses db). ir_device_id r = did \<longrightarrow> \<not> ir_is_primary r)"

lemma delete_primary:
  assumes "db_ok db" and "delete_ingress db did port = Inr (db', True)"
  shows "no_primary db' did"
proof -
  obtain r rs where f: "filter (\<lambda>r. ir_device_id r = did \<and> ir_port r = port) (db_ingresses db) = r # rs" "ir_is_primary r"
    and db': "db' = db\<lparr>db_ingresses := filter (\<lambda>r. \<not> (ir_device_id r = did \<and> ir_port r = port)) (db_ingresses db)\<rparr>"
    using assms(2) by (auto simp: delete_ingress_def split: list.splits)
  have "r \<in> set (filter (\<lambda>r. ir_device_id r = did \<and> ir_port r = port) (db_ingresses db))" unfolding f(1) by simp
  then have r: "r \<in> set (db_ingresses db)" "ir_device_id r = did" "ir_port r = port" by auto
  show ?thesis unfolding no_primary_def
  proof (intro ballI impI notI)
    fix x assume x: "x \<in> set (db_ingresses db')" "ir_device_id x = did" "ir_is_primary x"
    then have "x \<in> set (db_ingresses db)" "\<not> (ir_device_id x = did \<and> ir_port x = port)" by (simp_all add: db')
    moreover from this have "ir_port x = ir_port r" using primary_port [OF assms(1), of x r] x r f(2) by simp
    ultimately show False using x r by simp
  qed
qed

lemma mark_primary_ok:
  assumes "db_ok db" and "no_primary db did"
  shows "db_ok (mark_primary did next db)"
  unfolding mark_primary_def update_ingresses_def
proof (rule map_ingresses_ok [OF assms(1)])
  fix r1 r2
  let ?f = "\<lambda>r. if ir_device_id r = did \<and> ir_port r = ir_port next then r\<lparr>ir_is_primary := True\<rparr> else r"
  assume r: "r1 \<in> set (db_ingresses db)" "r2 \<in> set (db_ingresses db)" "ir_is_primary (?f r1)" "ir_is_primary (?f r2)"
    "ir_device_id r1 = ir_device_id r2"
  show "ir_port r1 = ir_port r2"
  proof (cases "ir_device_id r1 = did")
    case True
    then have "ir_port r1 = ir_port next" "ir_port r2 = ir_port next"
      using r assms(2) by (auto simp: no_primary_def split: if_splits)
    then show ?thesis by simp
  next
    case False
    then show ?thesis using r by (intro primary_port [OF assms(1), of r1 r2]) auto
  qed
qed simp_all

lemma adopt_primary_ok:
  assumes "db_ok db" and "adopt_primary e did next db = Inr db'"
  shows "db_ok db'"
proof -
  have free: "\<not> (\<exists>k r. gget (db_devices db) k = Some r \<and> k \<noteq> did \<and> dr_ingress_port r = Some (ir_port next))"
    using assms(2) unfolding adopt_primary_def list_ex_gget [OF devices_okD(1) [OF assms(1)]] by (auto split: if_splits)
  have "db' = update_device (\<lambda>r. r\<lparr>dr_ingress_port := Some (ir_port next), dr_ingress_method := ir_method next,
             dr_ingress_password_cipher := Some (ir_password_cipher next), dr_updated_at := pe_now e\<rparr>) did db"
    using assms(2) by (simp add: adopt_primary_def split: if_splits)
  moreover have "db_ok (update_device (\<lambda>r. r\<lparr>dr_ingress_port := Some (ir_port next), dr_ingress_method := ir_method next,
             dr_ingress_password_cipher := Some (ir_password_cipher next), dr_updated_at := pe_now e\<rparr>) did db)"
    by (rule update_device_ok [OF assms(1)]) (use free in auto)
  ultimately show ?thesis by simp
qed

lemma delete_ingress_tables:
  assumes "delete_ingress db did port = Inr (db', b)"
  shows "db_devices db' = db_devices db" "db_routes db' = db_routes db" "db_credentials db' = db_credentials db"
  using assms by (auto simp: delete_ingress_def split: list.splits)

lemma fst_DeleteDeviceIngress: "fst (DeleteDeviceIngress e db did port) = fst (transact db (delete_body e db did port))"
  by (simp add: DeleteDeviceIngress_def split: prod.splits option.splits)

text \<open>The two ways through a deletion: of the primary ingress, and of another one.\<close>

lemma delete_bodyE:
  assumes "delete_body e db did port = Inr db'"
  obtains (primary) db1 nx where "delete_ingress db did port = Inr (db1, True)" "oldest_ingress db1 did = Inr nx"
      "adopt_primary e did nx (mark_primary did nx db1) = Inr db'" "1 < length (device_ingress_rows db did)"
      "gget (db_devices db) did \<noteq> None"
  | (other) db1 where "delete_ingress db did port = Inr (db1, False)" "1 < length (device_ingress_rows db did)"
      "db' = update_device (\<lambda>r. r\<lparr>dr_updated_at := pe_now e\<rparr>) did db1" "gget (db_devices db) did \<noteq> None"
  using assms by (auto simp: delete_body_def select_device_def split: if_splits prod.splits option.splits)

lemma DeleteDeviceIngress_ok: "db_ok db \<Longrightarrow> db_ok (fst (DeleteDeviceIngress e db did port))"
  unfolding fst_DeleteDeviceIngress
proof (rule transact_keeps [where P = db_ok])
  fix db' assume ok: "db_ok db" and "delete_body e db did port = Inr db'"
  from this(2) show "db_ok db'"
  proof (cases rule: delete_bodyE)
    case (primary db1 nx)
    then have "db_ok (mark_primary did nx db1)"
      using mark_primary_ok delete_ingress_ok [OF ok] delete_primary [OF ok] by blast
    then show ?thesis using primary adopt_primary_ok by blast
  next
    case (other db1)
    then show ?thesis using delete_ingress_ok [OF ok] touch_device_ok by blast
  qed
qed

subsection \<open>Routes\<close>

lemma routes_okD:
  assumes "db_ok db" and "r \<in> set (db_routes db)"
  shows "gget (db_devices db) (rr_device_id r) \<noteq> None" "gget (db_credentials db) (rr_credential_id r) \<noteq> None"
  using assms by (auto simp: db_ok_def routes_ok_def)

lemma filter_at_most_one:
  assumes "distinct (map f xs)" and "\<And>x y. x \<in> set xs \<Longrightarrow> y \<in> set xs \<Longrightarrow> P x \<Longrightarrow> P y \<Longrightarrow> f x = f y"
  shows "length (filter P xs) \<le> 1"
  using assms
proof (induction xs)
  case (Cons x xs)
  have "filter P xs = []" if "P x"
    using Cons.prems that by (auto simp: filter_empty_conv image_iff)
  moreover have "length (filter P xs) \<le> 1" using Cons by auto
  ultimately show ?case by auto
qed simp

lemma change_routes_ok:
  assumes "db_ok db" and "db_devices db' = db_devices db" and "db_ingresses db' = db_ingresses db" and "routes_ok db'"
  shows "db_ok db'"
  using assms ok_cong [of db' db] by (simp add: db_ok_def)

lemma ok_routes: "db_ok db \<Longrightarrow> routes_ok db"
  by (simp add: db_ok_def)

lemma length_filter_sub: "length (filter P (filter Q xs)) \<le> length (filter P xs)"
  by (induction xs) auto

lemma delete_pending_ok: "db_ok db \<Longrightarrow> db_ok (fst (delete_pending db did))"
proof (rule change_routes_ok)
  assume ok: "db_ok db"
  have "length (active_routes (fst (delete_pending db did)) d) \<le> 1" for d
  proof -
    have "length (active_routes (fst (delete_pending db did)) d) \<le> length (active_routes db d)"
      unfolding active_routes_def delete_pending_def by (simp add: length_filter_sub del: filter_filter)
    also have "\<dots> \<le> 1" using ok_routes [OF ok] by (simp add: routes_ok_def)
    finally show ?thesis .
  qed
  then show "routes_ok (fst (delete_pending db did))" using ok_routes [OF ok]
    by (auto simp: routes_ok_def delete_pending_def intro: distinct_map_filter)
qed (simp_all add: delete_pending_def)

lemma delete_credential_ok:
  assumes ok: "db_ok db" and d: "delete_credential db cid = Inr db'"
  shows "db_ok db'"
proof (rule change_routes_ok [OF ok])
  have db': "db' = db\<lparr>db_credentials := gdel cid (db_credentials db)\<rparr>" using d by (simp add: delete_credential_def split: if_splits)
  have "rr_credential_id r \<noteq> cid" if "r \<in> set (db_routes db)" for r
    using d routes_okD(2) [OF ok that] that by (auto simp: delete_credential_def list_ex_iff split: if_splits)
  then show "routes_ok db'" using ok_routes [OF ok]
    by (auto simp: db' routes_ok_def active_routes_def split: if_splits)
qed (use d in \<open>auto simp: delete_credential_def split: if_splits\<close>)

lemma delete_credentials_ok: "db_ok db \<Longrightarrow> delete_credentials e n cids db = Inr db' \<Longrightarrow> db_ok db'"
  by (induction cids arbitrary: db n) (auto dest: delete_credential_ok)

lemma delete_credentials_tables:
  assumes "delete_credentials e n cids db = Inr db'"
  shows "db_routes db' = db_routes db" "db_devices db' = db_devices db" "db_ingresses db' = db_ingresses db"
    "gget (db_credentials db') cid = (if cid \<in> set cids then None else gget (db_credentials db) cid)"
  using assms by (induction cids arbitrary: db n) (auto simp: delete_credential_def split: if_splits)

lemma insert_credential_ok:
  assumes "db_ok db" and i: "insert_credential db row = Inr db'"
  shows "db_ok db'"
proof (rule change_routes_ok [OF assms(1)])
  have "db' = db\<lparr>db_credentials := gput (cr_id row) row (db_credentials db)\<rparr>"
    using i by (simp add: insert_credential_def split: if_splits)
  then show "routes_ok db'" using ok_routes [OF assms(1)]
    by (auto simp: routes_ok_def active_routes_def split: if_splits)
qed (use i in \<open>auto simp: insert_credential_def split: if_splits\<close>)

lemma insert_route_ok:
  assumes ok: "db_ok db" and i: "insert_route db row = Inr db'" and st: "rr_status row = RoutePending"
    and fresh: "\<And>r. r \<in> set (db_routes db) \<Longrightarrow> rr_credential_id r \<noteq> rr_credential_id row"
  shows "db_ok db'"
proof (rule change_routes_ok [OF ok])
  have db': "db' = db\<lparr>db_routes := db_routes db @ [row]\<rparr>"
    and new: "(rr_device_id row, rr_version row) \<notin> (\<lambda>r. (rr_device_id r, rr_version r)) ` set (db_routes db)"
    and fk: "gget (db_devices db) (rr_device_id row) \<noteq> None" "gget (db_credentials db) (rr_credential_id row) \<noteq> None"
    using i by (auto simp: insert_route_def list_ex_iff split: if_splits)
  have cred: "rr_credential_id row \<notin> rr_credential_id ` set (db_routes db)" using fresh by (metis imageE)
  have "active_routes db' did = active_routes db did" for did
    by (simp add: active_routes_def db' st route_status_distinct)
  then show "routes_ok db'" using ok_routes [OF ok] new fk cred st
    unfolding routes_ok_def by (simp add: db')
qed (use i in \<open>auto simp: insert_route_def split: if_splits\<close>)

text \<open>What a successful staging has done, and the credential it needs.\<close>

definition staged_row :: "device_route \<Rightarrow> route_row" where
  "staged_row r = \<lparr>rr_device_id = r_DeviceID r, rr_credential_id = pc_ID (r_Credential r),
     rr_version = r_Version r, rr_status = RoutePending, rr_updated_at = pg_time (r_UpdatedAt r)\<rparr>"

lemma StageRoute_success:
  assumes "StageRoute e db r expected = (db', None)"
  obtains enc db2 db3 where "encrypt e 0 (pc_Password (r_Credential r)) = Inr enc"
    "gget (db_devices db) (r_DeviceID r) \<noteq> None" "active_version db (r_DeviceID r) = expected"
    "delete_credentials e 4 (snd (delete_pending db (r_DeviceID r))) (fst (delete_pending db (r_DeviceID r))) = Inr db2"
    "insert_credential db2 (credential_to_row (r_Credential r) enc) = Inr db3" "insert_route db3 (staged_row r) = Inr db'"
  using assms unfolding StageRoute_def
  by (auto simp: select_device_def staged_row_def split: if_splits option.splits prod.splits)

lemma StageRoute_ok:
  assumes ok: "db_ok db"
  shows "db_ok (fst (StageRoute e db r expected))"
proof (cases "StageRoute e db r expected")
  case (Pair db' err)
  show ?thesis
  proof (cases err)
    case None
    with Pair have "StageRoute e db r expected = (db', None)" by simp
    then obtain enc db2 db3 where
        d2: "delete_credentials e 4 (snd (delete_pending db (r_DeviceID r))) (fst (delete_pending db (r_DeviceID r))) = Inr db2"
      and d3: "insert_credential db2 (credential_to_row (r_Credential r) enc) = Inr db3"
      and d4: "insert_route db3 (staged_row r) = Inr db'"
      by (rule StageRoute_success)
    have ok2: "db_ok db2" using delete_credentials_ok [OF delete_pending_ok [OF ok] d2] .
    have ok3: "db_ok db3" using insert_credential_ok [OF ok2 d3] .
    have "gget (db_credentials db2) (pc_ID (r_Credential r)) = None" "db_routes db3 = db_routes db2"
      using d3 by (auto simp: insert_credential_def credential_to_row_def split: if_splits)
    then have "rr_credential_id x \<noteq> pc_ID (r_Credential r)" if "x \<in> set (db_routes db3)" for x
      using routes_okD(2) [OF ok2, of x] that by auto
    then have "db_ok db'" by (intro insert_route_ok [OF ok3 d4]) (simp_all add: staged_row_def)
    then show ?thesis by (simp add: Pair)
  next
    case (Some x)
    then have "db' = db" using Pair by (simp add: StageRoute_def)
    then show ?thesis using ok Pair by simp
  qed
qed

lemma map_routes_ok:
  assumes ok: "db_ok db" and keep: "\<And>r. rr_device_id (f r) = rr_device_id r \<and> rr_version (f r) = rr_version r
       \<and> rr_credential_id (f r) = rr_credential_id r \<and> rr_status (f r) \<in> {rr_status r, RouteActive, route_superseded}"
    and act: "\<And>d. length (active_routes (db\<lparr>db_routes := map f (db_routes db)\<rparr>) d) \<le> 1"
  shows "db_ok (db\<lparr>db_routes := map f (db_routes db)\<rparr>)"
proof (rule change_routes_ok [OF ok])
  have "map (\<lambda>r. (rr_device_id r, rr_version r)) (map f (db_routes db)) = map (\<lambda>r. (rr_device_id r, rr_version r)) (db_routes db)"
    "map rr_credential_id (map f (db_routes db)) = map rr_credential_id (db_routes db)" by (simp_all add: keep)
  moreover have "rr_status (f r) \<in> {RoutePending, RouteActive, route_superseded}" if "r \<in> set (db_routes db)" for r
    using ok_routes [OF ok] that keep [of r] unfolding routes_ok_def by auto
  ultimately show "routes_ok (db\<lparr>db_routes := map f (db_routes db)\<rparr>)" using ok_routes [OF ok] keep act
    unfolding routes_ok_def by (simp del: map_map)
qed simp_all

lemma active_supersede:
  "active_routes (supersede e did db) d = (if d = did then [] else active_routes db d)"
proof -
  have "filter (\<lambda>r. rr_device_id r = d \<and> rr_status r = RouteActive) (map (\<lambda>r. if rr_device_id r = did \<and> rr_status r = RouteActive
     then r\<lparr>rr_status := route_superseded, rr_updated_at := pe_now e\<rparr> else r) rs)
    = (if d = did then [] else filter (\<lambda>r. rr_device_id r = d \<and> rr_status r = RouteActive) rs)" for rs :: "route_row list"
    by (induction rs) (auto simp: route_status_distinct)
  then show ?thesis unfolding active_routes_def supersede_def by simp
qed

lemma ok_one_active: "db_ok db \<Longrightarrow> length (active_routes db d) \<le> 1"
  by (simp add: db_ok_def routes_ok_def)

lemma supersede_ok: "db_ok db \<Longrightarrow> db_ok (supersede e did db)"
proof -
  assume ok: "db_ok db"
  have "length (active_routes (supersede e did db) d) \<le> 1" for d
    using ok_one_active [OF ok, of d] by (simp add: active_supersede)
  then show ?thesis unfolding supersede_def
    by (intro map_routes_ok [OF ok]) (simp_all add: supersede_def)
qed

lemma one_activates: "db_ok db \<Longrightarrow> length (filter (activates did version) (db_routes db)) \<le> 1"
  using ok_routes [of db] unfolding routes_ok_def
  by (intro filter_at_most_one [where f = "\<lambda>r. (rr_device_id r, rr_version r)"]) (simp_all add: activates_def)

lemma active_activate_pending:
  assumes "active_routes db did = []"
  shows "active_routes (activate_pending e did version db) d =
     (if d = did then map (\<lambda>r. r\<lparr>rr_status := RouteActive, rr_updated_at := pe_now e\<rparr>) (filter (activates did version) (db_routes db))
      else active_routes db d)"
proof -
  have "filter (\<lambda>r. rr_device_id r = d \<and> rr_status r = RouteActive) (map (\<lambda>r. if activates did version r
     then r\<lparr>rr_status := RouteActive, rr_updated_at := pe_now e\<rparr> else r) rs)
    = (if d = did then map (\<lambda>r. r\<lparr>rr_status := RouteActive, rr_updated_at := pe_now e\<rparr>) (filter (activates did version) rs)
       else filter (\<lambda>r. rr_device_id r = d \<and> rr_status r = RouteActive) rs)"
    if "filter (\<lambda>r. rr_device_id r = did \<and> rr_status r = RouteActive) rs = []" for rs :: "route_row list"
    using that by (induction rs) (auto simp: route_status_distinct activates_def split: if_splits)
  then show ?thesis using assms unfolding active_routes_def activate_pending_def by simp
qed

lemma activate_pending_ok:
  assumes ok: "db_ok db" and none: "active_routes db did = []"
  shows "db_ok (activate_pending e did version db)"
proof -
  have "length (active_routes (activate_pending e did version db) d) \<le> 1" for d
    using ok_one_active [OF ok, of d] one_activates [OF ok, of did version] by (simp add: active_activate_pending [OF none])
  then show ?thesis unfolding activate_pending_def
    by (intro map_routes_ok [OF ok]) (simp_all add: activate_pending_def)
qed

lemma ActivateRoute_success:
  "ActivateRoute e db did version = (db', None) \<longleftrightarrow> db' = activate_pending e did version (supersede e did db)
     \<and> length (filter (activates did version) (db_routes (supersede e did db))) = 1 \<and> (\<forall>n < 4. pe_io e n = None)"
  unfolding ActivateRoute_def by (auto simp: numeral_eq_Suc less_Suc_eq)

lemma ActivateRoute_ok: "db_ok db \<Longrightarrow> db_ok (fst (ActivateRoute e db did version))"
  unfolding ActivateRoute_def
proof (rule transact_keeps [where P = db_ok], goal_cases)
  case (2 db')
  then have "db' = activate_pending e did version (supersede e did db)" by (auto split: if_splits)
  then show ?case using activate_pending_ok [OF supersede_ok [OF 2(1)]] by (simp add: active_supersede)
qed

section \<open>Sealed secrets\<close>

text \<open>Every secret in the tables can be opened with the key of the store.\<close>

definition opens :: "aead \<Rightarrow> byte list \<Rightarrow> bool" where
  "opens c b \<longleftrightarrow> \<not> isl (Cipher_Decrypt c b)"

definition sealed_devices :: "aead \<Rightarrow> db \<Rightarrow> bool" where
  "sealed_devices c db \<longleftrightarrow> (\<forall>k r b. gget (db_devices db) k = Some r \<longrightarrow> dr_ingress_password_cipher r = Some b \<longrightarrow> opens c b)"

definition sealed :: "aead \<Rightarrow> db \<Rightarrow> bool" where
  "sealed c db \<longleftrightarrow> sealed_devices c db \<and> (\<forall>r \<in> set (db_ingresses db). opens c (ir_password_cipher r))
     \<and> (\<forall>k r. gget (db_credentials db) k = Some r \<longrightarrow> opens c (cr_password_cipher r))
     \<and> (\<forall>k r. gget (db_providers db) k = Some r \<longrightarrow> opens c (pv_secrets_cipher r))"

definition env_ok :: "aead \<Rightarrow> pg_env \<Rightarrow> bool" where
  "env_ok c e \<longleftrightarrow> pe_cipher e = c \<and> (\<forall>n nonce. pe_nonce e n = Inr nonce \<longrightarrow> length nonce = NonceSize c)"

lemma Cipher_Encrypt_opens:
  assumes "aead_ok c" and "env_ok c e" and "Cipher_Encrypt (pe_cipher e) (pe_nonce e n) p = Inr b"
  shows "Cipher_Decrypt c b = Inr p" "opens c b"
proof -
  obtain nonce where n: "pe_nonce e n = Inr nonce" using assms(3) by (auto simp: Cipher_Encrypt_def split: sum.splits)
  then show "Cipher_Decrypt c b = Inr p"
    using assms decrypt_encrypt [of c nonce p b] by (simp add: env_ok_def)
  then show "opens c b" by (simp add: opens_def)
qed

lemma encrypt_opens: "aead_ok c \<Longrightarrow> env_ok c e \<Longrightarrow> encrypt e n p = Inr b \<Longrightarrow> opens c b"
  unfolding encrypt_def by (rule Cipher_Encrypt_opens)

lemma insert_device_sealed:
  assumes "sealed c db" and "insert_device db row = Inr db'"
    and "\<And>b. dr_ingress_password_cipher row = Some b \<Longrightarrow> opens c b"
  shows "sealed c db'"
  using assms by (auto simp: insert_device_def sealed_def sealed_devices_def split: if_splits)

lemma insert_ingress_sealed:
  "sealed c db \<Longrightarrow> insert_ingress db row = Inr db' \<Longrightarrow> opens c (ir_password_cipher row) \<Longrightarrow> sealed c db'"
  by (auto simp: insert_ingress_def sealed_def sealed_devices_def split: if_splits)

lemma insert_ingresses_sealed:
  assumes "aead_ok c" and "env_ok c e"
  shows "sealed c db \<Longrightarrow> insert_ingresses e n did is db = Inr db' \<Longrightarrow> sealed c db'"
proof (induction "is" arbitrary: db n)
  case (Cons i "is")
  then obtain enc db1 where "encrypt e n (di_Password i) = Inr enc" "insert_ingress db (ingress_to_row did i enc) = Inr db1"
    "insert_ingresses e (Suc n) did is db1 = Inr db'" by auto
  moreover from this(1) have "opens c (ir_password_cipher (ingress_to_row did i enc))"
    using encrypt_opens [OF assms] by (simp add: ingress_to_row_def)
  ultimately show ?case using insert_ingress_sealed [OF Cons.prems(1)] Cons.IH [of db1 "Suc n"] by blast
qed simp

lemma update_device_sealed:
  assumes "sealed c db" and "\<And>r b. gget (db_devices db) did = Some r \<Longrightarrow> dr_ingress_password_cipher (f r) = Some b \<Longrightarrow>
      dr_ingress_password_cipher r = Some b \<or> opens c b"
  shows "sealed c (update_device f did db)"
proof -
  have "opens c b" if "gget (db_devices (update_device f did db)) k = Some r" "dr_ingress_password_cipher r = Some b" for k r b
    using that assms unfolding gget_update_device sealed_def sealed_devices_def by (fastforce split: if_splits)
  moreover have "db_providers (update_device f did db) = db_providers db" by (simp add: update_device_def)
  ultimately show ?thesis using assms(1) by (auto simp: sealed_def sealed_devices_def)
qed

lemma update_ingresses_sealed:
  assumes "sealed c db" and "\<And>r. ir_password_cipher (f r) = ir_password_cipher r \<or> opens c (ir_password_cipher (f r))"
  shows "sealed c (update_ingresses q f db)"
proof -
  have "opens c (ir_password_cipher (f r))" if "r \<in> set (db_ingresses db)" for r
    using assms(1) assms(2) [of r] that by (auto simp: sealed_def)
  then show ?thesis using assms(1) by (auto simp: sealed_def sealed_devices_def update_ingresses_def)
qed

lemma CreateDevice_sealed:
  assumes "aead_ok c" and "env_ok c e" and "sealed c db"
  shows "sealed c (fst (CreateDevice e db d))"
proof (rule keeps_on_success [where P = "sealed c", OF CreateDevice_failure assms(3)])
  fix db' assume "CreateDevice e db d = (db', None)"
  then obtain enc db1 where enc: "if d_IngressPassword d = [] then enc = None else \<exists>b. enc = Some b \<and> encrypt e 0 (d_IngressPassword d) = Inr b"
    and i: "insert_device db (device_to_row d enc) = Inr db1"
      "insert_ingresses e 2 (d_ID d) (Device_EffectiveIngresses d) db1 = Inr db'" by (rule CreateDevice_success)
  have "sealed c db1" using enc encrypt_opens [OF assms(1,2)]
    by (intro insert_device_sealed [OF assms(3) i(1)]) (auto simp: device_to_row_def split: if_splits)
  then show "sealed c db'" using insert_ingresses_sealed [OF assms(1,2) _ i(2)] by blast
qed

lemma UpdateDeviceCredential_sealed:
  assumes "aead_ok c" and "env_ok c e" and "sealed c db"
  shows "sealed c (fst (UpdateDeviceCredential e db did pw))"
  using fst_UpdateDeviceCredential [of e db did pw]
proof (elim disjE exE conjE)
  fix enc assume e: "encrypt e 0 pw = Inr enc" and r: "fst (UpdateDeviceCredential e db did pw) = rotate_tables e did enc db"
  have "opens c enc" using encrypt_opens [OF assms(1,2) e] .
  then show ?thesis unfolding r rotate_tables_def
    by (intro update_ingresses_sealed update_device_sealed assms(3)) simp_all
qed (simp add: assms(3))

lemma AddDeviceIngress_sealed:
  assumes "aead_ok c" and "env_ok c e" and "sealed c db"
  shows "sealed c (fst (AddDeviceIngress e db did i))"
proof -
  have "sealed c db1" if "encrypt e 0 (di_Password i) = Inr enc"
      "insert_ingress db (ingress_to_row did (i\<lparr>di_Primary := False\<rparr>) enc) = Inr db1" for enc db1
    by (rule insert_ingress_sealed [OF assms(3) that(2)])
      (use encrypt_opens [OF assms(1,2) that(1)] in \<open>simp add: ingress_to_row_def\<close>)
  moreover have "sealed c (update_device (\<lambda>r. r\<lparr>dr_updated_at := t\<rparr>) did db1)" if "sealed c db1" for t db1
    by (rule update_device_sealed [OF that]) simp
  ultimately show ?thesis using assms(3) unfolding AddDeviceIngress_def by (auto split: sum.splits)
qed

lemma delete_ingress_sealed: "sealed c db \<Longrightarrow> delete_ingress db did port = Inr (db', b) \<Longrightarrow> sealed c db'"
  by (auto simp: delete_ingress_def sealed_def sealed_devices_def split: list.splits)

lemma oldest_ingress_mem:
  assumes "oldest_ingress db did = Inr r"
  shows "r \<in> set (db_ingresses db)" "ir_device_id r = did"
proof -
  have "r \<in> set (sort_key (\<lambda>r. (ir_created_at r, ir_port r)) (device_ingress_rows db did))"
    using assms by (auto simp: oldest_ingress_def simp del: set_sort split: list.splits)
  then show "r \<in> set (db_ingresses db)" "ir_device_id r = did" by (simp_all add: device_ingress_rows_def)
qed

lemma mark_primary_sealed: "sealed c db \<Longrightarrow> sealed c (mark_primary did r db)"
  unfolding mark_primary_def by (rule update_ingresses_sealed) simp_all

lemma DeleteDeviceIngress_sealed:
  assumes "sealed c db"
  shows "sealed c (fst (DeleteDeviceIngress e db did port))"
  unfolding fst_DeleteDeviceIngress
proof (rule transact_keeps [where P = "sealed c", OF assms])
  fix db' assume "delete_body e db did port = Inr db'"
  then show "sealed c db'"
  proof (cases rule: delete_bodyE)
    case (primary db1 nx)
    have s1: "sealed c db1" using delete_ingress_sealed [OF assms primary(1)] .
    then have "opens c (ir_password_cipher nx)" using oldest_ingress_mem [OF primary(2)] by (simp add: sealed_def)
    moreover have "sealed c (mark_primary did nx db1)" using mark_primary_sealed [OF s1] .
    ultimately show ?thesis using primary(3)
      by (auto simp: adopt_primary_def intro!: update_device_sealed split: if_splits)
  next
    case (other db1)
    then show ?thesis using delete_ingress_sealed [OF assms other(1)] by (auto intro!: update_device_sealed)
  qed
qed

lemma delete_credentials_sealed:
  "sealed c db \<Longrightarrow> delete_credentials e n cids db = Inr db' \<Longrightarrow> sealed c db'"
proof (induction cids arbitrary: db n)
  case (Cons cid cids)
  then obtain db1 where "delete_credential db cid = Inr db1" "delete_credentials e (Suc n) cids db1 = Inr db'" by auto
  moreover from this(1) have "sealed c db1" using Cons.prems(1)
    by (auto simp: delete_credential_def sealed_def sealed_devices_def split: if_splits)
  ultimately show ?case using Cons.IH by blast
qed simp

lemma StageRoute_failure: "StageRoute e db r expected = (db', Some err) \<Longrightarrow> db' = db"
  by (simp add: StageRoute_def)

lemma StageRoute_sealed:
  assumes "aead_ok c" and "env_ok c e" and "sealed c db"
  shows "sealed c (fst (StageRoute e db r expected))"
proof (rule keeps_on_success [where P = "sealed c", OF StageRoute_failure assms(3)])
  fix db' assume "StageRoute e db r expected = (db', None)"
  then obtain enc db2 db3 where enc: "encrypt e 0 (pc_Password (r_Credential r)) = Inr enc"
    and d2: "delete_credentials e 4 (snd (delete_pending db (r_DeviceID r))) (fst (delete_pending db (r_DeviceID r))) = Inr db2"
    and d3: "insert_credential db2 (credential_to_row (r_Credential r) enc) = Inr db3"
    and d4: "insert_route db3 (staged_row r) = Inr db'" by (rule StageRoute_success)
  have "sealed c (fst (delete_pending db (r_DeviceID r)))" using assms(3) by (simp add: delete_pending_def sealed_def sealed_devices_def)
  from delete_credentials_sealed [OF this d2] have "sealed c db2" .
  then have "sealed c db3" using d3 encrypt_opens [OF assms(1,2) enc]
    by (auto simp: insert_credential_def credential_to_row_def sealed_def sealed_devices_def split: if_splits)
  then show "sealed c db'" using d4 by (auto simp: insert_route_def sealed_def sealed_devices_def split: if_splits)
qed

lemma ActivateRoute_sealed: "sealed c db \<Longrightarrow> sealed c (fst (ActivateRoute e db did version))"
  unfolding ActivateRoute_def
  by (rule transact_keeps [where P = "sealed c"])
    (auto simp: supersede_def activate_pending_def sealed_def sealed_devices_def split: if_splits)

lemma UpsertProvider_sealed:
  assumes "aead_ok c" and "env_ok c e" and "sealed c db"
  shows "sealed c (fst (UpsertProvider e db d))"
  unfolding UpsertProvider_def
proof (rule transact_keeps [where P = "sealed c", OF assms(3)], clarsimp)
  fix db' secretJSON ciphertext
  assume "Cipher_Encrypt (pe_cipher e) (pe_nonce e 0) secretJSON = Inr ciphertext"
    and "put_provider db \<lparr>pv_id = pd_ID d, pv_enabled = pd_Enabled d, pv_weight = pd_Weight d, pv_config = pd_Config d, pv_secrets_cipher = ciphertext\<rparr> = Inr db'"
  then show "sealed c db'" using assms(3) Cipher_Encrypt_opens(2) [OF assms(1,2)]
    by (auto simp: put_provider_def sealed_def sealed_devices_def split: if_splits)
qed

text \<open>The other tables matter to neither.\<close>

lemma frame_ok [simp]:
  "db_ok (db\<lparr>db_providers := p\<rparr>) = db_ok db" "db_ok (db\<lparr>db_gateways := g\<rparr>) = db_ok db"
  "db_ok (db\<lparr>db_audit := a\<rparr>) = db_ok db" "db_ok (db\<lparr>db_deployments := x\<rparr>) = db_ok db"
  "sealed c (db\<lparr>db_gateways := g\<rparr>) = sealed c db" "sealed c (db\<lparr>db_audit := a\<rparr>) = sealed c db"
  "sealed c (db\<lparr>db_deployments := x\<rparr>) = sealed c db"
  by (simp_all add: db_ok_def devices_ok_def ingresses_ok_def routes_ok_def active_routes_def sealed_def sealed_devices_def)

lemma other_tables:
  "db_ok (fst (UpsertProvider e db d)) = db_ok db" "db_ok (fst (UpsertGateway e db g)) = db_ok db"
  "db_ok (fst (AppendAudit e db a b x y)) = db_ok db" "db_ok (fst (RecordRouteDeployment e db did v gid ph ok m)) = db_ok db"
  "sealed c (fst (UpsertGateway e db g)) = sealed c db"
  "sealed c (fst (AppendAudit e db a b x y)) = sealed c db" "sealed c (fst (RecordRouteDeployment e db did v gid ph ok m)) = sealed c db"
  unfolding UpsertProvider_def UpsertGateway_def AppendAudit_def RecordRouteDeployment_def
  by (rule transact_keeps [where db = db]; auto simp: put_provider_def split: if_splits)+

section \<open>The invariant of the store\<close>

inductive store_step :: "aead \<Rightarrow> db \<Rightarrow> db \<Rightarrow> bool" for c :: aead where
  "env_ok c e \<Longrightarrow> store_step c db (fst (CreateDevice e db d))"
| "env_ok c e \<Longrightarrow> store_step c db (fst (UpdateDeviceCredential e db did pw))"
| "env_ok c e \<Longrightarrow> store_step c db (fst (AddDeviceIngress e db did i))"
| "env_ok c e \<Longrightarrow> store_step c db (fst (DeleteDeviceIngress e db did port))"
| "env_ok c e \<Longrightarrow> store_step c db (fst (UpsertProvider e db p))"
| "env_ok c e \<Longrightarrow> store_step c db (fst (StageRoute e db r expected))"
| "env_ok c e \<Longrightarrow> store_step c db (fst (ActivateRoute e db did version))"
| "env_ok c e \<Longrightarrow> store_step c db (fst (UpsertGateway e db g))"
| "env_ok c e \<Longrightarrow> store_step c db (fst (AppendAudit e db actor action resource details))"
| "env_ok c e \<Longrightarrow> store_step c db (fst (RecordRouteDeployment e db did version gid phase success message))"

lemma empty_db_ok: "db_ok empty_db" "sealed c empty_db"
  by (simp_all add: empty_db_def db_ok_def devices_ok_def ingresses_ok_def one_primary_def routes_ok_def active_routes_def
    sealed_def sealed_devices_def)

lemma store_step_ok: "store_step c db db' \<Longrightarrow> db_ok db \<Longrightarrow> db_ok db'"
  by (induction rule: store_step.induct)
    (simp_all add: CreateDevice_ok UpdateDeviceCredential_ok AddDeviceIngress_ok DeleteDeviceIngress_ok StageRoute_ok
      ActivateRoute_ok other_tables)

lemma store_step_sealed: "aead_ok c \<Longrightarrow> store_step c db db' \<Longrightarrow> sealed c db \<Longrightarrow> sealed c db'"
  by (erule store_step.cases)
    (simp_all add: CreateDevice_sealed UpdateDeviceCredential_sealed AddDeviceIngress_sealed DeleteDeviceIngress_sealed
      StageRoute_sealed ActivateRoute_sealed UpsertProvider_sealed other_tables)

interpretation store_inv: invariant_of "\<lambda>db. db = empty_db" "store_step c" "\<lambda>db. db_ok db \<and> (aead_ok c \<longrightarrow> sealed c db)" for c
  by unfold_locales (auto simp: empty_db_ok intro: store_step_ok store_step_sealed)

end
