(* ===== verification/PM_Routes.thy ===== *)
theory PM_Routes
  imports PM_Store
begin

text \<open>
  The contract of the store for its callers: the invariant of all reachable tables, staging as a compare-and-set,
  staging followed by activation as a replacement of the active route that is read back decrypted, and the promotion of a new
  primary ingress.
\<close>

section \<open>All reachable tables\<close>

text \<open>
  C6: in every state that the operations of the store reach from empty tables, whatever statement fails in between, ids, usernames and ports are unique,
  each device has at most one primary ingress and at most one active route, every ingress and route refers to an existing device and credential, and every stored
  secret can be opened with the key of the store.
\<close>

theorem store_tables_consistent:
  assumes "reach (\<lambda>db. db = empty_db) (store_step c) db" and "aead_ok c"
  shows "db_ok db \<and> sealed c db"
  using store_inv.reach_inv [OF assms(1)] assms(2) by blast

definition demo_pg :: pg_env where
  "demo_pg = \<lparr>pe_cipher = demo_aead, pe_nonce = (\<lambda>n. Inr [1, word_of_nat n]), pe_io = (\<lambda>n. None), pe_now = 7000,
     pe_Marshal = (\<lambda>m. if m = [] then Inr [] else Inl (ErrLib ''unsupported'')), pe_Unmarshal = (\<lambda>b. Inr [])\<rparr>"

lemma demo_pg_ok: "env_ok demo_aead demo_pg"
  by (simp add: env_ok_def demo_pg_def demo_aead_def)

definition demo_device :: device where
  "demo_device = zero_device\<lparr>d_ID := ''d1'', d_Username := ''d1'', d_IngressPort := 50001, d_IngressMethod := ''aes-256-gcm'',
     d_IngressPassword := ''secret-1'', d_Enabled := True, d_CreatedAt := 3000, d_UpdatedAt := 3000\<rparr>"

definition demo_db :: db where
  "demo_db = fst (CreateDevice demo_pg empty_db demo_device)"

lemma demo_db_reach: "reach (\<lambda>db. db = empty_db) (store_step demo_aead) demo_db"
  unfolding demo_db_def by (rule reach_step [OF reach_init [of _ empty_db]]) (simp_all add: store_step.intros demo_pg_ok)

lemma demo_db_ok: "db_ok demo_db" "sealed demo_aead demo_db"
  using store_inv.reach_inv [OF demo_db_reach] demo_aead_ok by blast+

theorem store_tables_consistent_witness: "db_ok demo_db \<and> sealed demo_aead demo_db \<and> length (db_ingresses demo_db) = 1"
proof -
  have "length (db_ingresses demo_db) = 1" by code_simp
  then show ?thesis using store_tables_consistent [OF demo_db_reach demo_aead_ok] by blast
qed

section \<open>Staging\<close>

lemma distinct_map_apart: "distinct (map f xs) \<Longrightarrow> x \<in> set xs \<Longrightarrow> y \<in> set xs \<Longrightarrow> x \<noteq> y \<Longrightarrow> f x \<noteq> f y"
  by (auto simp: distinct_map inj_on_def)

lemma delete_credentials_succeed:
  assumes "\<forall>n. pe_io e n = None"
  shows "\<forall>cid \<in> set cids. \<forall>r \<in> set (db_routes db). rr_credential_id r \<noteq> cid \<Longrightarrow> \<exists>db'. delete_credentials e n cids db = Inr db'"
proof (induction cids arbitrary: db n)
  case (Cons cid cids)
  have "\<not> list_ex (\<lambda>r. rr_credential_id r = cid) (db_routes db)" using Cons.prems by (auto simp: list_ex_iff)
  then have "delete_credential db cid = Inr (db\<lparr>db_credentials := gdel cid (db_credentials db)\<rparr>)"
    by (simp add: delete_credential_def)
  then show ?case using Cons.IH [of "db\<lparr>db_credentials := gdel cid (db_credentials db)\<rparr>" "Suc n"] Cons.prems assms by simp
qed simp

lemma stale_credentials_unused:
  assumes "db_ok db" and "cid \<in> set (snd (delete_pending db did))" and "r \<in> set (db_routes (fst (delete_pending db did)))"
  shows "rr_credential_id r \<noteq> cid"
proof -
  obtain x where x: "x \<in> set (db_routes db)" "is_pending did x" "rr_credential_id x = cid"
    using assms(2) by (auto simp: delete_pending_def)
  have r: "r \<in> set (db_routes db)" "\<not> is_pending did r" using assms(3) by (auto simp: delete_pending_def)
  show ?thesis using distinct_map_apart [of rr_credential_id "db_routes db" r x] ok_routes [OF assms(1)] x r
    by (auto simp: routes_ok_def)
qed

text \<open>What staging needs besides the right version.\<close>

definition stage_ready :: "pg_env \<Rightarrow> db \<Rightarrow> device_route \<Rightarrow> bool" where
  "stage_ready e db r \<longleftrightarrow> (\<forall>n. pe_io e n = None) \<and> \<not> isl (encrypt e 0 (pc_Password (r_Credential r)))
     \<and> gget (db_devices db) (r_DeviceID r) \<noteq> None \<and> valid_port (pc_Port (r_Credential r))
     \<and> gget (db_credentials db) (pc_ID (r_Credential r)) = None
     \<and> (pc_ProviderID (r_Credential r) = [] \<or> gget (db_providers db) (pc_ProviderID (r_Credential r)) \<noteq> None)
     \<and> (\<forall>x \<in> set (db_routes db). rr_device_id x = r_DeviceID r \<longrightarrow> rr_version x = r_Version r \<longrightarrow> is_pending (r_DeviceID r) x)"

lemma delete_credentials_providers: "delete_credentials e n cids db = Inr db' \<Longrightarrow> db_providers db' = db_providers db"
  by (induction cids arbitrary: db n) (auto simp: delete_credential_def split: if_splits)

lemma delete_pending_tables:
  "db_devices (fst (delete_pending db did)) = db_devices db" "db_credentials (fst (delete_pending db did)) = db_credentials db"
  "db_ingresses (fst (delete_pending db did)) = db_ingresses db" "db_providers (fst (delete_pending db did)) = db_providers db"
  "db_routes (fst (delete_pending db did)) = filter (\<lambda>r. \<not> is_pending did r) (db_routes db)"
  by (simp_all add: delete_pending_def)

lemma insert_credential_succeeds:
  assumes "valid_port (pc_Port c)" and "gget (db_credentials db) (pc_ID c) = None"
    and "pc_ProviderID c = [] \<or> gget (db_providers db) (pc_ProviderID c) \<noteq> None"
  shows "insert_credential db (credential_to_row c enc) = Inr (db\<lparr>db_credentials := gput (pc_ID c) (credential_to_row c enc) (db_credentials db)\<rparr>)"
  using assms by (auto simp: insert_credential_def credential_to_row_def nullableString_def)

lemma StageRoute_succeeds:
  assumes ok: "db_ok db" and ready: "stage_ready e db r" and v: "active_version db (r_DeviceID r) = expected"
  shows "\<exists>db'. StageRoute e db r expected = (db', None)"
proof -
  let ?did = "r_DeviceID r" and ?c = "r_Credential r"
  let ?p = "fst (delete_pending db ?did)" and ?stale = "snd (delete_pending db ?did)"
  have io: "\<forall>n. pe_io e n = None" using ready by (simp add: stage_ready_def)
  obtain enc where enc: "encrypt e 0 (pc_Password ?c) = Inr enc" using ready
    by (cases "encrypt e 0 (pc_Password ?c)") (simp_all add: stage_ready_def)
  obtain db2 where db2: "delete_credentials e 4 ?stale ?p = Inr db2"
    using delete_credentials_succeed [OF io] stale_credentials_unused [OF ok] by blast
  note t = delete_credentials_tables [OF db2] delete_credentials_providers [OF db2] delete_pending_tables
  let ?db3 = "db2\<lparr>db_credentials := gput (pc_ID ?c) (credential_to_row ?c enc) (db_credentials db2)\<rparr>"
  have "gget (db_credentials db2) (pc_ID ?c) = None" using ready t(4) [of "pc_ID ?c"] t by (simp add: stage_ready_def)
  then have db3: "insert_credential db2 (credential_to_row ?c enc) = Inr ?db3"
    using ready by (intro insert_credential_succeeds) (simp_all add: stage_ready_def t(5) delete_pending_tables)
  have "\<exists>db4. insert_route ?db3 (staged_row r) = Inr db4"
    using ready t(1,2) by (auto simp: insert_route_def staged_row_def stage_ready_def list_ex_iff delete_pending_tables)
  then show ?thesis using ready io enc db2 db3 v
    by (auto simp: StageRoute_def stage_ready_def select_device_def staged_row_def delete_pending_def
        attempt_def with_error_def stmt_def begin_tx_def commit_tx_def transact_def)
qed

lemma StageRoute_routes:
  assumes "StageRoute e db r expected = (db', None)"
  shows "db_routes db' = filter (\<lambda>x. \<not> is_pending (r_DeviceID r) x) (db_routes db) @ [staged_row r]"
    and "db_devices db' = db_devices db" and "db_ingresses db' = db_ingresses db"
proof -
  from assms obtain enc db2 db3 where
      d2: "delete_credentials e 4 (snd (delete_pending db (r_DeviceID r))) (fst (delete_pending db (r_DeviceID r))) = Inr db2"
    and d3: "insert_credential db2 (credential_to_row (r_Credential r) enc) = Inr db3"
    and d4: "insert_route db3 (staged_row r) = Inr db'"
    by (rule StageRoute_success)
  have "db_routes db3 = db_routes db2" "db_devices db3 = db_devices db2" "db_ingresses db3 = db_ingresses db2"
    using d3 by (auto simp: insert_credential_def split: if_splits)
  then show "db_routes db' = filter (\<lambda>x. \<not> is_pending (r_DeviceID r) x) (db_routes db) @ [staged_row r]"
    and "db_devices db' = db_devices db" and "db_ingresses db' = db_ingresses db"
    using d4 delete_credentials_tables [OF d2] delete_pending_tables by (auto simp: insert_route_def split: if_splits)
qed

lemma StageRoute_conflict:
  assumes "StageRoute e db r expected = (db', None)"
  shows "active_version db (r_DeviceID r) = expected"
  using assms by (rule StageRoute_success) simp

lemma is_pending_staged: "is_pending did (staged_row r) \<longleftrightarrow> r_DeviceID r = did"
  by (auto simp: is_pending_def staged_row_def)

lemma StageRoute_outcome:
  assumes "db_ok db" and ready: "stage_ready e db r"
  shows "snd (StageRoute e db r expected) = (if active_version db (r_DeviceID r) = expected then None else Some ErrConflict)"
proof (cases "active_version db (r_DeviceID r) = expected")
  case True
  then show ?thesis using StageRoute_succeeds [OF assms True] by auto
next
  case False
  obtain enc where "encrypt e 0 (pc_Password (r_Credential r)) = Inr enc"
    using ready by (cases "encrypt e 0 (pc_Password (r_Credential r))") (simp_all add: stage_ready_def)
  then show ?thesis using False ready
    by (auto simp: StageRoute_def stage_ready_def select_device_def attempt_def with_error_def stmt_def begin_tx_def transact_def)
qed

text \<open>
  C8: staging is a compare-and-set on the version of the active route: when nothing else stands in the way it succeeds exactly when that version is the expected one and is a
  conflict otherwise. A success replaces whatever was pending for the device by the new route and touches no other route; a failure leaves the tables as they were.
\<close>

theorem stage_is_compare_and_set:
  assumes "db_ok db"
  shows "(stage_ready e db r \<longrightarrow> snd (StageRoute e db r expected) =
            (if active_version db (r_DeviceID r) = expected then None else Some ErrConflict))
    \<and> (\<forall>db'. StageRoute e db r expected = (db', None) \<longrightarrow>
            active_version db (r_DeviceID r) = expected
          \<and> filter (is_pending (r_DeviceID r)) (db_routes db') = [staged_row r]
          \<and> filter (\<lambda>x. \<not> is_pending (r_DeviceID r) x) (db_routes db') = filter (\<lambda>x. \<not> is_pending (r_DeviceID r) x) (db_routes db)
          \<and> (\<forall>did. active_routes db' did = active_routes db did))
    \<and> (\<forall>db' err. StageRoute e db r expected = (db', Some err) \<longrightarrow> db' = db)"
proof (intro conjI allI impI)
  assume "stage_ready e db r"
  then show "snd (StageRoute e db r expected) = (if active_version db (r_DeviceID r) = expected then None else Some ErrConflict)"
    by (rule StageRoute_outcome [OF assms])
next
  fix db' assume s: "StageRoute e db r expected = (db', None)"
  note rs = StageRoute_routes [OF s]
  show "active_version db (r_DeviceID r) = expected" by (rule StageRoute_conflict [OF s])
  show "filter (is_pending (r_DeviceID r)) (db_routes db') = [staged_row r]"
    "filter (\<lambda>x. \<not> is_pending (r_DeviceID r) x) (db_routes db') = filter (\<lambda>x. \<not> is_pending (r_DeviceID r) x) (db_routes db)"
    by (simp_all add: rs is_pending_staged)
  show "active_routes db' did = active_routes db did" for did
    by (auto simp: active_routes_def rs staged_row_def is_pending_def route_status_distinct intro: filter_cong)
next
  fix db' err assume "StageRoute e db r expected = (db', Some err)"
  then show "db' = db" by (rule StageRoute_failure)
qed

definition demo_store_route :: device_route where
  "demo_store_route = zero_route\<lparr>r_DeviceID := ''d1'', r_DeviceUsername := ''d1'', r_Version := 1, r_Status := RoutePending,
     r_Credential := zero_credential\<lparr>pc_ID := ''c1'', pc_Host := ''proxy'', pc_Port := 1080, pc_Username := ''u'', pc_Password := ''secret''\<rparr>\<rparr>"

lemma demo_stage_ready: "stage_ready demo_pg demo_db demo_store_route"
proof -
  have io: "\<forall>n. pe_io demo_pg n = None" by (simp add: demo_pg_def)
  have rest: "\<not> isl (encrypt demo_pg 0 (pc_Password (r_Credential demo_store_route)))"
    "gget (db_devices demo_db) (r_DeviceID demo_store_route) \<noteq> None" "valid_port (pc_Port (r_Credential demo_store_route))"
    "gget (db_credentials demo_db) (pc_ID (r_Credential demo_store_route)) = None" "pc_ProviderID (r_Credential demo_store_route) = []"
    "db_routes demo_db = []" by code_simp+
  show ?thesis using io rest by (simp add: stage_ready_def)
qed

theorem stage_is_compare_and_set_witness:
  "db_ok demo_db \<and> snd (StageRoute demo_pg demo_db demo_store_route 0) = None
   \<and> snd (StageRoute demo_pg demo_db demo_store_route 1) = Some ErrConflict"
proof -
  have "active_version demo_db (r_DeviceID demo_store_route) = 0" by code_simp
  then show ?thesis using stage_is_compare_and_set [OF demo_db_ok(1), of demo_pg demo_store_route] demo_stage_ready demo_db_ok by auto
qed

section \<open>Reading back\<close>

text \<open>With the right key and no failing statement, whatever is in consistent tables can be read.\<close>

definition reads :: "aead \<Rightarrow> pg_env \<Rightarrow> bool" where
  "reads c e \<longleftrightarrow> pe_cipher e = c \<and> (\<forall>n. pe_io e n = None)"

lemma decrypt_total: "pe_cipher e = c \<Longrightarrow> opens c b \<Longrightarrow> \<exists>p. decrypt e b = Inr p"
  by (auto simp: decrypt_def opens_def isl_def split: sum.splits)

lemma decrypt_nullable_total: "pe_cipher e = c \<Longrightarrow> (\<And>b. x = Some b \<Longrightarrow> opens c b) \<Longrightarrow> \<exists>p. decrypt_nullable e x = Inr p"
  using decrypt_total [of e c] by (auto simp: decrypt_nullable_def split: option.splits)

lemma scan_ingresses_total:
  "pe_cipher e = c \<Longrightarrow> (\<forall>r \<in> set rs. opens c (ir_password_cipher r)) \<Longrightarrow> \<exists>out. scan_ingresses e rs = Inr out"
proof (induction rs)
  case (Cons r rs)
  then show ?case using decrypt_total [of e c "ir_password_cipher r"] by auto
qed simp

lemma loadDeviceIngresses_total: "reads c e \<Longrightarrow> sealed c db \<Longrightarrow> \<exists>out. loadDeviceIngresses e n db did = Inr out"
  using scan_ingresses_total [of e c "sort_key ingress_order (device_ingress_rows db did)"]
  by (auto simp: loadDeviceIngresses_def reads_def sealed_def device_ingress_rows_def)

lemma GetDevice_total:
  assumes "reads c e" and "sealed c db" and "gget (db_devices db) did = Some row"
  shows "\<exists>d. GetDevice_at e n db did = Inr d"
proof -
  obtain pw where "decrypt_nullable e (dr_ingress_password_cipher row) = Inr pw"
    using decrypt_nullable_total [of e c "dr_ingress_password_cipher row"] assms by (auto simp: sealed_def sealed_devices_def reads_def)
  moreover obtain ings where "loadDeviceIngresses e (Suc n) db did = Inr ings" using loadDeviceIngresses_total assms by blast
  ultimately show ?thesis using assms by (auto simp: GetDevice_at_def reads_def select_device_def)
qed

lemma joined_of_device:
  "filter (\<lambda>(d, c, r). rr_device_id r = did) (joined_routes db) = List.map_filter (join_route db) (active_routes db did)"
proof -
  have "filter (\<lambda>(d, c, r). rr_device_id r = did) (List.map_filter (join_route db) (filter (\<lambda>r. rr_status r = RouteActive) rs))
    = List.map_filter (join_route db) (filter (\<lambda>r. rr_device_id r = did \<and> rr_status r = RouteActive) rs)" for rs
    by (induction rs) (auto simp: map_filter_simps join_route_def split: option.splits)
  then show ?thesis by (simp add: joined_routes_def active_routes_def)
qed

lemma map_filter_single: "join_route db r = Some x \<Longrightarrow> List.map_filter (join_route db) [r] = [x]"
  by (simp add: map_filter_simps)

lemma GetRoute_reads:
  assumes e: "reads c e" and s: "sealed c db" and act: "active_routes db did = [row]"
    and d: "gget (db_devices db) did = Some drow" and cr: "gget (db_credentials db) (rr_credential_id row) = Some crow"
    and pw: "decrypt e (cr_password_cipher crow) = Inr password"
  shows "\<exists>ingress_password ings. GetRoute e db did = Inr (row_to_route drow crow row password ingress_password ings)
     \<and> loadDeviceIngresses e 1 db (dr_id drow) = Inr ings"
proof -
  have "row \<in> set (active_routes db did)" using act by simp
  then have did: "rr_device_id row = did" by (simp add: active_routes_def)
  then have "join_route db row = Some (drow, crow, row)" using d cr by (simp add: join_route_def)
  from map_filter_single [OF this] have j: "filter (\<lambda>(d, c, r). rr_device_id r = did) (joined_routes db) = [(drow, crow, row)]"
    by (simp add: joined_of_device act)
  obtain ipw where "decrypt_nullable e (dr_ingress_password_cipher drow) = Inr ipw"
    using decrypt_nullable_total [of e c "dr_ingress_password_cipher drow"] e s d by (auto simp: sealed_def sealed_devices_def reads_def)
  moreover obtain ings where "loadDeviceIngresses e 1 db (dr_id drow) = Inr ings" using loadDeviceIngresses_total e s by blast
  ultimately show ?thesis using e pw by (auto simp: GetRoute_def reads_def j scan_route_def)
qed

lemma StageRoute_credential:
  assumes "StageRoute e db r expected = (db', None)"
  obtains enc where "encrypt e 0 (pc_Password (r_Credential r)) = Inr enc"
    "gget (db_credentials db') (pc_ID (r_Credential r)) = Some (credential_to_row (r_Credential r) enc)"
proof -
  from assms obtain enc db2 db3 where e: "encrypt e 0 (pc_Password (r_Credential r)) = Inr enc"
    and d3: "insert_credential db2 (credential_to_row (r_Credential r) enc) = Inr db3"
    and d4: "insert_route db3 (staged_row r) = Inr db'"
    by (rule StageRoute_success)
  have "db_credentials db' = gput (pc_ID (r_Credential r)) (credential_to_row (r_Credential r) enc) (db_credentials db2)"
    using d3 d4 by (auto simp: insert_credential_def insert_route_def credential_to_row_def split: if_splits)
  then have "gget (db_credentials db') (pc_ID (r_Credential r)) = Some (credential_to_row (r_Credential r) enc)" by simp
  with e show thesis by (rule that)
qed

lemma activates_supersede:
  "filter (activates did v) (db_routes (supersede e did db)) = filter (activates did v) (db_routes db)"
proof -
  have "filter (activates did v) (map (\<lambda>r. if rr_device_id r = did \<and> rr_status r = RouteActive
      then r\<lparr>rr_status := route_superseded, rr_updated_at := pe_now e\<rparr> else r) rs) = filter (activates did v) rs" for rs :: "route_row list"
    by (induction rs) (auto simp: activates_def route_status_distinct)
  then show ?thesis by (simp add: supersede_def)
qed

lemma activate_staged:
  assumes "StageRoute e db r expected = (db1, None)" and "ActivateRoute e2 db1 (r_DeviceID r) (r_Version r) = (db2, None)"
  shows "active_routes db2 (r_DeviceID r) = [(staged_row r)\<lparr>rr_status := RouteActive, rr_updated_at := pe_now e2\<rparr>]"
proof -
  let ?did = "r_DeviceID r" and ?v = "r_Version r"
  have db2: "db2 = activate_pending e2 ?did ?v (supersede e2 ?did db1)" using assms(2) by (simp add: ActivateRoute_success)
  have "filter (activates ?did ?v) (db_routes (supersede e2 ?did db1)) = filter (activates ?did ?v) (db_routes db1)"
    by (rule activates_supersede)
  also have "\<dots> = [staged_row r]"
    by (auto simp: StageRoute_routes [OF assms(1)] activates_def is_pending_def staged_row_def filter_empty_conv)
  finally show ?thesis by (simp add: db2 active_activate_pending active_supersede)
qed

lemma activate_tables:
  "db_devices (activate_pending e did v (supersede e did db)) = db_devices db"
  "db_credentials (activate_pending e did v (supersede e did db)) = db_credentials db"
  "db_ingresses (activate_pending e did v (supersede e did db)) = db_ingresses db"
  by (simp_all add: activate_pending_def supersede_def)

text \<open>The upstream credential as the tables keep it.\<close>

definition stored_credential :: "proxy_credential \<Rightarrow> proxy_credential" where
  "stored_credential c = c\<lparr>pc_EncryptedPassword := [], pc_ExpiresAt := map_option pg_time (pc_ExpiresAt c), pc_CreatedAt := pg_time (pc_CreatedAt c)\<rparr>"

lemma credential_from_row:
  "r_Credential (row_to_route d (credential_to_row c enc) row (pc_Password c) ipw ings) = stored_credential c"
  by (simp add: row_to_route_def credential_to_row_def nullableString_def stored_credential_def)

text \<open>
  C23: a route that was staged and then activated is what \<open>GetRoute\<close> returns: the same upstream with its password decrypted, the staged version, marked active,
  with the ingresses of the device.
\<close>

theorem activated_route_reads_back:
  assumes c: "aead_ok c" and e: "env_ok c e" and ok: "db_ok db" and s: "sealed c db"
    and stage: "StageRoute e db r expected = (db1, None)"
    and act: "ActivateRoute e2 db1 (r_DeviceID r) (r_Version r) = (db2, None)" and rd: "reads c e3"
  shows "\<exists>out. GetRoute e3 db2 (r_DeviceID r) = Inr out \<and> r_DeviceID out = r_DeviceID r
     \<and> r_Credential out = stored_credential (r_Credential r) \<and> r_Version out = r_Version r \<and> r_Status out = RouteActive
     \<and> loadDeviceIngresses e3 1 db2 (r_DeviceID r) = Inr (r_Ingresses out)"
proof -
  have db2: "db2 = activate_pending e2 (r_DeviceID r) (r_Version r) (supersede e2 (r_DeviceID r) db1)"
    using act by (simp add: ActivateRoute_success)
  have s2: "sealed c db2" using StageRoute_sealed [OF c e s, of r expected] ActivateRoute_sealed [of c db1 e2 "r_DeviceID r" "r_Version r"] stage act by simp
  have ok2: "db_ok db2" using StageRoute_ok [OF ok, of e r expected] ActivateRoute_ok [of db1 e2 "r_DeviceID r" "r_Version r"] stage act by simp
  obtain enc where enc: "encrypt e 0 (pc_Password (r_Credential r)) = Inr enc"
      "gget (db_credentials db1) (pc_ID (r_Credential r)) = Some (credential_to_row (r_Credential r) enc)"
    using StageRoute_credential [OF stage] .
  then have cr: "gget (db_credentials db2) (pc_ID (r_Credential r)) = Some (credential_to_row (r_Credential r) enc)"
    by (simp add: db2 activate_tables)
  have pw: "decrypt e3 enc = Inr (pc_Password (r_Credential r))"
    using Cipher_Encrypt_opens(1) [OF c e enc(1) [unfolded encrypt_def]] rd by (simp add: decrypt_def reads_def)
  let ?row = "(staged_row r)\<lparr>rr_status := RouteActive, rr_updated_at := pe_now e2\<rparr>"
  have row: "active_routes db2 (r_DeviceID r) = [?row]" by (rule activate_staged [OF stage act])
  obtain drow where d: "gget (db_devices db2) (r_DeviceID r) = Some drow"
    using stage by (rule StageRoute_success) (auto simp: db2 activate_tables StageRoute_routes(2) [OF stage])
  have "dr_id drow = r_DeviceID r" using devices_okD(2) [OF ok2 d] .
  moreover obtain ipw ings where
    "GetRoute e3 db2 (r_DeviceID r) = Inr (row_to_route drow (credential_to_row (r_Credential r) enc) ?row (pc_Password (r_Credential r)) ipw ings)"
    "loadDeviceIngresses e3 1 db2 (dr_id drow) = Inr ings"
    using GetRoute_reads [OF rd s2 row d, of "credential_to_row (r_Credential r) enc" "pc_Password (r_Credential r)"] cr pw
    by (auto simp: staged_row_def credential_to_row_def)
  ultimately show ?thesis by (auto simp: credential_from_row) (auto simp: row_to_route_def staged_row_def)
qed

theorem activated_route_reads_back_witness:
  "\<exists>db1 db2 out. StageRoute demo_pg demo_db demo_store_route 0 = (db1, None) \<and> ActivateRoute demo_pg db1 ''d1'' 1 = (db2, None)
     \<and> GetRoute demo_pg db2 ''d1'' = Inr out \<and> pc_Password (r_Credential out) = ''secret''"
proof -
  define db1 where "db1 = fst (StageRoute demo_pg demo_db demo_store_route 0)"
  define db2 where "db2 = fst (ActivateRoute demo_pg db1 ''d1'' 1)"
  have "snd (StageRoute demo_pg demo_db demo_store_route 0) = None"
    "snd (ActivateRoute demo_pg (fst (StageRoute demo_pg demo_db demo_store_route 0)) ''d1'' 1) = None" by code_simp+
  then have st: "StageRoute demo_pg demo_db demo_store_route 0 = (db1, None)" "ActivateRoute demo_pg db1 ''d1'' 1 = (db2, None)"
    by (simp_all add: db1_def db2_def prod_eq_iff)
  have r: "r_DeviceID demo_store_route = ''d1''" "r_Version demo_store_route = 1" "pc_Password (r_Credential demo_store_route) = ''secret''"
    by (simp_all add: demo_store_route_def)
  have "reads demo_aead demo_pg" by (simp add: reads_def demo_pg_def)
  from activated_route_reads_back [OF demo_aead_ok demo_pg_ok demo_db_ok st(1) _ this, of demo_pg db2] st r
  show ?thesis by (auto simp: stored_credential_def)
qed

end
