(* ===== verification/PM_Memory.thy ===== *)
theory PM_Memory
  imports PM_Routes
begin

text \<open>
  The in-memory store that the tests run on, \<open>internal/store/memory.go\<close>, and the contract about route versions that it shares with the tables of
  Postgres. Values that the code copies are values here. \<open>UpdateDeviceCredential\<close> writes into slices that
  the store shares with what it has returned before; it is in \<open>PM_Memory_Heap\<close>, which has the slices and shows that the other operations do on
  them what they do here. Every method holds the mutex, so it is one step.
\<close>

section \<open>The store\<close>

record memory =
  m_devices :: "(string, device) gomap"
  m_routes :: "(string, device_route) gomap"
  m_pending :: "(string, device_route) gomap"
  m_gateways :: "(string, gateway_info) gomap"
  m_providers :: "(string, provider_definition) gomap"

definition NewMemory :: memory where
  "NewMemory = \<lparr>m_devices = [], m_routes = [], m_pending = [], m_gateways = [], m_providers = []\<rparr>"

text \<open>A provider goes in and out as a copy, its map of secrets filled entry by entry.\<close>

definition cloneStrings :: "(string, string) gomap \<Rightarrow> (string, string) gomap" where
  "cloneStrings xs = fold (\<lambda>(k, v) out. gput k v out) xs []"

definition cloneProvider :: "provider_definition \<Rightarrow> provider_definition" where
  "cloneProvider d = d\<lparr>pd_Secrets := cloneStrings (pd_Secrets d)\<rparr>"

definition Memory_UpsertProvider :: "memory \<Rightarrow> provider_definition \<Rightarrow> memory" where
  "Memory_UpsertProvider m d = m\<lparr>m_providers := gput (pd_ID d) (cloneProvider d) (m_providers m)\<rparr>"

definition Memory_GetProvider :: "memory \<Rightarrow> string \<Rightarrow> go_error + provider_definition" where
  "Memory_GetProvider m pid = (case gget (m_providers m) pid of None \<Rightarrow> Inl ErrNotFound | Some d \<Rightarrow> Inr (cloneProvider d))"

definition Memory_ListProviders :: "memory \<Rightarrow> provider_definition list" where
  "Memory_ListProviders m = map (\<lambda>(pid, d). cloneProvider d) (m_providers m)"

lemma gput_absent: "k \<notin> fst ` set m \<Longrightarrow> gput k v m = m @ [(k, v)]"
  by (induction m) auto

lemma fold_gput_fresh: "distinct (map fst (out @ xs)) \<Longrightarrow> fold (\<lambda>(k, v) out. gput k v out) xs out = out @ xs"
proof (induction xs arbitrary: out)
  case (Cons e xs)
  then have "gput (fst e) (snd e) out = out @ [e]" by (simp add: gput_absent)
  then show ?case using Cons.IH [of "out @ [e]"] Cons.prems by (simp add: split_def)
qed simp

lemma cloneStrings_same: "gwf xs \<Longrightarrow> cloneStrings xs = xs"
  using fold_gput_fresh [of "[]" xs] by (simp add: cloneStrings_def gwf_def)

lemma provider_reads_back:
  assumes "gwf (pd_Secrets d)"
  shows "Memory_GetProvider (Memory_UpsertProvider m d) (pd_ID d) = Inr d"
  using assms by (simp add: Memory_GetProvider_def Memory_UpsertProvider_def cloneProvider_def cloneStrings_same)

text \<open>Some device offers the port.\<close>

definition port_taken :: "memory \<Rightarrow> int \<Rightarrow> bool" where
  "port_taken m port \<longleftrightarrow> list_ex (\<lambda>(did, d). list_ex (\<lambda>i. di_Port i = port) (Device_EffectiveIngresses d)) (m_devices m)"

definition Memory_CreateDevice :: "memory \<Rightarrow> device \<Rightarrow> memory \<times> go_error option" where
  "Memory_CreateDevice m d =
     (if gget (m_devices m) (d_ID d) \<noteq> None then (m, Some ErrConflict)
      else if port_taken m (d_IngressPort d) then (m, Some ErrConflict)
      else let d' = (if d_Ingresses d = [] \<and> d_IngressPort d \<noteq> 0 then d\<lparr>d_Ingresses := Device_EffectiveIngresses d\<rparr> else d) in
           (m\<lparr>m_devices := gput (d_ID d) d' (m_devices m)\<rparr>, None))"

definition Memory_GetDevice :: "memory \<Rightarrow> string \<Rightarrow> go_error + device" where
  "Memory_GetDevice m did = (case gget (m_devices m) did of None \<Rightarrow> Inl ErrNotFound | Some d \<Rightarrow> Inr d)"

text \<open>The two \<open>if r, ok := m.routes[id]\<close> blocks of the operations on ingresses.\<close>

definition update_route :: "(device_route \<Rightarrow> device_route) \<Rightarrow> string \<Rightarrow> (string, device_route) gomap \<Rightarrow> (string, device_route) gomap" where
  "update_route f did rs = (case gget rs did of None \<Rightarrow> rs | Some r \<Rightarrow> gput did (f r) rs)"

definition Memory_AddDeviceIngress :: "memory \<Rightarrow> time \<Rightarrow> string \<Rightarrow> device_ingress \<Rightarrow> memory \<times> (go_error + device)" where
  "Memory_AddDeviceIngress m now did ingress =
     (case gget (m_devices m) did of
        None \<Rightarrow> (m, Inl ErrNotFound)
      | Some d \<Rightarrow>
          if port_taken m (di_Port ingress) then (m, Inl ErrConflict)
          else let d' = d\<lparr>d_Ingresses := Device_EffectiveIngresses d @ [ingress\<lparr>di_Primary := False\<rparr>], d_UpdatedAt := now\<rparr>;
                   f = (\<lambda>r. r\<lparr>r_Ingresses := d_Ingresses d'\<rparr>) in
               (m\<lparr>m_devices := gput did d' (m_devices m), m_routes := update_route f did (m_routes m),
                  m_pending := update_route f did (m_pending m)\<rparr>, Inr d'))"

fun promote_first :: "device_ingress list \<Rightarrow> device_ingress list" where
  "promote_first [] = []"
| "promote_first (i # is) = i\<lparr>di_Primary := True\<rparr> # is"

text \<open>
  The loop leaves out every ingress of the port; \<open>removedPrimary\<close> is what the last of them says. The ports of one device are
  distinct. \<open>out[0]\<close> exists because two ingresses were there.
\<close>

definition without_port :: "int \<Rightarrow> device_ingress list \<Rightarrow> device_ingress list" where
  "without_port port ingresses = filter (\<lambda>i. di_Port i \<noteq> port) ingresses"

definition removed_primary :: "int \<Rightarrow> device_ingress list \<Rightarrow> bool" where
  "removed_primary port ingresses =
     (case rev (filter (\<lambda>i. di_Port i = port) ingresses) of [] \<Rightarrow> False | i # _ \<Rightarrow> di_Primary i)"

definition remove_ingress :: "int \<Rightarrow> device \<Rightarrow> device" where
  "remove_ingress port d =
     (let ingresses = Device_EffectiveIngresses d; out = without_port port ingresses in
      if removed_primary port ingresses
      then let primary = hd (promote_first out) in
           d\<lparr>d_Ingresses := promote_first out, d_IngressPort := di_Port primary, d_IngressMethod := di_Method primary,
             d_IngressPassword := di_Password primary\<rparr>
      else d\<lparr>d_Ingresses := out\<rparr>)"

definition Memory_DeleteDeviceIngress :: "memory \<Rightarrow> time \<Rightarrow> string \<Rightarrow> int \<Rightarrow> memory \<times> (go_error + device)" where
  "Memory_DeleteDeviceIngress m now did port =
     (case gget (m_devices m) did of
        None \<Rightarrow> (m, Inl ErrNotFound)
      | Some d \<Rightarrow>
          let ingresses = Device_EffectiveIngresses d in
          if length ingresses \<le> 1 then (m, Inl ErrConflict)
          else if \<not> list_ex (\<lambda>i. di_Port i = port) ingresses then (m, Inl ErrNotFound)
          else let d' = (remove_ingress port d)\<lparr>d_UpdatedAt := now\<rparr>;
                   f = (\<lambda>r. r\<lparr>r_IngressPort := d_IngressPort d', r_IngressMethod := d_IngressMethod d',
                              r_IngressPassword := d_IngressPassword d', r_Ingresses := d_Ingresses d'\<rparr>) in
               (m\<lparr>m_devices := gput did d' (m_devices m), m_routes := update_route f did (m_routes m),
                  m_pending := update_route f did (m_pending m)\<rparr>, Inr d'))"

text \<open>The version of a missing route is the zero value.\<close>

definition Memory_version :: "memory \<Rightarrow> string \<Rightarrow> int" where
  "Memory_version m did = (case gget (m_routes m) did of None \<Rightarrow> 0 | Some r \<Rightarrow> r_Version r)"

definition Memory_StageRoute :: "memory \<Rightarrow> device_route \<Rightarrow> int \<Rightarrow> memory \<times> go_error option" where
  "Memory_StageRoute m r expected =
     (if Memory_version m (r_DeviceID r) \<noteq> expected then (m, Some ErrConflict)
      else (m\<lparr>m_pending := gput (r_DeviceID r) r (m_pending m)\<rparr>, None))"

definition Memory_ActivateRoute :: "memory \<Rightarrow> string \<Rightarrow> int \<Rightarrow> memory \<times> go_error option" where
  "Memory_ActivateRoute m did version =
     (case gget (m_pending m) did of
        None \<Rightarrow> (m, Some ErrConflict)
      | Some r \<Rightarrow>
          if r_Version r \<noteq> version then (m, Some ErrConflict)
          else (m\<lparr>m_routes := gput did (r\<lparr>r_Status := RouteActive\<rparr>) (m_routes m), m_pending := gdel did (m_pending m)\<rparr>, None))"

definition Memory_GetRoute :: "memory \<Rightarrow> string \<Rightarrow> go_error + device_route" where
  "Memory_GetRoute m did = (case gget (m_routes m) did of None \<Rightarrow> Inl ErrNotFound | Some r \<Rightarrow> Inr r)"

definition Memory_ListActiveRoutes :: "memory \<Rightarrow> device_route list" where
  "Memory_ListActiveRoutes m = map snd (m_routes m)"

definition Memory_UpsertGateway :: "memory \<Rightarrow> gateway_info \<Rightarrow> memory" where
  "Memory_UpsertGateway m g = m\<lparr>m_gateways := gput (gi_ID g) g (m_gateways m)\<rparr>"

definition Memory_ListGateways :: "memory \<Rightarrow> gateway_info list" where
  "Memory_ListGateways m = map snd (m_gateways m)"

text \<open>Nothing is audited and no deployment is recorded.\<close>

definition Memory_AppendAudit :: "memory \<Rightarrow> string \<Rightarrow> string \<Rightarrow> string \<Rightarrow> 'details \<Rightarrow> memory \<times> go_error option" where
  "Memory_AppendAudit m actor action resource details = (m, None)"

definition Memory_RecordRouteDeployment :: "memory \<Rightarrow> string \<Rightarrow> int \<Rightarrow> string \<Rightarrow> string \<Rightarrow> bool \<Rightarrow> string \<Rightarrow> memory \<times> go_error option" where
  "Memory_RecordRouteDeployment m did version gid phase success message = (m, None)"

section \<open>The contract about versions\<close>

text \<open>
  What callers of \<open>StageRoute\<close> and \<open>ActivateRoute\<close> may rely on, whichever store they talk to: staging is refused unless the expected version is the
  current one, activation takes exactly what is staged, and a refusal changes no store.
\<close>

locale versioned_routes =
  fixes stage :: "'e \<Rightarrow> 'st \<Rightarrow> device_route \<Rightarrow> int \<Rightarrow> 'st \<times> go_error option"
    and activate :: "'e \<Rightarrow> 'st \<Rightarrow> string \<Rightarrow> int \<Rightarrow> 'st \<times> go_error option"
    and version :: "'st \<Rightarrow> string \<Rightarrow> int"
    and staged :: "'st \<Rightarrow> string \<Rightarrow> int option"
    and ok :: "'st \<Rightarrow> bool"
  assumes stage_done: "ok s \<Longrightarrow> stage e s r expected = (s', None) \<Longrightarrow>
       version s (r_DeviceID r) = expected \<and> version s' = version s \<and> staged s' = (staged s)(r_DeviceID r := Some (r_Version r)) \<and> ok s'"
    and stage_refused: "stage e s r expected = (s', Some err) \<Longrightarrow> s' = s"
    and activate_done: "ok s \<Longrightarrow> activate e s did v = (s', None) \<Longrightarrow>
       staged s did = Some v \<and> version s' = (version s)(did := v) \<and> staged s' = (staged s)(did := None) \<and> ok s'"
    and activate_refused: "activate e s did v = (s', Some err) \<Longrightarrow> s' = s"
begin

text \<open>
  The calls of the API, in any interleaving of any number of requests: a route is staged with the version after the
  expected one, and a request activates the version it staged.
\<close>

inductive call :: "'st \<Rightarrow> 'st \<Rightarrow> bool" where
  call_stage: "r_Version r = expected + 1 \<Longrightarrow> stage e s r expected = (s', res) \<Longrightarrow> call s s'"
| call_activate: "activate e s did v = (s', res) \<Longrightarrow> call s s'"

definition next_staged :: "'st \<Rightarrow> bool" where
  "next_staged s \<longleftrightarrow> (\<forall>did v. staged s did = Some v \<longrightarrow> v = version s did + 1)"

lemma stage_cases:
  assumes "ok s" and "stage e s r expected = (s', res)"
  obtains "s' = s" | "version s (r_DeviceID r) = expected" "version s' = version s"
    "staged s' = (staged s)(r_DeviceID r := Some (r_Version r))" "ok s'"
  using assms stage_done [of s e r expected s'] stage_refused [of e s r expected s'] by (cases res) auto

lemma activate_cases:
  assumes "ok s" and "activate e s did v = (s', res)"
  obtains "s' = s" | "staged s did = Some v" "version s' = (version s)(did := v)" "staged s' = (staged s)(did := None)" "ok s'"
  using assms activate_done [of s e did v s'] activate_refused [of e s did v s'] by (cases res) auto

lemma call_keeps:
  assumes "call s s'" and "ok s" and "next_staged s"
  shows "ok s' \<and> next_staged s' \<and> (\<forall>did. version s' did = version s did \<or> version s' did = version s did + 1)"
  using assms(1)
proof cases
  case (call_stage r expected e res)
  from assms(2) call_stage(2) show ?thesis
    by (rule stage_cases) (use assms call_stage(1) in \<open>auto simp: next_staged_def split: if_splits\<close>)
next
  case (call_activate e did v res)
  from assms(2) call_activate show ?thesis
    by (rule activate_cases) (use assms in \<open>auto simp: next_staged_def split: if_splits\<close>)
qed

lemma calls_keep:
  "call\<^sup>*\<^sup>* s t \<Longrightarrow> ok s \<Longrightarrow> next_staged s \<Longrightarrow> ok t \<and> next_staged t \<and> (\<forall>did. version s did \<le> version t did)"
proof (induction rule: rtranclp_induct)
  case (step t u)
  then show ?case using call_keeps [of t u] by (metis add_increasing2 order_refl order_trans zero_le_one)
qed simp

text \<open>Of the requests that expect the same version at most one is activated: once one is, the version has moved on.\<close>

lemma one_winner:
  assumes "ok s" and "next_staged s" and "version s did = v - 1" and "activate e s did v = (t, None)" and "call\<^sup>*\<^sup>* t u"
  shows "snd (activate e' u did v) \<noteq> None"
proof
  assume "snd (activate e' u did v) = None"
  then obtain w where w: "activate e' u did v = (w, None)" by (cases "activate e' u did v") auto
  have t: "version t did = v" "ok t" "next_staged t"
    using activate_done [OF assms(1,4)] call_keeps [OF call_activate [OF assms(4)] assms(1,2)] by auto
  then have u: "ok u" "next_staged u" "v \<le> version u did" using calls_keep [OF assms(5)] by auto
  have "staged u did = Some v" using activate_done [OF u(1) w] by simp
  then show False using u unfolding next_staged_def by force
qed

end

lemma Memory_stage_version: "Memory_version (m\<lparr>m_pending := p\<rparr>) = Memory_version m"
  by (simp add: Memory_version_def fun_eq_iff)

definition Memory_staged :: "memory \<Rightarrow> string \<Rightarrow> int option" where
  "Memory_staged m did = map_option r_Version (gget (m_pending m) did)"

interpretation mem: versioned_routes "\<lambda>_ :: unit. Memory_StageRoute" "\<lambda>_ :: unit. Memory_ActivateRoute" Memory_version Memory_staged "\<lambda>m. True"
proof unfold_locales
  fix m r expected m' assume "Memory_StageRoute m r expected = (m', None)"
  then show "Memory_version m (r_DeviceID r) = expected \<and> Memory_version m' = Memory_version m
    \<and> Memory_staged m' = (Memory_staged m)(r_DeviceID r := Some (r_Version r)) \<and> True"
    by (auto simp: Memory_StageRoute_def Memory_stage_version Memory_staged_def fun_eq_iff split: if_splits)
next
  fix m did v m' assume "Memory_ActivateRoute m did v = (m', None)"
  then show "Memory_staged m did = Some v \<and> Memory_version m' = (Memory_version m)(did := v)
    \<and> Memory_staged m' = (Memory_staged m)(did := None) \<and> True"
    by (auto simp: Memory_ActivateRoute_def Memory_version_def Memory_staged_def fun_eq_iff split: if_splits option.splits)
qed (auto simp: Memory_StageRoute_def Memory_ActivateRoute_def split: if_splits option.splits)

subsection \<open>The tables\<close>

definition pg_staged :: "db \<Rightarrow> string \<Rightarrow> int option" where
  "pg_staged db did = (case filter (is_pending did) (db_routes db) of [] \<Rightarrow> None | r # _ \<Rightarrow> Some (rr_version r))"

definition pg_versions_ok :: "db \<Rightarrow> bool" where
  "pg_versions_ok db \<longleftrightarrow> db_ok db \<and> (\<forall>did. length (filter (is_pending did) (db_routes db)) \<le> 1)"

lemma filter_map_keep:
  assumes "\<And>r. P (h r) = Q r" and "\<And>r. Q r \<Longrightarrow> h r = r"
  shows "filter P (map h rs) = filter Q rs"
  using assms by (induction rs) auto

lemma pending_after_activate:
  "filter (is_pending d) (db_routes (activate_pending e did v (supersede e did db)))
     = filter (\<lambda>r. is_pending d r \<and> (d = did \<longrightarrow> rr_version r \<noteq> v)) (db_routes db)"
proof -
  let ?g = "\<lambda>r. if rr_device_id r = did \<and> rr_status r = RouteActive then r\<lparr>rr_status := route_superseded, rr_updated_at := pe_now e\<rparr> else r"
  let ?f = "\<lambda>r. if activates did v r then r\<lparr>rr_status := RouteActive, rr_updated_at := pe_now e\<rparr> else r"
  have "is_pending d (?f (?g r)) = (is_pending d r \<and> (d = did \<longrightarrow> rr_version r \<noteq> v))" for r :: route_row
    by (auto simp: is_pending_def activates_def route_status_distinct)
  moreover have "?f (?g r) = r" if "is_pending d r \<and> (d = did \<longrightarrow> rr_version r \<noteq> v)" for r :: route_row
    using that by (auto simp: is_pending_def activates_def route_status_distinct)
  ultimately have "filter (is_pending d) (map (\<lambda>r. ?f (?g r)) (db_routes db))
      = filter (\<lambda>r. is_pending d r \<and> (d = did \<longrightarrow> rr_version r \<noteq> v)) (db_routes db)" by (rule filter_map_keep)
  then show ?thesis by (simp add: activate_pending_def supersede_def comp_def)
qed

lemma active_version_cong: "active_routes db' did = active_routes db did \<Longrightarrow> active_version db' did = active_version db did"
  by (simp add: active_version_def)

lemma stage_pending:
  assumes "StageRoute e db r expected = (db', None)"
  shows "filter (is_pending did) (db_routes db') = (if did = r_DeviceID r then [staged_row r] else filter (is_pending did) (db_routes db))"
proof -
  have "filter (is_pending did) (filter (\<lambda>x. \<not> is_pending (r_DeviceID r) x) rs) = filter (is_pending did) rs" if "did \<noteq> r_DeviceID r" for rs
    using that by (induction rs) (auto simp: is_pending_def)
  then show ?thesis by (auto simp: StageRoute_routes(1) [OF assms] is_pending_staged simp del: filter_filter)
qed

lemma activated_pending:
  assumes "pg_versions_ok db" and "ActivateRoute e db did v = (db', None)"
  obtains row where "filter (is_pending did) (db_routes db) = [row]" "rr_version row = v" "filter (activates did v) (db_routes db) = [row]"
proof -
  have one: "length (filter (activates did v) (db_routes db)) = 1"
    using assms(2) by (simp add: ActivateRoute_success activates_supersede)
  then obtain row where row: "filter (activates did v) (db_routes db) = [row]" by (auto simp: length_Suc_conv)
  then have "row \<in> set (filter (activates did v) (db_routes db))" by simp
  then have mem: "row \<in> set (filter (is_pending did) (db_routes db))" "rr_version row = v"
    by (auto simp: activates_def is_pending_def)
  moreover have "length (filter (is_pending did) (db_routes db)) \<le> 1" using assms(1) by (simp add: pg_versions_ok_def)
  ultimately have "filter (is_pending did) (db_routes db) = [row]"
    by (cases "filter (is_pending did) (db_routes db)") auto
  with mem(2) row show thesis by (intro that)
qed

interpretation pg: versioned_routes StageRoute ActivateRoute active_version pg_staged pg_versions_ok
proof unfold_locales
  fix db e r expected db' assume ok: "pg_versions_ok db" and s: "StageRoute e db r expected = (db', None)"
  have "active_routes db' did = active_routes db did" for did
    by (auto simp: active_routes_def StageRoute_routes(1) [OF s] staged_row_def is_pending_def route_status_distinct intro: filter_cong)
  then have "active_version db' = active_version db" by (simp add: fun_eq_iff active_version_def)
  moreover have "pg_staged db' = (pg_staged db)(r_DeviceID r := Some (r_Version r))"
    by (auto simp: fun_eq_iff pg_staged_def stage_pending [OF s] staged_row_def)
  moreover have "pg_versions_ok db'"
    using ok StageRoute_ok [of db e r expected] s by (simp add: pg_versions_ok_def stage_pending [OF s])
  ultimately show "active_version db (r_DeviceID r) = expected \<and> active_version db' = active_version db
      \<and> pg_staged db' = (pg_staged db)(r_DeviceID r := Some (r_Version r)) \<and> pg_versions_ok db'"
    using StageRoute_conflict [OF s] by blast
next
  fix db e did v db' assume ok: "pg_versions_ok db" and a: "ActivateRoute e db did v = (db', None)"
  obtain row where row: "filter (is_pending did) (db_routes db) = [row]" "rr_version row = v" "filter (activates did v) (db_routes db) = [row]"
    using activated_pending [OF ok a] .
  have db': "db' = activate_pending e did v (supersede e did db)" using a by (simp add: ActivateRoute_success)
  have act: "active_routes db' d = (if d = did then [row\<lparr>rr_status := RouteActive, rr_updated_at := pe_now e\<rparr>] else active_routes db d)" for d
    by (simp add: db' active_activate_pending active_supersede activates_supersede row)
  then have "active_version db' = (active_version db)(did := v)" by (simp add: fun_eq_iff active_version_def row)
  moreover have pend: "filter (is_pending d) (db_routes db') = (if d = did then [] else filter (is_pending d) (db_routes db))" for d
  proof -
    have "filter (\<lambda>r. is_pending did r \<and> rr_version r \<noteq> v) (db_routes db) = filter (\<lambda>r. rr_version r \<noteq> v) (filter (is_pending did) (db_routes db))"
      by (simp add: conj_commute)
    then show ?thesis by (simp add: db' pending_after_activate row)
  qed
  then have "pg_staged db' = (pg_staged db)(did := None)" by (simp add: fun_eq_iff pg_staged_def)
  moreover have "pg_versions_ok db'" using ok ActivateRoute_ok [of db e did v] a by (simp add: pg_versions_ok_def pend)
  moreover have "pg_staged db did = Some v" by (simp add: pg_staged_def row)
  ultimately show "pg_staged db did = Some v \<and> active_version db' = (active_version db)(did := v)
      \<and> pg_staged db' = (pg_staged db)(did := None) \<and> pg_versions_ok db'" by blast
qed (simp_all add: StageRoute_def ActivateRoute_def)

subsection \<open>Versions of the tables\<close>

inductive route_call :: "db \<Rightarrow> db \<Rightarrow> bool" where
  "r_Version r = expected + 1 \<Longrightarrow> route_call db (fst (StageRoute e db r expected))"
| "route_call db (fst (ActivateRoute e db did v))"

lemma route_call_call: "route_call = pg.call"
proof (intro ext iffI)
  fix db db' assume "route_call db db'"
  then show "pg.call db db'"
    by cases (use pg.call_stage pg.call_activate prod.collapse in metis)+
next
  fix db db' assume "pg.call db db'"
  then show "route_call db db'" by cases (metis fst_conv route_call.intros)+
qed

text \<open>
  C24: whatever requests stage and activate routes concurrently, each staging the version after the one it expects, an activation raises the version of its
  device by exactly one, no version is activated twice, and no version ever falls.
\<close>

theorem versions_one_winner:
  assumes "pg_versions_ok db" and "\<forall>d v. pg_staged db d = Some v \<longrightarrow> v = active_version db d + 1"
    and "route_call\<^sup>*\<^sup>* db db1" and "ActivateRoute e db1 did v = (db2, None)" and "route_call\<^sup>*\<^sup>* db2 db3"
  shows "active_version db2 did = active_version db1 did + 1 \<and> snd (ActivateRoute e' db3 did v) \<noteq> None
    \<and> (\<forall>d. active_version db d \<le> active_version db3 d)"
proof -
  have 1: "pg_versions_ok db1" "pg.next_staged db1" "active_version db d \<le> active_version db1 d" for d
    using pg.calls_keep [OF assms(3) [unfolded route_call_call] assms(1)] assms(2) by (simp_all add: pg.next_staged_def)
  have act: "pg_staged db1 did = Some v" "active_version db2 = (active_version db1)(did := v)" using pg.activate_done [OF 1(1) assms(4)] by simp_all
  then have v: "v = active_version db1 did + 1" using 1(2) by (simp add: pg.next_staged_def)
  have 2: "pg_versions_ok db2" "pg.next_staged db2" using pg.call_keeps [OF pg.call_activate [OF assms(4)] 1(1,2)] by simp_all
  have 3: "active_version db2 d \<le> active_version db3 d" for d
    using pg.calls_keep [OF assms(5) [unfolded route_call_call] 2] by simp
  have "active_version db1 d \<le> active_version db2 d" for d using act(2) v by simp
  then have "active_version db d \<le> active_version db3 d" for d using 1(3) [of d] 3 [of d] by (meson order_trans)
  moreover have "snd (ActivateRoute e' db3 did v) \<noteq> None"
    using pg.one_winner [OF 1(1,2) _ assms(4) assms(5) [unfolded route_call_call]] v by simp
  ultimately show ?thesis using act(2) v by simp
qed

lemma demo_versions_ok: "pg_versions_ok demo_db" "pg_staged demo_db d = None"
proof -
  have "db_routes demo_db = []" by code_simp
  then show "pg_versions_ok demo_db" "pg_staged demo_db d = None" using demo_db_ok by (simp_all add: pg_versions_ok_def pg_staged_def)
qed

theorem versions_one_winner_witness:
  "\<exists>db1 db2. route_call demo_db db1 \<and> ActivateRoute demo_pg db1 ''d1'' 1 = (db2, None) \<and> active_version db2 ''d1'' = active_version db1 ''d1'' + 1"
proof -
  define db1 where "db1 = fst (StageRoute demo_pg demo_db demo_store_route 0)"
  define db2 where "db2 = fst (ActivateRoute demo_pg db1 ''d1'' 1)"
  have "snd (ActivateRoute demo_pg (fst (StageRoute demo_pg demo_db demo_store_route 0)) ''d1'' 1) = None" by code_simp
  then have a: "ActivateRoute demo_pg db1 ''d1'' 1 = (db2, None)" by (simp add: db1_def db2_def prod_eq_iff)
  have c: "route_call demo_db db1" unfolding db1_def by (rule route_call.intros) (simp add: demo_store_route_def)
  show ?thesis using versions_one_winner [OF demo_versions_ok(1) _ r_into_rtranclp [of route_call, OF c] a rtranclp.rtrancl_refl] a c demo_versions_ok(2)
    by auto
qed

end
