(* ===== verification/PM_Ssconfig.thy ===== *)
theory PM_Ssconfig
  imports PM_Base64
begin

text \<open>
  Shadowsocks credentials, \<open>internal/ssconfig/credentials.go\<close>. The constructor \<open>NewServerConfig\<close> of
  go-shadowsocks2 is a parameter: the error it returns for a method and a password, \<open>None\<close> for
  success. \<open>rand.Read\<close> is a parameter too: what it gives when asked for a number of bytes.
\<close>

type_synonym server_config_fn = "string \<Rightarrow> string \<Rightarrow> go_error option"
type_synonym rand_read = "nat \<Rightarrow> go_error + byte list"

definition LegacyAES256GCM :: string where "LegacyAES256GCM = ''aes-256-gcm''"
definition Blake3AES128GCM :: string where "Blake3AES128GCM = ''2022-blake3-aes-128-gcm''"

lemmas method_defs = LegacyAES256GCM_def Blake3AES128GCM_def

definition SS_Validate :: "server_config_fn \<Rightarrow> string \<Rightarrow> string \<Rightarrow> go_error option" where
  "SS_Validate newServerConfig method password =
     (if method \<noteq> LegacyAES256GCM \<and> method \<noteq> Blake3AES128GCM
      then Some (ErrMsg (''unsupported Shadowsocks method '' @ go_quote method))
      else if password = []
      then Some (ErrMsg ''Shadowsocks password is required'')
      else if method = LegacyAES256GCM \<and> length password < 8
      then Some (ErrMsg ''legacy Shadowsocks password must contain at least 8 characters'')
      else case newServerConfig method password of
          Some err \<Rightarrow> Some (ErrWrap (''invalid '' @ method @ '' password'') err)
        | None \<Rightarrow> None)"

definition GeneratePassword :: "rand_read \<Rightarrow> string \<Rightarrow> go_error + string" where
  "GeneratePassword rand_Read method =
     (if method = Blake3AES128GCM then
        (case rand_Read 16 of Inl e \<Rightarrow> Inl e | Inr b \<Rightarrow> Inr (StdEncoding_EncodeToString b))
      else if method \<noteq> LegacyAES256GCM then
        Inl (ErrMsg (''unsupported Shadowsocks method '' @ go_quote method))
      else
        (case rand_Read 18 of Inl e \<Rightarrow> Inl e | Inr b \<Rightarrow> Inr (RawURLEncoding_EncodeToString b)))"

text \<open>
  What the program relies on: \<open>rand.Read\<close> fills the buffer it is given, and go-shadowsocks2 takes any
  non-empty password for the legacy method and any Base64 text of a 16-byte key for the 2022 one.
\<close>

definition rand_fills :: "rand_read \<Rightarrow> bool" where
  "rand_fills rnd \<longleftrightarrow> (\<forall>n b. rnd n = Inr b \<longrightarrow> length b = n)"

definition accepts_documented_keys :: "server_config_fn \<Rightarrow> bool" where
  "accepts_documented_keys nsc \<longleftrightarrow>
     (\<forall>p. p \<noteq> [] \<longrightarrow> nsc LegacyAES256GCM p = None)
     \<and> (\<forall>p key. StdEncoding_DecodeString p = Inr key \<and> length key = 16 \<longrightarrow> nsc Blake3AES128GCM p = None)"

lemma Validate_None_iff:
  "SS_Validate nsc m p = None \<longleftrightarrow>
     (m = LegacyAES256GCM \<and> 8 \<le> length p \<or> m = Blake3AES128GCM \<and> p \<noteq> []) \<and> nsc m p = None"
  by (auto simp: SS_Validate_def method_defs split: option.splits if_splits)

lemma Validate_NoneD: "SS_Validate nsc m p = None \<Longrightarrow> m \<noteq> [] \<and> p \<noteq> [] \<and> nsc m p = None"
  by (auto simp: Validate_None_iff method_defs)

text \<open>
  A password that the control plane generates for a device always passes the validation that
  every gateway applies to it, for both methods.
\<close>

theorem generated_password_is_valid:
  assumes "rand_fills rnd" and "accepts_documented_keys nsc" and "GeneratePassword rnd m = Inr p"
  shows "SS_Validate nsc m p = None"
proof (cases "m = Blake3AES128GCM")
  case True
  with assms(3) obtain b where b: "rnd 16 = Inr b" and p: "p = StdEncoding_EncodeToString b"
    by (auto simp: GeneratePassword_def split: sum.splits)
  from b assms(1) have "length b = 16" by (simp add: rand_fills_def)
  moreover have d: "StdEncoding_DecodeString p = Inr b" by (simp add: p std_roundtrip)
  ultimately have "nsc m p = None" using assms(2) True by (auto simp: accepts_documented_keys_def)
  moreover have "p \<noteq> []" using d \<open>length b = 16\<close> by (auto simp: StdEncoding_DecodeString_def)
  ultimately show ?thesis using True by (simp add: Validate_None_iff)
next
  case False
  with assms(3) obtain b where b: "rnd 18 = Inr b" and p: "p = RawURLEncoding_EncodeToString b"
    and m: "m = LegacyAES256GCM"
    by (auto simp: GeneratePassword_def split: sum.splits if_splits)
  from b assms(1) have "length b = 18" by (simp add: rand_fills_def)
  then have "length p = 24" by (simp add: p length_raw_url)
  then have "p \<noteq> []" and "8 \<le> length p" by auto
  then show ?thesis using assms(2) m by (simp add: Validate_None_iff accepts_documented_keys_def)
qed

text \<open>A source of zero bytes and a constructor that accepts everything satisfy the hypotheses.\<close>

definition zero_rand :: rand_read where
  "zero_rand n = Inr (replicate n 0)"

theorem generated_password_is_valid_witness:
  "rand_fills zero_rand \<and> accepts_documented_keys (\<lambda>_ _. None)
     \<and> GeneratePassword zero_rand LegacyAES256GCM = Inr ''AAAAAAAAAAAAAAAAAAAAAAAA''
     \<and> SS_Validate (\<lambda>_ _. None) LegacyAES256GCM ''AAAAAAAAAAAAAAAAAAAAAAAA'' = None"
proof -
  have r: "rand_fills zero_rand" by (simp add: rand_fills_def zero_rand_def)
  have a: "accepts_documented_keys (\<lambda>_ _. None)" by (simp add: accepts_documented_keys_def)
  have g: "GeneratePassword zero_rand LegacyAES256GCM = Inr ''AAAAAAAAAAAAAAAAAAAAAAAA''"
    by code_simp
  show ?thesis using generated_password_is_valid [OF r a g] r a g by simp
qed

end
