(* ===== verification/PM_Table.thy ===== *)
theory PM_Table
  imports PM_Model
begin

text \<open>
  The routing table of a gateway, \<open>internal/dataplane/table.go\<close>. The mutex makes every method
  atomic, so a method is a function on the record of the table's fields and an execution is a
  sequence of such functions.
\<close>

section \<open>State and operations\<close>

record table =
  t_active :: "(string, device_route) gomap"
  t_byUsername :: "(string, string) gomap"
  t_pending :: "(string, device_route) gomap"
  t_loaded :: bool

definition NewTable :: table where
  "NewTable = \<lparr>t_active = [], t_byUsername = [], t_pending = [], t_loaded = False\<rparr>"

fun load_routes :: "device_route list \<Rightarrow> table \<Rightarrow> table" where
  "load_routes [] t = t"
| "load_routes (r # rs) t =
     load_routes rs (t\<lparr>t_active := gput (r_DeviceID r) r (t_active t),
                       t_byUsername := gput (r_DeviceUsername r) (r_DeviceID r) (t_byUsername t)\<rparr>)"

definition Table_Load :: "table \<Rightarrow> device_route list \<Rightarrow> table" where
  "Table_Load t routes =
     (load_routes routes (t\<lparr>t_active := [], t_byUsername := []\<rparr>))\<lparr>t_pending := [], t_loaded := True\<rparr>"

definition Table_Prepare :: "table \<Rightarrow> device_route \<Rightarrow> table \<times> go_error option" where
  "Table_Prepare t r =
     (case gget (t_active t) (r_DeviceID r) of
        Some current \<Rightarrow>
          if r_Version r \<le> r_Version current
          then (t, Some (ErrMsg ''route version is not newer''))
          else (t\<lparr>t_pending := gput (r_DeviceID r) r (t_pending t)\<rparr>, None)
      | None \<Rightarrow> (t\<lparr>t_pending := gput (r_DeviceID r) r (t_pending t)\<rparr>, None))"

definition Table_Activate :: "table \<Rightarrow> device_route \<Rightarrow> table \<times> go_error option" where
  "Table_Activate t r =
     (case gget (t_pending t) (r_DeviceID r) of
        None \<Rightarrow> (t, Some (ErrMsg ''route was not prepared''))
      | Some pending \<Rightarrow>
          if r_Version pending \<noteq> r_Version r
          then (t, Some (ErrMsg ''route was not prepared''))
          else let p = pending\<lparr>r_Status := RouteActive\<rparr> in
            (t\<lparr>t_active := gput (r_DeviceID r) p (t_active t),
               t_byUsername := gput (r_DeviceUsername p) (r_DeviceID p) (t_byUsername t),
               t_pending := gdel (r_DeviceID r) (t_pending t)\<rparr>, None))"

definition Table_UpdateDevice :: "table \<Rightarrow> device \<Rightarrow> table \<times> go_error option" where
  "Table_UpdateDevice t d =
     (case gget (t_active t) (d_ID d) of
        None \<Rightarrow> (t, None)
      | Some r \<Rightarrow>
          let r' = r\<lparr>r_DeviceUsername := d_Username d, r_PasswordHash := d_PasswordHash d,
                     r_IngressPort := d_IngressPort d, r_IngressMethod := d_IngressMethod d,
                     r_IngressPassword := d_IngressPassword d, r_Ingresses := d_Ingresses d\<rparr> in
          (t\<lparr>t_active := gput (d_ID d) r' (t_active t),
             t_byUsername := gput (d_Username d) (d_ID d) (gdel (r_DeviceUsername r) (t_byUsername t))\<rparr>,
           None))"

definition Table_ByUsername :: "table \<Rightarrow> string \<Rightarrow> device_route option" where
  "Table_ByUsername t username =
     (case gget (t_byUsername t) username of None \<Rightarrow> None | Some did \<Rightarrow> gget (t_active t) did)"

definition Table_ByDevice :: "table \<Rightarrow> string \<Rightarrow> device_route option" where
  "Table_ByDevice t did = gget (t_active t) did"

definition Table_Snapshot :: "table \<Rightarrow> device_route list" where
  "Table_Snapshot t = map snd (t_active t)"

definition Table_Loaded :: "table \<Rightarrow> bool" where
  "Table_Loaded t = t_loaded t"

fun max_version :: "device_route list \<Rightarrow> int \<Rightarrow> int" where
  "max_version [] m = m"
| "max_version (r # rs) m = max_version rs (if r_Version r > m then r_Version r else m)"

definition Table_MaxVersion :: "table \<Rightarrow> int" where
  "Table_MaxVersion t = max_version (map snd (t_active t)) 0"

lemmas table_ops = Table_Load_def Table_Prepare_def Table_Activate_def Table_UpdateDevice_def

section \<open>The table invariant\<close>

text \<open>
  Keys are distinct, an entry sits under the identifier of the route it holds, and a prepared
  route is newer than the active route of its device.
\<close>

definition table_wf :: "table \<Rightarrow> bool" where
  "table_wf t \<longleftrightarrow> gwf (t_active t) \<and> gwf (t_byUsername t) \<and> gwf (t_pending t)
     \<and> (\<forall>did r. gget (t_active t) did = Some r \<longrightarrow> r_DeviceID r = did)
     \<and> (\<forall>did r. gget (t_pending t) did = Some r \<longrightarrow> r_DeviceID r = did)
     \<and> (\<forall>did p a. gget (t_pending t) did = Some p \<longrightarrow> gget (t_active t) did = Some a \<longrightarrow>
          r_Version a < r_Version p)"

lemma table_wfI:
  assumes "gwf (t_active t)" "gwf (t_byUsername t)" "gwf (t_pending t)"
    and "\<And>did r. gget (t_active t) did = Some r \<Longrightarrow> r_DeviceID r = did"
    and "\<And>did r. gget (t_pending t) did = Some r \<Longrightarrow> r_DeviceID r = did"
    and "\<And>did p a. gget (t_pending t) did = Some p \<Longrightarrow> gget (t_active t) did = Some a \<Longrightarrow>
          r_Version a < r_Version p"
  shows "table_wf t"
  using assms by (simp add: table_wf_def)

lemma table_wfD:
  assumes "table_wf t"
  shows "gwf (t_active t)" "gwf (t_byUsername t)" "gwf (t_pending t)"
    and "gget (t_active t) did = Some r \<Longrightarrow> r_DeviceID r = did"
    and "gget (t_pending t) did = Some r \<Longrightarrow> r_DeviceID r = did"
    and "gget (t_pending t) did = Some p \<Longrightarrow> gget (t_active t) did = Some a \<Longrightarrow>
          r_Version a < r_Version p"
  using assms by (simp_all add: table_wf_def)

lemma table_wf_New: "table_wf NewTable"
  by (rule table_wfI) (simp_all add: NewTable_def)

lemma load_routes_inv:
  assumes "gwf (t_active t)" "gwf (t_byUsername t)"
    and "\<And>did r. gget (t_active t) did = Some r \<Longrightarrow> r_DeviceID r = did"
  shows "gwf (t_active (load_routes rs t)) \<and> gwf (t_byUsername (load_routes rs t))
     \<and> (\<forall>did r. gget (t_active (load_routes rs t)) did = Some r \<longrightarrow> r_DeviceID r = did)"
  using assms
proof (induction rs arbitrary: t)
  case (Cons r rs)
  show ?case
    by (simp only: load_routes.simps) (rule Cons.IH; auto simp: Cons.prems split: if_splits)
qed simp

lemma table_wf_Load: "table_wf (Table_Load t rs)"
proof -
  have "gwf (t_active (load_routes rs (t\<lparr>t_active := [], t_byUsername := []\<rparr>)))
     \<and> gwf (t_byUsername (load_routes rs (t\<lparr>t_active := [], t_byUsername := []\<rparr>)))
     \<and> (\<forall>did r. gget (t_active (load_routes rs (t\<lparr>t_active := [], t_byUsername := []\<rparr>))) did = Some r
          \<longrightarrow> r_DeviceID r = did)"
    by (rule load_routes_inv) simp_all
  then show ?thesis
    by (intro table_wfI) (simp_all add: Table_Load_def)
qed

lemma table_wf_Prepare: "table_wf t \<Longrightarrow> table_wf (fst (Table_Prepare t r))"
  by (auto simp: table_wf_def Table_Prepare_def split: option.splits if_splits)

lemma table_wf_Activate: "table_wf t \<Longrightarrow> table_wf (fst (Table_Activate t r))"
  by (auto simp: table_wf_def Table_Activate_def Let_def split: option.splits if_splits)

lemma table_wf_UpdateDevice: "table_wf t \<Longrightarrow> table_wf (fst (Table_UpdateDevice t d))"
  by (auto simp: table_wf_def Table_UpdateDevice_def Let_def split: option.splits if_splits)

text \<open>Every method call on the table, as a step.\<close>

inductive table_step :: "table \<Rightarrow> table \<Rightarrow> bool" where
  load: "table_step t (Table_Load t rs)"
| prepare: "table_step t (fst (Table_Prepare t r))"
| activate: "table_step t (fst (Table_Activate t r))"
| update: "table_step t (fst (Table_UpdateDevice t d))"

interpretation table_inv: invariant_of "\<lambda>t. t = NewTable" table_step table_wf
proof unfold_locales
  show "\<And>s. s = NewTable \<Longrightarrow> table_wf s" by (simp add: table_wf_New)
  show "\<And>s t. table_wf s \<Longrightarrow> table_step s t \<Longrightarrow> table_wf t"
    by (auto elim!: table_step.cases
        intro: table_wf_Load table_wf_Prepare table_wf_Activate table_wf_UpdateDevice)
qed

text \<open>
  In every table that the methods can produce from a new one, in any order and with any
  arguments, active and pending entries are filed under their own device and a pending route is
  strictly newer than the active route it is going to replace.
\<close>

theorem table_reachable_wf:
  assumes "reach (\<lambda>t. t = NewTable) table_step t"
  shows "table_wf t"
  using assms by (rule table_inv.reach_inv)

theorem table_reachable_wf_witness:
  "let t = fst (Table_Prepare NewTable (zero_route\<lparr>r_DeviceID := ''d'', r_Version := 1\<rparr>)) in
   reach (\<lambda>t. t = NewTable) table_step t \<and> table_wf t"
proof -
  let ?r = "zero_route\<lparr>r_DeviceID := ''d'', r_Version := 1\<rparr>"
  have "reach (\<lambda>t. t = NewTable) table_step (fst (Table_Prepare NewTable ?r))"
    by (rule reach.reach_step [OF reach.reach_init]) (auto intro: table_step.prepare)
  then show ?thesis using table_reachable_wf by (auto simp: Let_def)
qed


section \<open>Behaviour of the operations\<close>

lemma Prepare_cases:
  "Table_Prepare t r =
     (if \<exists>a. gget (t_active t) (r_DeviceID r) = Some a \<and> r_Version r \<le> r_Version a
      then (t, Some (ErrMsg ''route version is not newer''))
      else (t\<lparr>t_pending := gput (r_DeviceID r) r (t_pending t)\<rparr>, None))"
  by (auto simp: Table_Prepare_def split: option.splits)

lemma Prepare_keeps_active [simp]: "t_active (fst (Table_Prepare t r)) = t_active t"
  by (simp add: Prepare_cases)

lemma Prepare_keeps_loaded [simp]: "t_loaded (fst (Table_Prepare t r)) = t_loaded t"
  by (simp add: Prepare_cases)

lemma Activate_keeps_loaded [simp]: "t_loaded (fst (Table_Activate t r)) = t_loaded t"
  by (simp add: Table_Activate_def Let_def split: option.splits)

lemma UpdateDevice_keeps_loaded [simp]: "t_loaded (fst (Table_UpdateDevice t d)) = t_loaded t"
  by (simp add: Table_UpdateDevice_def Let_def split: option.splits)

lemma Activate_active:
  "gget (t_active (fst (Table_Activate t r))) did =
     (case gget (t_pending t) (r_DeviceID r) of
        None \<Rightarrow> gget (t_active t) did
      | Some p \<Rightarrow> if r_Version p = r_Version r \<and> did = r_DeviceID r
                  then Some (p\<lparr>r_Status := RouteActive\<rparr>) else gget (t_active t) did)"
  by (auto simp: Table_Activate_def Let_def split: option.splits)

lemma UpdateDevice_active:
  "gget (t_active (fst (Table_UpdateDevice t d))) did =
     (if did = d_ID d
      then map_option (\<lambda>r. r\<lparr>r_DeviceUsername := d_Username d, r_PasswordHash := d_PasswordHash d,
             r_IngressPort := d_IngressPort d, r_IngressMethod := d_IngressMethod d,
             r_IngressPassword := d_IngressPassword d, r_Ingresses := d_Ingresses d\<rparr>)
             (gget (t_active t) did)
      else gget (t_active t) did)"
  by (auto simp: Table_UpdateDevice_def Let_def split: option.splits)

text \<open>
  a route that \<open>Prepare\<close> accepts is exactly what the following \<open>Activate\<close> of the same route
  installs: the device resolves to it with status active, nothing stays pending for the device, and
  no other device's route or pending route changes.
\<close>

theorem prepare_then_activate:
  assumes "Table_Prepare t r = (t', None)"
  shows "\<exists>t''. Table_Activate t' r = (t'', None)
     \<and> Table_ByDevice t'' (r_DeviceID r) = Some (r\<lparr>r_Status := RouteActive\<rparr>)
     \<and> gget (t_pending t'') (r_DeviceID r) = None
     \<and> (\<forall>did. did \<noteq> r_DeviceID r \<longrightarrow>
          Table_ByDevice t'' did = Table_ByDevice t did \<and> gget (t_pending t'') did = gget (t_pending t) did)"
  using assms by (auto simp: Prepare_cases Table_Activate_def Let_def Table_ByDevice_def split: if_splits)

theorem prepare_then_activate_witness:
  "let r = zero_route\<lparr>r_DeviceID := ''d'', r_Version := 1\<rparr>;
       t' = fst (Table_Prepare NewTable r) in
   Table_Prepare NewTable r = (t', None)
   \<and> (\<exists>t''. Table_Activate t' r = (t'', None)
        \<and> Table_ByDevice t'' ''d'' = Some (r\<lparr>r_Status := RouteActive\<rparr>))"
proof -
  let ?r = "zero_route\<lparr>r_DeviceID := ''d'', r_Version := 1\<rparr>"
  have h: "Table_Prepare NewTable ?r = (fst (Table_Prepare NewTable ?r), None)"
    by (simp add: Table_Prepare_def NewTable_def)
  show ?thesis
    using prepare_then_activate [OF h] h by (auto simp: Let_def)
qed

text \<open>The steps that the control stream causes between two snapshots.\<close>

inductive deploy_step :: "table \<Rightarrow> table \<Rightarrow> bool" where
  dprepare: "deploy_step t (fst (Table_Prepare t r))"
| dactivate: "deploy_step t (fst (Table_Activate t r))"
| dupdate: "deploy_step t (fst (Table_UpdateDevice t d))"

lemma deploy_step_wf: "deploy_step t t' \<Longrightarrow> table_wf t \<Longrightarrow> table_wf t'"
  by (auto elim!: deploy_step.cases intro: table_wf_Prepare table_wf_Activate table_wf_UpdateDevice)

lemma deploy_step_version:
  assumes "deploy_step t t'" and "table_wf t" and "gget (t_active t) did = Some a"
  shows "\<exists>a'. gget (t_active t') did = Some a' \<and> r_Version a \<le> r_Version a'"
  using assms(1)
proof cases
  case (dprepare r)
  then show ?thesis using assms(3) by simp
next
  case (dactivate r)
  with assms table_wfD(6) [OF assms(2)] show ?thesis
    by (fastforce simp: Activate_active less_imp_le split: option.splits)
next
  case (dupdate d)
  with assms(3) show ?thesis by (auto simp: UpdateDevice_active)
qed

text \<open>
  C13: between two snapshots the version under which a device is routed never goes back, whatever
  frames arrive and in whatever order, and a routed device never becomes unrouted.
\<close>

theorem active_version_monotone:
  assumes "deploy_step\<^sup>*\<^sup>* t t'" and "table_wf t" and "Table_ByDevice t did = Some a"
  shows "\<exists>a'. Table_ByDevice t' did = Some a' \<and> r_Version a \<le> r_Version a'"
proof -
  have "table_wf t' \<and> (\<exists>a'. gget (t_active t') did = Some a' \<and> r_Version a \<le> r_Version a')"
    using assms(1)
  proof (induction rule: rtranclp_induct)
    case base
    with assms(2,3) show ?case by (simp add: Table_ByDevice_def)
  next
    case (step u v)
    then show ?case by (meson deploy_step_version deploy_step_wf order_trans)
  qed
  then show ?thesis by (simp add: Table_ByDevice_def)
qed

theorem active_version_monotone_witness:
  "let r1 = zero_route\<lparr>r_DeviceID := ''d'', r_Version := 1\<rparr>;
       t = Table_Load NewTable [r1];
       t' = fst (Table_Prepare t (r1\<lparr>r_Version := 2\<rparr>)) in
   deploy_step\<^sup>*\<^sup>* t t' \<and> table_wf t \<and> Table_ByDevice t ''d'' = Some r1
   \<and> (\<exists>a'. Table_ByDevice t' ''d'' = Some a' \<and> 1 \<le> r_Version a')"
proof -
  let ?r1 = "zero_route\<lparr>r_DeviceID := ''d'', r_Version := 1\<rparr>"
  let ?t = "Table_Load NewTable [?r1]"
  let ?t' = "fst (Table_Prepare ?t (?r1\<lparr>r_Version := 2\<rparr>))"
  have s: "deploy_step\<^sup>*\<^sup>* ?t ?t'" by (rule r_into_rtranclp) (rule deploy_step.dprepare)
  have b: "Table_ByDevice ?t ''d'' = Some ?r1" by (simp add: Table_ByDevice_def Table_Load_def)
  show ?thesis
    using active_version_monotone [OF s table_wf_Load b] s b table_wf_Load [of NewTable "[?r1]"]
    by (simp add: Let_def)
qed

subsection \<open>Snapshots\<close>

lemma load_routes_active:
  "gget (t_active (load_routes rs t)) = gget (t_active t) ++ gget (rev (map (\<lambda>r. (r_DeviceID r, r)) rs))"
proof (induction rs arbitrary: t)
  case (Cons r rs)
  then show ?case by (auto simp: map_add_def fun_eq_iff split: option.splits)
qed simp

lemma Load_active:
  "gget (t_active (Table_Load t rs)) = gget (rev (map (\<lambda>r. (r_DeviceID r, r)) rs))"
  by (simp add: Table_Load_def load_routes_active)

lemma table_entries_keyed:
  "table_wf t \<Longrightarrow> map (\<lambda>r. (r_DeviceID r, r)) (Table_Snapshot t) = t_active t"
  by (auto simp: Table_Snapshot_def table_wf_def gget_iff_mem comp_def intro!: map_idI)

text \<open>
  a table loaded from the snapshot of another, in whatever order the snapshot lists the
  routes, routes every device as the other one does; it is marked loaded and has nothing pending.
\<close>

theorem load_of_snapshot:
  assumes "table_wf t" and "mset rs = mset (Table_Snapshot t)"
  shows "Table_ByDevice (Table_Load t0 rs) did = Table_ByDevice t did
     \<and> Table_Loaded (Table_Load t0 rs) \<and> t_pending (Table_Load t0 rs) = []"
proof -
  let ?ent = "\<lambda>r. (r_DeviceID r, r)"
  have "mset (rev (map ?ent rs)) = mset (t_active t)"
    using assms by (metis mset_map mset_rev table_entries_keyed)
  then have "gget (rev (map ?ent rs)) = gget (t_active t)"
    using table_wfD(1) [OF assms(1)] by (rule gget_order)
  then show ?thesis
    by (simp add: Table_ByDevice_def Load_active Table_Loaded_def) (simp add: Table_Load_def)
qed

theorem load_of_snapshot_witness:
  "let r1 = zero_route\<lparr>r_DeviceID := ''a'', r_Version := 4\<rparr>;
       r2 = zero_route\<lparr>r_DeviceID := ''b'', r_Version := 7\<rparr>;
       t = Table_Load NewTable [r1, r2] in
   table_wf t \<and> mset [r2, r1] = mset (Table_Snapshot t)
   \<and> Table_ByDevice (Table_Load NewTable [r2, r1]) ''b'' = Table_ByDevice t ''b''
   \<and> Table_ByDevice t ''b'' = Some r2"
proof -
  let ?r1 = "zero_route\<lparr>r_DeviceID := ''a'', r_Version := 4\<rparr>"
  let ?r2 = "zero_route\<lparr>r_DeviceID := ''b'', r_Version := 7\<rparr>"
  let ?t = "Table_Load NewTable [?r1, ?r2]"
  have m: "mset [?r2, ?r1] = mset (Table_Snapshot ?t)"
    by (simp add: Table_Snapshot_def Table_Load_def)
  have "Table_ByDevice ?t ''b'' = Some ?r2"
    by (simp add: Table_ByDevice_def Table_Load_def)
  then show ?thesis
    using load_of_snapshot [OF table_wf_Load m, of NewTable "''b''"] m
    by (simp add: Let_def table_wf_Load del: mset.simps)
qed

subsection \<open>Lookup by user name\<close>

text \<open>
  The control plane gives a device its own identifier as user name (\<open>createDevice\<close>). When all
  routes and devices that reach the table are of that kind, the index by user name and the
  index by device agree.
\<close>

definition route_named :: "device_route \<Rightarrow> bool" where
  "route_named r \<longleftrightarrow> r_DeviceUsername r = r_DeviceID r"

inductive named_step :: "table \<Rightarrow> table \<Rightarrow> bool" where
  nload: "list_all route_named rs \<Longrightarrow> named_step t (Table_Load t rs)"
| nprepare: "route_named r \<Longrightarrow> named_step t (fst (Table_Prepare t r))"
| nactivate: "named_step t (fst (Table_Activate t r))"
| nupdate: "d_Username d = d_ID d \<Longrightarrow> named_step t (fst (Table_UpdateDevice t d))"

definition names_agree :: "table \<Rightarrow> bool" where
  "names_agree t \<longleftrightarrow> table_wf t
     \<and> (\<forall>did r. gget (t_active t) did = Some r \<longrightarrow> route_named r)
     \<and> (\<forall>did r. gget (t_pending t) did = Some r \<longrightarrow> route_named r)
     \<and> (\<forall>u. gget (t_byUsername t) u = (if gget (t_active t) u = None then None else Some u))"

lemma load_routes_named:
  assumes "list_all route_named rs"
    and "\<forall>did r. gget (t_active t) did = Some r \<longrightarrow> route_named r"
    and "\<forall>u. gget (t_byUsername t) u = (if gget (t_active t) u = None then None else Some u)"
  shows "(\<forall>did r. gget (t_active (load_routes rs t)) did = Some r \<longrightarrow> route_named r)
     \<and> (\<forall>u. gget (t_byUsername (load_routes rs t)) u =
            (if gget (t_active (load_routes rs t)) u = None then None else Some u))"
  using assms
proof (induction rs arbitrary: t)
  case (Cons r rs)
  show ?case
    by (simp only: load_routes.simps)
      (rule Cons.IH; use Cons.prems in \<open>auto simp: route_named_def split: if_splits\<close>)
qed simp

lemma names_agree_Load: "list_all route_named rs \<Longrightarrow> names_agree (Table_Load t rs)"
  using load_routes_named [of rs "t\<lparr>t_active := [], t_byUsername := []\<rparr>"]
  by (simp add: names_agree_def table_wf_Load) (simp add: Table_Load_def)

lemma names_agree_Prepare:
  "names_agree t \<Longrightarrow> route_named r \<Longrightarrow> names_agree (fst (Table_Prepare t r))"
  by (auto simp: names_agree_def table_wf_Prepare) (auto simp: Prepare_cases split: if_splits)

lemma names_agree_Activate:
  assumes "names_agree t"
  shows "names_agree (fst (Table_Activate t r))"
proof (cases "gget (t_pending t) (r_DeviceID r)")
  case None
  then show ?thesis using assms by (simp add: Table_Activate_def)
next
  case (Some p)
  show ?thesis
  proof (cases "r_Version p = r_Version r")
    case True
    let ?t = "fst (Table_Activate t r)"
    have p: "route_named p" "r_DeviceID p = r_DeviceID r" using assms Some by (auto simp: names_agree_def table_wf_def)
    then have t: "t_active ?t = gput (r_DeviceID r) (p\<lparr>r_Status := RouteActive\<rparr>) (t_active t)" "t_pending ?t = gdel (r_DeviceID r) (t_pending t)"
      "t_byUsername ?t = gput (r_DeviceID r) (r_DeviceID r) (t_byUsername t)"
      using Some True by (simp_all add: Table_Activate_def Let_def route_named_def)
    have "table_wf ?t" using assms by (simp add: names_agree_def table_wf_Activate)
    then show ?thesis using assms p(1) unfolding names_agree_def t by (simp add: route_named_def)
  qed (use Some assms in \<open>simp add: Table_Activate_def\<close>)
qed

lemma names_agree_UpdateDevice:
  "names_agree t \<Longrightarrow> d_Username d = d_ID d \<Longrightarrow> names_agree (fst (Table_UpdateDevice t d))"
  unfolding names_agree_def
  by (auto simp: table_wf_UpdateDevice)
    (auto simp: Table_UpdateDevice_def Let_def route_named_def table_wf_def split: option.splits if_splits)

interpretation names_inv: invariant_of "\<lambda>t. t = NewTable" named_step names_agree
proof unfold_locales
  show "\<And>s. s = NewTable \<Longrightarrow> names_agree s"
    using table_wf_New by (simp add: names_agree_def) (simp add: NewTable_def)
  show "\<And>s t. names_agree s \<Longrightarrow> named_step s t \<Longrightarrow> names_agree t"
    by (auto elim!: named_step.cases intro: names_agree_Load names_agree_Prepare
        names_agree_Activate names_agree_UpdateDevice)
qed

text \<open>
  for every history of table calls whose routes and devices carry the device identifier as user
  name, looking a route up by user name is the same function as looking it up by device.
\<close>

theorem by_username_is_by_device:
  assumes "reach (\<lambda>t. t = NewTable) named_step t"
  shows "Table_ByUsername t u = Table_ByDevice t u"
  using names_inv.reach_inv [OF assms]
  by (auto simp: names_agree_def Table_ByUsername_def Table_ByDevice_def)

theorem by_username_is_by_device_witness:
  "let t = fst (Table_Prepare NewTable (zero_route\<lparr>r_DeviceID := ''d'', r_DeviceUsername := ''d''\<rparr>)) in
   reach (\<lambda>t. t = NewTable) named_step t \<and> Table_ByUsername t ''d'' = Table_ByDevice t ''d''"
proof -
  let ?r = "zero_route\<lparr>r_DeviceID := ''d'', r_DeviceUsername := ''d''\<rparr>"
  have "reach (\<lambda>t. t = NewTable) named_step (fst (Table_Prepare NewTable ?r))"
    by (rule reach.reach_step [OF reach.reach_init])
      (auto intro!: named_step.nprepare simp: route_named_def)
  then show ?thesis using by_username_is_by_device by (auto simp: Let_def)
qed

subsection \<open>The version a gateway reports\<close>

lemma max_version_fold: "max_version rs m = fold max (map r_Version rs) m"
  by (induction rs arbitrary: m) (auto simp: max_def)

text \<open>
  the applied version that a heartbeat reports is the greatest version among the active
  routes, and zero for a table without active routes.
\<close>

theorem max_version_exact:
  "Table_MaxVersion t = Max (insert 0 (r_Version ` set (Table_Snapshot t)))"
proof -
  have "Table_MaxVersion t = fold max (map r_Version (Table_Snapshot t)) 0"
    by (simp add: Table_MaxVersion_def max_version_fold Table_Snapshot_def)
  also have "\<dots> = Max (set (0 # map r_Version (Table_Snapshot t)))"
    by (simp only: Max.set_eq_fold)
  finally show ?thesis by simp
qed

end
