(* ===== verification/PM_Connections.thy ===== *)
theory PM_Connections
  imports PM_Prelude
begin

text \<open>
  The registry of live connections of a gateway, \<open>internal/dataplane/connections.go\<close>: \<open>Track\<close> files
  the cancel function of a connection and returns the closure that removes it, \<open>Interrupt\<close> calls
  every cancel function of a device. A cancel function is named by a number, and the closure that
  \<open>Track\<close> returns is \<open>untrack\<close> at the device and the connection number it captured. The counters
  keep their width: \<open>next\<close> is a \<open>uint64\<close>, \<open>total\<close> an \<open>int64\<close>.
\<close>

section \<open>State and operations\<close>

type_synonym cancel_func = nat

record connections =
  c_next :: u64
  c_byDevice :: "(string, (u64, cancel_func) gomap) gomap"
  c_total :: int

definition NewConnections :: connections where
  "NewConnections = \<lparr>c_next = 0, c_byDevice = [], c_total = 0\<rparr>"

text \<open>Reading a missing key of a map of maps gives a nil map, which reads as empty.\<close>

definition device_conns :: "connections \<Rightarrow> string \<Rightarrow> (u64, cancel_func) gomap" where
  "device_conns c dev = (case gget (c_byDevice c) dev of None \<Rightarrow> [] | Some m \<Rightarrow> m)"

definition Track :: "connections \<Rightarrow> string \<Rightarrow> cancel_func \<Rightarrow> connections \<times> u64" where
  "Track c dev cancel =
     (let n = c_next c + 1 in
      (c\<lparr>c_next := n,
         c_byDevice := gput dev (gput n cancel (device_conns c dev)) (c_byDevice c),
         c_total := s64 (c_total c + 1)\<rparr>, n))"

definition untrack :: "connections \<Rightarrow> string \<Rightarrow> u64 \<Rightarrow> connections" where
  "untrack c dev n =
     (let c1 = (if gget (device_conns c dev) n \<noteq> None
                then c\<lparr>c_byDevice := gput dev (gdel n (device_conns c dev)) (c_byDevice c),
                       c_total := s64 (c_total c - 1)\<rparr>
                else c)
      in if device_conns c1 dev = [] then c1\<lparr>c_byDevice := gdel dev (c_byDevice c1)\<rparr> else c1)"

text \<open>The cancel functions that are called, and the number returned.\<close>

definition Interrupt :: "connections \<Rightarrow> string \<Rightarrow> cancel_func list \<times> int" where
  "Interrupt c dev = (map snd (device_conns c dev), int (length (device_conns c dev)))"

definition Total :: "connections \<Rightarrow> int" where
  "Total c = c_total c"

section \<open>Counting\<close>

definition conn_count :: "(string, (u64, cancel_func) gomap) gomap \<Rightarrow> nat" where
  "conn_count by_dev = sum_list (map (\<lambda>e. length (snd e)) by_dev)"

lemma conn_count_put:
  "conn_count (gput d m b) + (case gget b d of None \<Rightarrow> 0 | Some m0 \<Rightarrow> length m0) = conn_count b + length m"
  by (induction b) (auto simp: conn_count_def split: option.splits)

lemma conn_count_del:
  "gwf b \<Longrightarrow> conn_count (gdel d b) + (case gget b d of None \<Rightarrow> 0 | Some m0 \<Rightarrow> length m0) = conn_count b"
  by (induction b) (auto simp: conn_count_def gwf_def map_of_eq_None_iff split: option.splits)

lemma length_put: "length (gput k v m) = (if gget m k = None then Suc (length m) else length m)"
  by (induction m) auto

lemma length_del: "gwf m \<Longrightarrow> length (gdel k m) = (if gget m k = None then length m else length m - 1)"
proof (induction m)
  case (Cons e m)
  obtain k' v' where e: "e = (k', v')" by (cases e)
  from Cons e have "gget m k' = None" "gwf m" by (auto simp: gwf_Cons)
  moreover have "gget m k = None \<Longrightarrow> k \<notin> fst ` set m" by (simp add: map_of_eq_None_iff)
  moreover have "gget m k \<noteq> None \<Longrightarrow> 0 < length m" by (cases m) auto
  ultimately show ?case using Cons e by (auto simp: map_of_eq_None_iff)
qed simp

text \<open>
  The invariant: no empty inner map stays behind, connection numbers were handed out by \<open>next\<close>,
  and the atomic counter is the number of connections that are filed.
\<close>

definition conn_wf :: "connections \<Rightarrow> bool" where
  "conn_wf c \<longleftrightarrow> gwf (c_byDevice c)
     \<and> (\<forall>d m. gget (c_byDevice c) d = Some m \<longrightarrow> gwf m \<and> m \<noteq> [] \<and> (\<forall>n v. gget m n = Some v \<longrightarrow> n \<le> c_next c))
     \<and> c_total c = int (conn_count (c_byDevice c))
     \<and> conn_count (c_byDevice c) \<le> unat (c_next c)"

text \<open>
  One step is one call. The guard keeps the 64-bit counters below \<open>2 ^ 63\<close>, which no gateway
  reaches: at a million connections a second it takes 290000 years.
\<close>

inductive conn_step :: "connections \<Rightarrow> connections \<Rightarrow> bool" where
  track: "unat (c_next c) < 2 ^ 63 - 1 \<Longrightarrow> conn_step c (fst (Track c dev cancel))"
| untrack: "unat (c_next c) < 2 ^ 63 \<Longrightarrow> conn_step c (untrack c dev n)"

lemma next_fresh:
  assumes "unat (x :: u64) < 2 ^ 63"
  shows "unat (x + 1) = unat x + 1" and "x < x + 1"
proof -
  have "unat (x + 1) = (unat x + 1) mod 2 ^ 64" by (simp add: unat_word_ariths)
  then show "unat (x + 1) = unat x + 1" using assms by simp
  then show "x < x + 1" by (simp add: word_less_nat_alt)
qed


lemma device_conns_wf:
  assumes "conn_wf c"
  shows "gwf (device_conns c dev)" and "gget (device_conns c dev) n = Some v \<Longrightarrow> n \<le> c_next c"
  using assms by (auto simp: conn_wf_def device_conns_def split: option.splits)

lemma conn_wf_Track:
  assumes wf: "conn_wf c" and lim: "unat (c_next c) < 2 ^ 63 - 1"
  shows "conn_wf (fst (Track c dev cancel))"
proof -
  let ?n = "c_next c + 1" and ?m = "device_conns c dev"
  have nx: "unat ?n = unat (c_next c) + 1" "c_next c < ?n"
    using lim next_fresh [of "c_next c"] by simp_all
  have fresh: "gget ?m ?n = None"
    using device_conns_wf(2) [OF wf, of dev ?n] nx(2) by (cases "gget ?m ?n") auto
  have cnt: "conn_count (gput dev (gput ?n cancel ?m) (c_byDevice c)) = conn_count (c_byDevice c) + 1"
    using conn_count_put [of dev "gput ?n cancel ?m" "c_byDevice c"] fresh
    by (auto simp: length_put device_conns_def split: option.splits)
  have tot: "in_s64 (c_total c + 1)"
    using wf lim by (auto simp: conn_wf_def in_s64_def)
  show ?thesis
    unfolding conn_wf_def
  proof (intro conjI allI impI)
    fix d m assume g: "gget (c_byDevice (fst (Track c dev cancel))) d = Some m"
    show "gwf m" using g wf device_conns_wf(1) [OF wf]
      by (auto simp: Track_def Let_def conn_wf_def split: if_splits)
    show "m \<noteq> []" using g wf
      by (auto simp: Track_def Let_def conn_wf_def split: if_splits)
    fix n v assume "gget m n = Some v"
    then have "n = ?n \<or> n \<le> c_next c" using g wf device_conns_wf(2) [OF wf]
      by (auto simp: Track_def Let_def conn_wf_def split: if_splits)
    then show "n \<le> c_next (fst (Track c dev cancel))" using nx(2)
      by (auto simp: Track_def Let_def)
  qed (use wf cnt nx tot in \<open>auto simp: Track_def Let_def conn_wf_def s64_id\<close>)
qed

lemma untrack_cases:
  assumes "conn_wf c"
  shows "untrack c dev n =
     (if gget (device_conns c dev) n = None then c\<lparr>c_byDevice :=
          (if device_conns c dev = [] then gdel dev (c_byDevice c) else c_byDevice c)\<rparr>
      else c\<lparr>c_total := s64 (c_total c - 1), c_byDevice :=
          (if gdel n (device_conns c dev) = [] then gdel dev (gput dev [] (c_byDevice c))
           else gput dev (gdel n (device_conns c dev)) (c_byDevice c))\<rparr>)"
  by (auto simp: untrack_def Let_def device_conns_def)

lemma untrack_missing: "conn_wf c \<Longrightarrow> gget (device_conns c dev) n = None \<Longrightarrow> untrack c dev n = c"
  by (auto simp: untrack_cases device_conns_def conn_wf_def gwf_def map_of_eq_None_iff split: option.splits)

lemma untrack_count:
  assumes wf: "conn_wf c" and hit: "gget (device_conns c dev) n \<noteq> None"
  shows "conn_count (c_byDevice (untrack c dev n)) + 1 = conn_count (c_byDevice c)"
proof -
  let ?m = "device_conns c dev"
  from hit have b: "gget (c_byDevice c) dev = Some ?m" and ne: "?m \<noteq> []"
    by (auto simp: device_conns_def split: option.splits)
  have gb: "gwf (c_byDevice c)" using wf by (simp add: conn_wf_def)
  have l: "length (gdel n ?m) + 1 = length ?m"
    using length_del [OF device_conns_wf(1) [OF wf], of n dev] hit ne by (cases ?m) auto
  show ?thesis
    using hit l conn_count_put [of dev "gdel n ?m" "c_byDevice c"] b gb
      conn_count_del [of "gput dev [] (c_byDevice c)" dev] conn_count_put [of dev "[]" "c_byDevice c"]
    by (auto simp: untrack_cases [OF wf])
qed

lemma conn_wf_untrack:
  assumes wf: "conn_wf c" and lim: "unat (c_next c) < 2 ^ 63"
  shows "conn_wf (untrack c dev n)"
proof (cases "gget (device_conns c dev) n = None")
  case True
  then show ?thesis using wf by (simp add: untrack_missing)
next
  case False
  let ?c = "untrack c dev n"
  have cnt: "conn_count (c_byDevice ?c) + 1 = conn_count (c_byDevice c)"
    using untrack_count [OF wf False] .
  have "in_s64 (c_total c - 1)"
    using wf lim by (auto simp: conn_wf_def in_s64_def)
  then have tot: "c_total ?c = int (conn_count (c_byDevice ?c))"
    using cnt wf False by (auto simp: untrack_cases [OF wf] s64_id conn_wf_def)
  have nx: "c_next ?c = c_next c" by (simp add: untrack_cases [OF wf])
  have inner: "gwf m \<and> m \<noteq> [] \<and> (\<forall>k v. gget m k = Some v \<longrightarrow> k \<le> c_next c)"
    if "gget (c_byDevice ?c) d = Some m" for d m
  proof (cases "d = dev")
    case True
    with that False have "m = gdel n (device_conns c dev)" "m \<noteq> []"
      by (auto simp: untrack_cases [OF wf] split: if_splits)
    then show ?thesis using device_conns_wf [OF wf, of dev] by (auto split: if_splits)
  next
    case d: False
    with that False have "gget (c_byDevice c) d = Some m"
      by (auto simp: untrack_cases [OF wf] split: if_splits)
    then show ?thesis using wf by (simp add: conn_wf_def)
  qed
  have "gwf (c_byDevice ?c)" and "conn_count (c_byDevice c) \<le> unat (c_next c)"
    using wf by (simp_all add: conn_wf_def untrack_cases [OF wf])
  with inner cnt tot show ?thesis
    unfolding conn_wf_def nx by simp
qed

interpretation conn_inv: invariant_of "\<lambda>c. c = NewConnections" conn_step conn_wf
proof unfold_locales
  show "\<And>s. s = NewConnections \<Longrightarrow> conn_wf s"
    by (simp add: conn_wf_def NewConnections_def conn_count_def)
  show "\<And>s t. conn_wf s \<Longrightarrow> conn_step s t \<Longrightarrow> conn_wf t"
    by (auto elim!: conn_step.cases intro: conn_wf_Track conn_wf_untrack)
qed

text \<open>
  C14: in every state the registry can reach, the number that heartbeats and metrics report is the
  number of connections that are filed, so it neither drifts nor goes negative.
\<close>

theorem total_counts_live_connections:
  assumes "reach (\<lambda>c. c = NewConnections) conn_step c"
  shows "Total c = int (conn_count (c_byDevice c)) \<and> 0 \<le> Total c"
  using conn_inv.reach_inv [OF assms] by (simp add: conn_wf_def Total_def)

theorem total_counts_live_connections_witness:
  "let c = fst (Track NewConnections ''d'' 5) in
   reach (\<lambda>c. c = NewConnections) conn_step c \<and> Total c = int (conn_count (c_byDevice c)) \<and> Total c = 1"
proof -
  let ?c = "fst (Track NewConnections ''d'' 5)"
  have "reach (\<lambda>c. c = NewConnections) conn_step ?c"
    by (rule reach.reach_step [OF reach.reach_init]) (auto intro: conn_step.track simp: NewConnections_def)
  moreover have "Total ?c = 1"
    by (simp add: Total_def Track_def NewConnections_def Let_def s64_def)
  ultimately show ?thesis using total_counts_live_connections [of ?c] by (simp add: Let_def)
qed

section \<open>What the registry promises its callers\<close>

text \<open>The abstract state: which connection of which device is live, and how to cancel it.\<close>

definition conn_abs :: "connections \<Rightarrow> (string \<times> u64 \<times> cancel_func) set" where
  "conn_abs c = {(d, n, k). gget (device_conns c d) n = Some k}"

lemma device_conns_Track:
  "device_conns (fst (Track c dev k)) d =
     (if d = dev then gput (c_next c + 1) k (device_conns c dev) else device_conns c d)"
  by (simp add: Track_def Let_def device_conns_def)

lemma device_conns_untrack:
  assumes "conn_wf c"
  shows "device_conns (untrack c dev n) d =
     (if d = dev then gdel n (device_conns c dev) else device_conns c d)"
proof (cases "gget (device_conns c dev) n = None")
  case True
  then show ?thesis using assms by (simp add: untrack_missing map_of_eq_None_iff)
next
  case False
  define m where "m = device_conns c dev"
  have "c_byDevice (untrack c dev n) =
      (if gdel n m = [] then gdel dev (gput dev [] (c_byDevice c)) else gput dev (gdel n m) (c_byDevice c))"
    using False by (auto simp: untrack_cases [OF assms] m_def)
  then have "device_conns (untrack c dev n) d = (if d = dev then gdel n m else device_conns c d)"
    by (simp add: device_conns_def)
  then show ?thesis by (simp add: m_def)
qed

lemma next_not_filed:
  assumes "conn_wf c" and "unat (c_next c) < 2 ^ 63"
  shows "gget (device_conns c d) (c_next c + 1) = None"
proof (cases "gget (device_conns c d) (c_next c + 1)")
  case (Some k)
  with device_conns_wf(2) [OF assms(1)] have "c_next c + 1 \<le> c_next c" by blast
  with next_fresh(2) [OF assms(2)] show ?thesis by simp
qed

lemma connections_refine_steps:
  assumes "conn_wf c" and "unat (c_next c) < 2 ^ 63"
  shows "conn_abs (fst (Track c dev k)) = insert (dev, snd (Track c dev k), k) (conn_abs c)"
    and "conn_abs (untrack c dev n) = conn_abs c - {(dev, n, j) | j. True}"
    and "(d, snd (Track c dev k), j) \<notin> conn_abs c"
proof -
  show "conn_abs (fst (Track c dev k)) = insert (dev, snd (Track c dev k), k) (conn_abs c)"
    using next_not_filed [OF assms, of dev]
    by (auto simp: conn_abs_def device_conns_Track) (auto simp: Track_def Let_def split: if_splits)
  show "conn_abs (untrack c dev n) = conn_abs c - {(dev, n, j) | j. True}"
    by (auto simp: conn_abs_def device_conns_untrack [OF assms(1)] split: if_splits)
  show "(d, snd (Track c dev k), j) \<notin> conn_abs c"
    using next_not_filed [OF assms] by (simp add: conn_abs_def Track_def Let_def)
qed

text \<open>
  C15: the registry implements a plain set of live connections. \<open>Track\<close> adds one under a number that
  no live connection has, the closure it returns removes exactly that one, and \<open>Interrupt\<close> calls
  the cancel functions of the device's live connections, all of them and no others, and returns
  how many there are.
\<close>

theorem connections_refine_live_set:
  assumes "conn_wf c" and "unat (c_next c) < 2 ^ 63"
  shows "conn_abs (fst (Track c dev k)) = insert (dev, snd (Track c dev k), k) (conn_abs c)
     \<and> (\<forall>d j. (d, snd (Track c dev k), j) \<notin> conn_abs c)
     \<and> conn_abs (untrack c dev n) = conn_abs c - {(dev, n, j) | j. True}
     \<and> set (fst (Interrupt c dev)) = {j. \<exists>m. (dev, m, j) \<in> conn_abs c}
     \<and> snd (Interrupt c dev) = int (card {m. \<exists>j. (dev, m, j) \<in> conn_abs c})"
proof -
  have wf: "gwf (device_conns c dev)" by (rule device_conns_wf(1) [OF assms(1)])
  have "{m. \<exists>j. (dev, m, j) \<in> conn_abs c} = set (map fst (device_conns c dev))"
    using wf by (force simp: conn_abs_def gget_iff_mem)
  then have "snd (Interrupt c dev) = int (card {m. \<exists>j. (dev, m, j) \<in> conn_abs c})"
    using wf by (simp add: Interrupt_def gwf_def distinct_card del: set_map)
  moreover have "set (fst (Interrupt c dev)) = {j. \<exists>m. (dev, m, j) \<in> conn_abs c}"
    using wf by (force simp: Interrupt_def conn_abs_def gget_iff_mem)
  ultimately show ?thesis using connections_refine_steps [OF assms] by simp
qed

theorem connections_refine_live_set_witness:
  "conn_wf NewConnections \<and> unat (c_next NewConnections) < 2 ^ 63
     \<and> conn_abs (fst (Track NewConnections ''d'' 3)) = {(''d'', 1, 3)}"
proof -
  have wf: "conn_wf NewConnections" by (simp add: conn_wf_def NewConnections_def conn_count_def)
  have lim: "unat (c_next NewConnections) < 2 ^ 63" by (simp add: NewConnections_def)
  have "conn_abs NewConnections = {}" by (simp add: conn_abs_def NewConnections_def device_conns_def)
  moreover have "snd (Track NewConnections ''d'' 3) = 1" by (simp add: Track_def NewConnections_def Let_def)
  ultimately show ?thesis
    using connections_refine_live_set [OF wf lim, of "''d''" 3 0] wf lim by simp
qed

end
