(* ===== verification/PM_Net.thy ===== *)
theory PM_Net
  imports PM_Prelude
begin

text \<open>
  What the program uses of \<open>strconv\<close> and \<open>net\<close>: decimal numbers, \<open>host:port\<close> addresses and the text forms of IP addresses.
  An IP address is its 16 bytes; an IPv4 address is the mapped one, as \<open>net.ParseIP\<close> returns it.
\<close>

section \<open>Decimal numbers\<close>

text \<open>\<open>strconv.Atoi\<close> accepts a sign and decimal digits; a value outside \<open>int64\<close> is an error.\<close>

fun parse_digits :: "string \<Rightarrow> int \<Rightarrow> int option" where
  "parse_digits [] n = Some n"
| "parse_digits (c # cs) n =
     (let d = of_char c :: int in if 48 \<le> d \<and> d \<le> 57 then parse_digits cs (10 * n + (d - 48)) else None)"

definition Atoi :: "string \<Rightarrow> int option" where
  "Atoi s =
     (let (neg, digits) = (case s of [] \<Rightarrow> (False, []) | c # cs \<Rightarrow>
            if c = CHR ''-'' then (True, cs) else if c = CHR ''+'' then (False, cs) else (False, s)) in
      if digits = [] then None
      else case parse_digits digits 0 of None \<Rightarrow> None
        | Some n \<Rightarrow> let v = (if neg then - n else n) in if in_s64 v then Some v else None)"

lemma of_digit_char: "d < 10 \<Longrightarrow> of_char (digit_char d) = (48 + int d)"
  using of_nat_of_char [of "digit_char d", where 'a = int] by (simp add: digit_char_def)

lemma parse_digits_append: "parse_digits (s @ t) n = Option.bind (parse_digits s n) (parse_digits t)"
  by (induction s arbitrary: n) (auto simp: Let_def)

lemma parse_nat_digits: "parse_digits (nat_digits m) 0 = Some (int m)"
proof (induction m rule: nat_digits.induct)
  case (1 m)
  show ?case
  proof (cases "m < 10")
    case True
    then show ?thesis by (subst nat_digits.simps) (simp add: of_digit_char)
  next
    case False
    have "10 * int (m div 10) + int (m mod 10) = int m" by presburger
    then show ?thesis using 1 False by (subst nat_digits.simps) (simp add: parse_digits_append of_digit_char)
  qed
qed

lemma nat_digits_not_Nil: "nat_digits m \<noteq> []"
  by (subst nat_digits.simps) simp

lemma nat_digits_range: "c \<in> set (nat_digits m) \<Longrightarrow> 48 \<le> (of_char c :: int) \<and> (of_char c :: int) \<le> 57"
proof (induction m rule: nat_digits.induct)
  case (1 m)
  then show ?case by (subst (asm) (2) nat_digits.simps) (auto simp: of_digit_char split: if_splits)
qed

lemma Atoi_nat_digits: "int m < 2 ^ 63 \<Longrightarrow> Atoi (nat_digits m) = Some (int m)"
proof -
  assume m: "int m < 2 ^ 63"
  obtain c cs where s: "nat_digits m = c # cs" using nat_digits_not_Nil [of m] by (cases "nat_digits m") auto
  then have "c \<noteq> CHR ''-''" "c \<noteq> CHR ''+''" using nat_digits_range [of c m] by auto
  then show ?thesis using m parse_nat_digits [of m] by (simp add: Atoi_def s in_s64_def Let_def)
qed

lemma Atoi_sprint: "0 \<le> v \<Longrightarrow> v < 2 ^ 63 \<Longrightarrow> Atoi (sprint_int v) = Some v"
  using Atoi_nat_digits [of "nat v"] by (simp add: sprint_int_def)

section \<open>Addresses\<close>

text \<open>\<open>net.JoinHostPort\<close>: a host with a colon is an IPv6 literal and gets brackets.\<close>

definition net_JoinHostPort :: "string \<Rightarrow> string \<Rightarrow> string" where
  "net_JoinHostPort host port =
     (if CHR '':'' \<in> set host then ''['' @ host @ '']:'' @ port else host @ '':'' @ port)"

text \<open>A string before and after the last occurrence of a character.\<close>

definition split_last :: "char \<Rightarrow> string \<Rightarrow> (string \<times> string) option" where
  "split_last c s =
     (if c \<in> set s then let r = rev s in Some (rev (tl (dropWhile (\<lambda>x. x \<noteq> c) r)), rev (takeWhile (\<lambda>x. x \<noteq> c) r)) else None)"

definition addr_error :: "string \<Rightarrow> string \<Rightarrow> go_error" where
  "addr_error addr why = ErrLib (if addr = [] then why else ''address '' @ addr @ '': '' @ why)"

text \<open>
  \<open>net.SplitHostPort\<close>. The port starts after the last colon; a bracketed host ends at the first closing bracket, which must stand just
  before that colon.
\<close>

definition net_SplitHostPort :: "string \<Rightarrow> go_error + string \<times> string" where
  "net_SplitHostPort hostport =
     (let missingPort = ''missing port in address''; tooManyColons = ''too many colons in address'' in
      case split_last (CHR '':'') hostport of
        None \<Rightarrow> Inl (addr_error hostport missingPort)
      | Some (front, port) \<Rightarrow>
          if hd hostport = CHR ''['' then
            if CHR '']'' \<notin> set hostport then Inl (addr_error hostport ''missing ']' in address'')
            else let host = takeWhile (\<lambda>c. c \<noteq> CHR '']'') (tl hostport); after = tl (dropWhile (\<lambda>c. c \<noteq> CHR '']'') hostport) in
              if after = [] then Inl (addr_error hostport missingPort)
              else if hd after \<noteq> CHR '':'' then Inl (addr_error hostport missingPort)
              else if CHR '':'' \<in> set (tl after) then Inl (addr_error hostport tooManyColons)
              else if CHR ''['' \<in> set (tl hostport) then Inl (addr_error hostport ''unexpected '[' in address'')
              else if CHR '']'' \<in> set after then Inl (addr_error hostport ''unexpected ']' in address'')
              else Inr (host, port)
          else
            if CHR '':'' \<in> set front then Inl (addr_error hostport tooManyColons)
            else if CHR ''['' \<in> set hostport then Inl (addr_error hostport ''unexpected '[' in address'')
            else if CHR '']'' \<in> set hostport then Inl (addr_error hostport ''unexpected ']' in address'')
            else Inr (front, port))"

lemma split_last_append: "c \<notin> set t \<Longrightarrow> split_last c (s @ c # t) = Some (s, t)"
  by (induction t rule: rev_induct) (auto simp: split_last_def Let_def)

lemma split_join:
  assumes "\<forall>c \<in> set host. c \<noteq> CHR ''['' \<and> c \<noteq> CHR '']''" and "\<forall>c \<in> set port. c \<noteq> CHR '':'' \<and> c \<noteq> CHR ''['' \<and> c \<noteq> CHR '']''"
  shows "net_SplitHostPort (net_JoinHostPort host port) = Inr (host, port)"
proof (cases "CHR '':'' \<in> set host")
  case True
  have "net_JoinHostPort host port = CHR ''['' # host @ CHR '']'' # CHR '':'' # port" using True by (simp add: net_JoinHostPort_def)
  moreover have "split_last (CHR '':'') ((CHR ''['' # host @ [CHR '']'']) @ CHR '':'' # port) = Some (CHR ''['' # host @ [CHR '']''], port)"
    by (rule split_last_append) (use assms(2) in blast)
  ultimately show ?thesis using assms by (auto simp: net_SplitHostPort_def Let_def takeWhile_append2 dropWhile_append2)
next
  case False
  have "split_last (CHR '':'') (host @ CHR '':'' # port) = Some (host, port)"
    by (rule split_last_append) (use assms(2) in blast)
  moreover have "hd (host @ CHR '':'' # port) \<noteq> CHR ''[''" using assms(1) by (cases host) auto
  ultimately show ?thesis using assms False by (auto simp: net_SplitHostPort_def net_JoinHostPort_def Let_def)
qed

section \<open>IP addresses\<close>

text \<open>One field of a dotted IPv4 address: at most 255, and no leading zero.\<close>

definition ipv4_field :: "string \<Rightarrow> byte option" where
  "ipv4_field s =
     (if s = [] \<or> (hd s = CHR ''0'' \<and> length s > 1) \<or> length s > 3 then None
      else case parse_digits s 0 of None \<Rightarrow> None | Some n \<Rightarrow> if n \<le> 255 then Some (word_of_int n) else None)"

fun split_on :: "char \<Rightarrow> string \<Rightarrow> string list" where
  "split_on c [] = [[]]"
| "split_on c (x # xs) = (if x = c then [] # split_on c xs else case split_on c xs of [] \<Rightarrow> [[x]] | p # ps \<Rightarrow> (x # p) # ps)"

definition ipv4_fields :: "string \<Rightarrow> byte list option" where
  "ipv4_fields s = (let fs = map ipv4_field (split_on (CHR ''.'') s) in
     if length fs = 4 \<and> None \<notin> set fs then Some (map the fs) else None)"

definition hex_value :: "char \<Rightarrow> int option" where
  "hex_value c = (let n = of_char c :: int in
     if 48 \<le> n \<and> n \<le> 57 then Some (n - 48) else if 97 \<le> n \<and> n \<le> 102 then Some (n - 87)
     else if 65 \<le> n \<and> n \<le> 70 then Some (n - 55) else None)"

definition is_hex :: "char \<Rightarrow> bool" where
  "is_hex c \<longleftrightarrow> hex_value c \<noteq> None"

definition hex_number :: "string \<Rightarrow> int" where
  "hex_number s = foldl (\<lambda>acc c. 16 * acc + the (hex_value c)) 0 s"

text \<open>
  The loop of \<open>netip.parseIPv6\<close>: \<open>ip\<close> are the bytes so far, \<open>ell\<close> is the place of the ellipsis. Every turn adds two bytes or ends, so eight turns
  are enough. The result is the bytes, the place, and what is left of the string.
\<close>

primrec ipv6_loop :: "nat \<Rightarrow> string \<Rightarrow> byte list \<Rightarrow> nat option \<Rightarrow> (byte list \<times> nat option \<times> string) option" where
  "ipv6_loop 0 s ip ell = Some (ip, ell, s)"
| "ipv6_loop (Suc n) s ip ell =
     (let digits = takeWhile is_hex s; rest = dropWhile is_hex s in
      if digits = [] \<or> length digits > 4 then None
      else if rest \<noteq> [] \<and> hd rest = CHR ''.'' then
        if (ell = None \<and> length ip \<noteq> 12) \<or> length ip + 4 > 16 then None
        else map_option (\<lambda>v4. (ip @ v4, ell, [])) (ipv4_fields s)
      else
        let ip' = ip @ [word_of_int (hex_number digits div 256), word_of_int (hex_number digits)] in
        if rest = [] then Some (ip', ell, [])
        else if hd rest \<noteq> CHR '':'' \<or> tl rest = [] then None
        else let s' = tl rest in
          if hd s' = CHR '':'' then
            if ell \<noteq> None then None
            else if tl s' = [] then Some (ip', Some (length ip'), [])
            else ipv6_loop n (tl s') ip' (Some (length ip'))
          else ipv6_loop n s' ip' ell)"

definition ipv6_expand :: "byte list \<Rightarrow> nat option \<Rightarrow> byte list option" where
  "ipv6_expand ip ell =
     (if length ip < 16
      then map_option (\<lambda>k. take k ip @ replicate (16 - length ip) 0 @ drop k ip) ell
      else if ell \<noteq> None then None else Some ip)"

definition parse_ipv6 :: "string \<Rightarrow> byte list option" where
  "parse_ipv6 s =
     (let (ell, s') = (if take 2 s = ''::'' then (Some 0, drop 2 s) else (None, s)) in
      if ell \<noteq> None \<and> s' = [] then Some (replicate 16 0)
      else case ipv6_loop 8 s' [] ell of
        None \<Rightarrow> None
      | Some (ip, ell', rest) \<Rightarrow> if rest \<noteq> [] then None else ipv6_expand ip ell')"

definition v4_mapped :: "byte list \<Rightarrow> byte list" where
  "v4_mapped v4 = replicate 10 0 @ [255, 255] @ v4"

text \<open>\<open>net.ParseIP\<close>: the first dot or colon decides; an address with a zone is refused.\<close>

definition net_ParseIP :: "string \<Rightarrow> byte list option" where
  "net_ParseIP s =
     (if CHR ''%'' \<in> set s then None
      else case dropWhile (\<lambda>c. c \<noteq> CHR ''.'' \<and> c \<noteq> CHR '':'') s of
        [] \<Rightarrow> None
      | c # _ \<Rightarrow> if c = CHR ''.'' then map_option v4_mapped (ipv4_fields s) else parse_ipv6 s)"

definition IP_To4 :: "byte list \<Rightarrow> byte list option" where
  "IP_To4 ip = (if take 12 ip = v4_mapped [] then Some (drop 12 ip) else None)"

definition IP_IsLoopback :: "byte list \<Rightarrow> bool" where
  "IP_IsLoopback ip = (case IP_To4 ip of Some v4 \<Rightarrow> hd v4 = 127 | None \<Rightarrow> ip = replicate 15 0 @ [1])"

lemma ipv4_fields_length: "ipv4_fields s = Some v4 \<Longrightarrow> length v4 = 4"
  by (auto simp: ipv4_fields_def Let_def split: if_splits)

lemma ipv6_loop_length:
  assumes "ipv6_loop n s ip ell = Some (ip', ell', rest)" and "length ip + 2 * n \<le> 16" and "\<forall>k. ell = Some k \<longrightarrow> k \<le> length ip"
  shows "length ip' \<le> 16 \<and> (\<forall>k. ell' = Some k \<longrightarrow> k \<le> length ip')"
  using assms
proof (induction n arbitrary: s ip ell)
  case (Suc n)
  define ip2 where "ip2 = ip @ [word_of_int (hex_number (takeWhile is_hex s) div 256), word_of_int (hex_number (takeWhile is_hex s))]"
  have len: "length ip2 = length ip + 2" by (simp add: ip2_def)
  have fits: "length ip2 + 2 * n \<le> 16" "\<forall>k. ell = Some k \<longrightarrow> k \<le> length ip2" "\<forall>k. Some (length ip2) = Some k \<longrightarrow> k \<le> length ip2"
    using Suc.prems(2,3) len by auto
  show ?case
    using Suc.prems fits(1,2) len Suc.IH [of "tl (tl (dropWhile is_hex s))" ip2 "Some (length ip2)", OF _ fits(1,3)]
      Suc.IH [of "tl (dropWhile is_hex s)" ip2 ell, OF _ fits(1,2)]
    by (simp add: Let_def ip2_def [symmetric] split: if_splits) (fastforce dest: ipv4_fields_length)+
qed auto

lemma ipv6_expand_length: "ipv6_expand ip ell = Some out \<Longrightarrow> length ip \<le> 16 \<Longrightarrow> (\<And>k. ell = Some k \<Longrightarrow> k \<le> length ip) \<Longrightarrow> length out = 16"
  by (cases ell) (auto simp: ipv6_expand_def split: if_splits)

lemma ParseIP_length: "net_ParseIP s = Some ip \<Longrightarrow> length ip = 16"
proof -
  have v6: "length ip = 16" if "parse_ipv6 s = Some ip" for s ip
  proof (cases "s = ''::''")
    case False
    with that obtain ip' ell s' ell' where "ipv6_loop 8 s' [] ell = Some (ip', ell', [])" "ipv6_expand ip' ell' = Some ip" "\<forall>k. ell = Some k \<longrightarrow> k \<le> 0"
      by (auto simp: parse_ipv6_def Let_def split: if_splits option.splits)
    then show ?thesis using ipv6_loop_length [of 8 s' "[]" ell ip' ell' "[]"] ipv6_expand_length by auto
  qed (use that in \<open>auto simp: parse_ipv6_def\<close>)
  assume "net_ParseIP s = Some ip"
  then show ?thesis
    by (auto simp: net_ParseIP_def v4_mapped_def dest: v6 ipv4_fields_length split: if_splits list.splits)
qed

end
