(* ===== verification/PM_Socks5.thy ===== *)
theory PM_Socks5
  imports PM_Net
begin

text \<open>
  The upstream client, \<open>internal/proxy/socks5.go\<close>: the negotiation of a SOCKS5 connection (RFC 1928, RFC 1929).

  The connection is what was written to it, what has arrived and was not read yet. The peer is a parameter: \<open>se_peer ws\<close> is
  what it sends between the last of the writes \<open>ws\<close> and the next one. A read that needs more than that fails with \<open>se_short\<close>, be it the end of the
  stream or the deadline; any write, and each call of \<open>SetDeadline\<close>, may fail as well.
\<close>

record socks5_config =
  sc_Address :: string
  sc_Username :: string
  sc_Password :: string

record socks_conn =
  k_writes :: "byte list list"
  k_in :: "byte list"

record socks_env =
  se_dial :: "string \<Rightarrow> go_error option"
  se_deadline :: bool
  se_SetDeadline :: "nat \<Rightarrow> go_error option"
  se_write :: "nat \<Rightarrow> go_error option"
  se_peer :: "byte list list \<Rightarrow> byte list"
  se_short :: go_error

section \<open>Input and output\<close>

definition conn_Write :: "socks_env \<Rightarrow> byte list \<Rightarrow> socks_conn \<Rightarrow> go_error + socks_conn" where
  "conn_Write e b k =
     (case se_write e (length (k_writes k)) of
        Some err \<Rightarrow> Inl err
      | None \<Rightarrow> let ws = k_writes k @ [b] in Inr (k\<lparr>k_writes := ws, k_in := k_in k @ se_peer e ws\<rparr>))"

text \<open>\<open>io.ReadFull\<close> of a buffer of \<open>n\<close> bytes.\<close>

definition read_full :: "socks_env \<Rightarrow> nat \<Rightarrow> socks_conn \<Rightarrow> go_error + byte list \<times> socks_conn" where
  "read_full e n k = (if length (k_in k) < n then Inl (se_short e) else Inr (take n (k_in k), k\<lparr>k_in := drop n (k_in k)\<rparr>))"

section \<open>Messages\<close>

definition needs_auth :: "socks5_config \<Rightarrow> bool" where
  "needs_auth cfg \<longleftrightarrow> sc_Username cfg \<noteq> [] \<or> sc_Password cfg \<noteq> []"

definition auth_method :: "socks5_config \<Rightarrow> byte" where
  "auth_method cfg = (if needs_auth cfg then 2 else 0)"

definition greeting :: "socks5_config \<Rightarrow> byte list" where
  "greeting cfg = [5, 1, auth_method cfg]"

definition len_byte :: "string \<Rightarrow> byte" where
  "len_byte s = word_of_nat (length s)"

definition auth_message :: "socks5_config \<Rightarrow> byte list" where
  "auth_message cfg = [1, len_byte (sc_Username cfg)] @ bytes_of (sc_Username cfg) @ [len_byte (sc_Password cfg)] @ bytes_of (sc_Password cfg)"

definition PutUint16 :: "int \<Rightarrow> byte list" where
  "PutUint16 port = [word_of_int (port div 256), word_of_int port]"

definition dest_bytes :: "string \<Rightarrow> go_error + byte list" where
  "dest_bytes host =
     (case net_ParseIP host of
        Some ip \<Rightarrow> Inr (case IP_To4 ip of Some v4 \<Rightarrow> 1 # v4 | None \<Rightarrow> 4 # ip)
      | None \<Rightarrow> if length host > 255 then Inl (ErrMsg ''target hostname too long'') else Inr ([3, len_byte host] @ bytes_of host))"

definition parse_target :: "string \<Rightarrow> go_error + string \<times> int" where
  "parse_target target =
     (case net_SplitHostPort target of
        Inl err \<Rightarrow> Inl (ErrWrap ''invalid target'' err)
      | Inr (host, portText) \<Rightarrow>
          (case Atoi portText of
             None \<Rightarrow> Inl (ErrMsg ''invalid target port'')
           | Some port \<Rightarrow> if port < 1 \<or> port > 65535 then Inl (ErrMsg ''invalid target port'') else Inr (host, port)))"

definition connect_request :: "string \<Rightarrow> go_error + byte list" where
  "connect_request target =
     attempt (parse_target target) (\<lambda>(host, port). attempt (dest_bytes host) (\<lambda>dest. Inr ([5, 1, 0] @ dest @ PutUint16 port)))"

definition reply_messages :: "string list" where
  "reply_messages = [''succeeded'', ''general failure'', ''not allowed'', ''network unreachable'', ''host unreachable'',
     ''connection refused'', ''TTL expired'', ''command unsupported'', ''address unsupported'']"

definition upper_hex :: "nat \<Rightarrow> char" where
  "upper_hex d = (if d < 10 then digit_char d else char_of (55 + d))"

definition replyMessage :: "byte \<Rightarrow> string" where
  "replyMessage code =
     (if unat code < length reply_messages then reply_messages ! unat code
      else ''unknown error '' @ (if unat code < 16 then [upper_hex (unat code)] else [upper_hex (unat code div 16), upper_hex (unat code mod 16)]))"

section \<open>The negotiation\<close>

definition negotiate_method :: "socks_env \<Rightarrow> socks5_config \<Rightarrow> socks_conn \<Rightarrow> go_error + socks_conn" where
  "negotiate_method e cfg k =
     attempt (conn_Write e (greeting cfg) k) (\<lambda>k.
     attempt (read_full e 2 k) (\<lambda>(reply, k).
     if reply ! 0 \<noteq> 5 \<or> reply ! 1 \<noteq> auth_method cfg then Inl (ErrMsg ''SOCKS5 authentication method rejected'') else Inr k))"

definition authenticate :: "socks_env \<Rightarrow> socks5_config \<Rightarrow> socks_conn \<Rightarrow> go_error + socks_conn" where
  "authenticate e cfg k =
     (if \<not> needs_auth cfg then Inr k
      else if length (sc_Username cfg) > 255 \<or> length (sc_Password cfg) > 255 then Inl (ErrMsg ''SOCKS5 credentials too long'')
      else
        attempt (conn_Write e (auth_message cfg) k) (\<lambda>k.
        attempt (read_full e 2 k) (\<lambda>(reply, k).
        if reply ! 0 \<noteq> 1 \<or> reply ! 1 \<noteq> 0 then Inl (ErrMsg ''SOCKS5 username/password rejected'') else Inr k)))"

text \<open>The address of the reply is read and dropped.\<close>

definition address_length :: "socks_env \<Rightarrow> byte \<Rightarrow> socks_conn \<Rightarrow> go_error + nat \<times> socks_conn" where
  "address_length e atyp k =
     (if atyp = 1 then Inr (4, k)
      else if atyp = 4 then Inr (16, k)
      else if atyp = 3 then attempt (read_full e 1 k) (\<lambda>(b, k). Inr (unat (b ! 0), k))
      else Inl (ErrMsg ''invalid SOCKS5 address type''))"

definition read_reply :: "socks_env \<Rightarrow> socks_conn \<Rightarrow> go_error + socks_conn" where
  "read_reply e k =
     attempt (read_full e 4 k) (\<lambda>(head, k).
     if head ! 0 \<noteq> 5 \<or> head ! 1 \<noteq> 0 then Inl (ErrMsg (''SOCKS5 connect failed: '' @ replyMessage (head ! 1)))
     else attempt (address_length e (head ! 3) k) (\<lambda>(n, k).
          attempt (read_full e (n + 2) k) (\<lambda>(discard, k). Inr k)))"

definition handshake :: "socks_env \<Rightarrow> socks5_config \<Rightarrow> string \<Rightarrow> socks_conn \<Rightarrow> go_error + socks_conn" where
  "handshake e cfg target k =
     attempt (negotiate_method e cfg k) (\<lambda>k.
     attempt (authenticate e cfg k) (\<lambda>k.
     attempt (connect_request target) (\<lambda>req.
     attempt (conn_Write e req k) (read_reply e))))"

definition first_deadline :: "socks_env \<Rightarrow> go_error option" where
  "first_deadline e = (if se_deadline e then se_SetDeadline e 0 else None)"

text \<open>
  The result is \<open>None\<close> for a connection that was never opened, and otherwise its state at the end and the error. The deferred function closes the
  connection unless \<open>ok\<close> was set, which happens before the last call of \<open>SetDeadline\<close>.
\<close>

datatype dial_result =
    DialFailed go_error
  | DialClosed go_error
  | DialLeaked go_error socks_conn
  | DialOK socks_conn

definition DialSOCKS5 :: "socks_env \<Rightarrow> socks5_config \<Rightarrow> string \<Rightarrow> dial_result" where
  "DialSOCKS5 e cfg target =
     (case se_dial e (sc_Address cfg) of
        Some err \<Rightarrow> DialFailed err
      | None \<Rightarrow>
     (case first_deadline e of
        Some err \<Rightarrow> DialClosed err
      | None \<Rightarrow>
     (case handshake e cfg target \<lparr>k_writes = [], k_in = se_peer e []\<rparr> of
        Inl err \<Rightarrow> DialClosed err
      | Inr k \<Rightarrow> (case se_SetDeadline e 1 of Some err \<Rightarrow> DialLeaked err k | None \<Rightarrow> DialOK k))))"

end
