(* ===== verification/PM_Gateway.thy ===== *)
theory PM_Gateway
  imports PM_Table PM_Connections PM_Ssconfig PM_Socks5
begin

text \<open>
  The data plane of a gateway, \<open>internal/dataplane/gateway.go\<close>: readiness flags, the listeners of
  the devices, their reconciliation with the routing table, the preparation of listeners before a
  deployment, and the admission of a client connection.

  The map of listeners and the sockets behind it are state. A socket is a number: \<open>g_open\<close> lists the
  sockets that are open with the port each is bound to, so a model of \<open>net.Listen\<close> can refuse a port
  that the process itself still holds. The rest of the outside world is a parameter: what
  go-shadowsocks2 says of a method and a password, and what the operating system says of a port.
\<close>

section \<open>State\<close>

record net_env =
  e_NewServerConfig :: server_config_fn
  e_ServerInit :: "string \<Rightarrow> string \<Rightarrow> go_error option"
  e_Listen :: "string \<Rightarrow> int \<Rightarrow> go_error option"

record device_listener =
  dl_deviceID :: string
  dl_method :: string
  dl_password :: string
  dl_listener :: nat
  dl_active :: bool

record gateway =
  g_Table :: table
  g_Connections :: connections
  g_draining :: bool
  g_canaryOK :: bool
  g_controlSynced :: bool
  g_listenHost :: string
  g_listeners :: "(int, device_listener) gomap"
  g_connectOK :: u64
  g_connectFailed :: u64
  g_open :: "(nat \<times> int) list"
  g_nextSocket :: nat

definition NewGateway :: "table \<Rightarrow> connections \<Rightarrow> gateway" where
  "NewGateway t c = \<lparr>g_Table = t, g_Connections = c, g_draining = False, g_canaryOK = True,
     g_controlSynced = False, g_listenHost = ''0.0.0.0'', g_listeners = [], g_connectOK = 0,
     g_connectFailed = 0, g_open = [], g_nextSocket = 0\<rparr>"

definition SetListenHost :: "gateway \<Rightarrow> string \<Rightarrow> gateway" where
  "SetListenHost g host = g\<lparr>g_listenHost := host\<rparr>"

definition Gateway_SetDraining :: "gateway \<Rightarrow> bool \<Rightarrow> gateway" where
  "Gateway_SetDraining g v = g\<lparr>g_draining := v\<rparr>"

definition SetCanary :: "gateway \<Rightarrow> bool \<Rightarrow> gateway" where
  "SetCanary g v = g\<lparr>g_canaryOK := v\<rparr>"

definition SetControlSynced :: "gateway \<Rightarrow> bool \<Rightarrow> gateway" where
  "SetControlSynced g v = g\<lparr>g_controlSynced := v\<rparr>"

definition Ready :: "gateway \<Rightarrow> bool" where
  "Ready g \<longleftrightarrow> Table_Loaded (g_Table g) \<and> g_controlSynced g \<and> \<not> g_draining g \<and> g_canaryOK g"

section \<open>Listeners\<close>

definition net_Listen :: "net_env \<Rightarrow> gateway \<Rightarrow> int \<Rightarrow> go_error option" where
  "net_Listen e g port =
     (if port \<in> snd ` set (g_open g) then Some (ErrLib ''bind: address already in use'')
      else e_Listen e (g_listenHost g) port)"

definition close_listener :: "gateway \<Rightarrow> int \<Rightarrow> device_listener \<Rightarrow> gateway" where
  "close_listener g port item =
     g\<lparr>g_open := filter (\<lambda>s. fst s \<noteq> dl_listener item) (g_open g),
       g_listeners := gdel port (g_listeners g)\<rparr>"

definition startListenerLocked ::
    "net_env \<Rightarrow> gateway \<Rightarrow> device_route \<Rightarrow> bool \<Rightarrow> gateway \<times> go_error option" where
  "startListenerLocked e g route active =
     (case SS_Validate (e_NewServerConfig e) (r_IngressMethod route) (r_IngressPassword route) of
        Some err \<Rightarrow>
          (g, Some (ErrWrap (''device '' @ r_DeviceID route @ '' Shadowsocks credentials'') err))
      | None \<Rightarrow>
     (case e_NewServerConfig e (r_IngressMethod route) (r_IngressPassword route) of
        Some err \<Rightarrow>
          (g, Some (ErrWrap (''device '' @ r_DeviceID route @ '' Shadowsocks method'') err))
      | None \<Rightarrow>
     (case e_ServerInit e (r_IngressMethod route) (r_IngressPassword route) of
        Some err \<Rightarrow>
          (g, Some (ErrWrap (''device '' @ r_DeviceID route @ '' Shadowsocks server'') err))
      | None \<Rightarrow>
     (case net_Listen e g (r_IngressPort route) of
        Some err \<Rightarrow>
          (g, Some (ErrWrap (''listen for device '' @ r_DeviceID route @ '' on port ''
                @ sprint_int (r_IngressPort route)) err))
      | None \<Rightarrow>
          (g\<lparr>g_listeners := gput (r_IngressPort route)
                \<lparr>dl_deviceID = r_DeviceID route, dl_method = r_IngressMethod route,
                 dl_password = r_IngressPassword route, dl_listener = g_nextSocket g,
                 dl_active = active\<rparr> (g_listeners g),
             g_open := (g_nextSocket g, r_IngressPort route) # g_open g,
             g_nextSocket := Suc (g_nextSocket g)\<rparr>, None)))))"

definition ValidateRoute :: "net_env \<Rightarrow> device_route \<Rightarrow> go_error option" where
  "ValidateRoute e route =
     (if r_IngressPort route < 1 \<or> r_IngressPort route > 65535
      then Some (ErrMsg ''invalid Shadowsocks ingress port'')
      else if r_IngressPassword route = []
      then Some (ErrMsg ''missing Shadowsocks ingress password'')
      else SS_Validate (e_NewServerConfig e) (r_IngressMethod route) (r_IngressPassword route))"

subsection \<open>Reconciliation\<close>

text \<open>The first loop of \<open>ReconcileListeners\<close>: which port each device should be reachable on.\<close>

definition ingress_item :: "device_route \<Rightarrow> device_ingress \<Rightarrow> device_route" where
  "ingress_item route ingress =
     route\<lparr>r_IngressPort := di_Port ingress, r_IngressMethod := di_Method ingress,
           r_IngressPassword := di_Password ingress\<rparr>"

fun desired_of_route ::
    "device_route \<Rightarrow> device_ingress list \<Rightarrow> (int, device_route) gomap \<Rightarrow> go_error + (int, device_route) gomap" where
  "desired_of_route route [] desired = Inr desired"
| "desired_of_route route (ingress # rest) desired =
     (if di_Method ingress = [] \<or> di_Password ingress = []
      then Inl (ErrMsg (''device '' @ r_DeviceID route @ '' has incomplete Shadowsocks ingress''))
      else if gget desired (di_Port ingress) \<noteq> None
      then Inl (ErrMsg (''duplicate Shadowsocks ingress port '' @ sprint_int (di_Port ingress)))
      else desired_of_route route rest (gput (di_Port ingress) (ingress_item route ingress) desired))"

fun desired_listeners ::
    "device_route list \<Rightarrow> (int, device_route) gomap \<Rightarrow> go_error + (int, device_route) gomap" where
  "desired_listeners [] desired = Inr desired"
| "desired_listeners (route # rest) desired =
     (case desired_of_route route (Route_EffectiveIngresses route) desired of
        Inl err \<Rightarrow> Inl err
      | Inr desired' \<Rightarrow> desired_listeners rest desired')"

text \<open>The second loop: a listener that is still wanted as it is stays, any other is closed.\<close>

definition listener_matches :: "device_listener \<Rightarrow> device_route \<Rightarrow> bool" where
  "listener_matches current route \<longleftrightarrow>
     dl_deviceID current = r_DeviceID route \<and> dl_method current = r_IngressMethod route
     \<and> dl_password current = r_IngressPassword route"

fun reconcile_existing ::
    "(int \<times> device_listener) list \<Rightarrow> (int, device_route) gomap \<Rightarrow> gateway \<Rightarrow> (int, device_route) gomap \<times> gateway" where
  "reconcile_existing [] desired g = (desired, g)"
| "reconcile_existing ((port, current) # rest) desired g =
     (case gget desired port of
        Some route \<Rightarrow>
          if listener_matches current route
          then reconcile_existing rest (gdel port desired)
                 (g\<lparr>g_listeners := gput port (current\<lparr>dl_active := True\<rparr>) (g_listeners g)\<rparr>)
          else reconcile_existing rest desired (close_listener g port current)
      | None \<Rightarrow> reconcile_existing rest desired (close_listener g port current))"

text \<open>The third loop: what is left over is started.\<close>

fun start_listeners :: "net_env \<Rightarrow> device_route list \<Rightarrow> gateway \<Rightarrow> gateway \<times> go_error option" where
  "start_listeners e [] g = (g, None)"
| "start_listeners e (route # rest) g =
     (case startListenerLocked e g route True of
        (g', Some err) \<Rightarrow> (g', Some err)
      | (g', None) \<Rightarrow> start_listeners e rest g')"

definition ReconcileListeners :: "net_env \<Rightarrow> gateway \<Rightarrow> gateway \<times> go_error option" where
  "ReconcileListeners e g =
     (case desired_listeners (Table_Snapshot (g_Table g)) [] of
        Inl err \<Rightarrow> (g, Some err)
      | Inr desired \<Rightarrow>
          (case reconcile_existing (g_listeners g) desired g of
             (desired', g') \<Rightarrow> start_listeners e (map snd desired') g'))"

subsection \<open>Preparation\<close>

definition ingress_route :: "device \<Rightarrow> device_ingress \<Rightarrow> device_route" where
  "ingress_route d ingress = zero_route\<lparr>r_DeviceID := d_ID d, r_IngressPort := di_Port ingress,
     r_IngressMethod := di_Method ingress, r_IngressPassword := di_Password ingress\<rparr>"

fun prepare_ingresses ::
    "net_env \<Rightarrow> device \<Rightarrow> device_ingress list \<Rightarrow> gateway \<Rightarrow> gateway \<times> go_error option" where
  "prepare_ingresses e d [] g = (g, None)"
| "prepare_ingresses e d (ingress # rest) g =
     (case gget (g_listeners g) (di_Port ingress) of
        Some current \<Rightarrow>
          if dl_deviceID current \<noteq> d_ID d
          then (g, Some (ErrMsg (''Shadowsocks ingress port '' @ sprint_int (di_Port ingress)
                  @ '' is already reserved'')))
          else (case ValidateRoute e (ingress_route d ingress) of
                  Some err \<Rightarrow> (g, Some err)
                | None \<Rightarrow> prepare_ingresses e d rest g)
      | None \<Rightarrow>
          (case ValidateRoute e (ingress_route d ingress) of
             Some err \<Rightarrow> (g, Some err)
           | None \<Rightarrow>
               (case startListenerLocked e g (ingress_route d ingress) False of
                  (g', Some err) \<Rightarrow> (g', Some err)
                | (g', None) \<Rightarrow> prepare_ingresses e d rest g')))"

definition PrepareDevice :: "net_env \<Rightarrow> gateway \<Rightarrow> device \<Rightarrow> gateway \<times> go_error option" where
  "PrepareDevice e g d = prepare_ingresses e d (Device_EffectiveIngresses d) g"

definition PrepareListener :: "net_env \<Rightarrow> gateway \<Rightarrow> device_route \<Rightarrow> gateway \<times> go_error option" where
  "PrepareListener e g route =
     PrepareDevice e g (zero_device\<lparr>d_ID := r_DeviceID route, d_IngressPort := r_IngressPort route,
       d_IngressMethod := r_IngressMethod route, d_IngressPassword := r_IngressPassword route,
       d_Ingresses := r_Ingresses route\<rparr>)"

fun close_all :: "(int \<times> device_listener) list \<Rightarrow> gateway \<Rightarrow> gateway" where
  "close_all [] g = g"
| "close_all ((port, item) # rest) g = close_all rest (close_listener g port item)"

definition CloseListeners :: "gateway \<Rightarrow> gateway" where
  "CloseListeners g = close_all (g_listeners g) g"

section \<open>Client connections\<close>

text \<open>
  How one accepted connection ends. Only \<open>HsRelayed\<close> reaches an upstream; it names the upstream and
  the target the bytes were relayed to.
\<close>

datatype hs_result =
    HsRefused                     \<comment> \<open>not ready, listener inactive, no route, or route expired\<close>
  | HsNoTarget                    \<comment> \<open>the wrapped connection exposes no target\<close>
  | HsHandshakeFailed             \<comment> \<open>the target is nil\<close>
  | HsUpstreamFailed go_error
  | HsRelayed socks5_config string

definition admit :: "gateway \<Rightarrow> device_listener \<Rightarrow> time \<Rightarrow> device_route option" where
  "admit g item now =
     (if \<not> Ready g \<or> \<not> dl_active item then None
      else case Table_ByDevice (g_Table g) (dl_deviceID item) of
          None \<Rightarrow> None
        | Some route \<Rightarrow>
            (case pc_ExpiresAt (r_Credential route) of
               Some expires \<Rightarrow> if now > expires then None else Some route
             | None \<Rightarrow> Some route))"

definition upstream_config :: "device_route \<Rightarrow> socks5_config" where
  "upstream_config route =
     \<lparr>sc_Address = net_JoinHostPort (pc_Host (r_Credential route)) (sprint_int (pc_Port (r_Credential route))),
      sc_Username = pc_Username (r_Credential route), sc_Password = pc_Password (r_Credential route)\<rparr>"

text \<open>
  The handler up to the moment the relay ends. \<open>target\<close> is what the wrapped connection says: \<open>None\<close> when
  it has no method \<open>Target\<close>, \<open>Some None\<close> for a nil address. \<open>dial\<close> is the outcome of \<open>DialSOCKS5\<close>. The
  connection is tracked under \<open>cancel\<close> from before the dial until the deferred \<open>untrack\<close>.
\<close>

definition handleShadowsocks ::
    "gateway \<Rightarrow> device_listener \<Rightarrow> time \<Rightarrow> string option option \<Rightarrow>
     (socks5_config \<Rightarrow> string \<Rightarrow> go_error option) \<Rightarrow> cancel_func \<Rightarrow> gateway \<times> hs_result" where
  "handleShadowsocks g item now target dial cancel =
     (case admit g item now of
        None \<Rightarrow> (g, HsRefused)
      | Some route \<Rightarrow>
          (case target of
             None \<Rightarrow> (g\<lparr>g_connectFailed := g_connectFailed g + 1\<rparr>, HsNoTarget)
           | Some None \<Rightarrow> (g\<lparr>g_connectFailed := g_connectFailed g + 1\<rparr>, HsHandshakeFailed)
           | Some (Some addr) \<Rightarrow>
               let (conns, n) = Track (g_Connections g) (r_DeviceID route) cancel;
                   g1 = g\<lparr>g_Connections := conns\<rparr>;
                   (g2, res) =
                     (case dial (upstream_config route) addr of
                        Some err \<Rightarrow> (g1\<lparr>g_connectFailed := g_connectFailed g1 + 1\<rparr>, HsUpstreamFailed err)
                      | None \<Rightarrow> (g1\<lparr>g_connectOK := g_connectOK g1 + 1\<rparr>, HsRelayed (upstream_config route) addr))
               in (g2\<lparr>g_Connections := untrack (g_Connections g2) (r_DeviceID route) n\<rparr>, res)))"

text \<open>The four numbers that \<open>metrics\<close> prints.\<close>

definition metrics :: "gateway \<Rightarrow> int \<times> int \<times> u64 \<times> u64" where
  "metrics g = (if Ready g then 1 else 0, Total (g_Connections g), g_connectOK g, g_connectFailed g)"

section \<open>Sockets and listeners agree\<close>

text \<open>
  No listener is filed without its socket, no socket is open without a listener, and a socket
  number is never used twice.
\<close>

definition gw_wf :: "gateway \<Rightarrow> bool" where
  "gw_wf g \<longleftrightarrow> gwf (g_listeners g)
     \<and> (\<forall>s p. (s, p) \<in> set (g_open g) \<longleftrightarrow> (\<exists>l. gget (g_listeners g) p = Some l \<and> dl_listener l = s))
     \<and> (\<forall>p l. gget (g_listeners g) p = Some l \<longrightarrow> dl_listener l < g_nextSocket g)
     \<and> (\<forall>p q l k. gget (g_listeners g) p = Some l \<longrightarrow> gget (g_listeners g) q = Some k \<longrightarrow>
          dl_listener l = dl_listener k \<longrightarrow> p = q)"

lemma gw_wf_close:
  assumes "gw_wf g" and "gget (g_listeners g) port = Some item"
  shows "gw_wf (close_listener g port item)"
  using assms unfolding gw_wf_def close_listener_def by (auto split: if_splits)

lemma gw_wf_activate:
  assumes "gw_wf g" and "gget (g_listeners g) port = Some item"
  shows "gw_wf (g\<lparr>g_listeners := gput port (item\<lparr>dl_active := b\<rparr>) (g_listeners g)\<rparr>)"
  using assms unfolding gw_wf_def by (auto split: if_splits)

lemma start_cases:
  "startListenerLocked e g route active = (g', r) \<Longrightarrow>
     (case r of
        Some err \<Rightarrow> g' = g
      | None \<Rightarrow> net_Listen e g (r_IngressPort route) = None
          \<and> g' = g\<lparr>g_listeners := gput (r_IngressPort route)
                \<lparr>dl_deviceID = r_DeviceID route, dl_method = r_IngressMethod route,
                 dl_password = r_IngressPassword route, dl_listener = g_nextSocket g,
                 dl_active = active\<rparr> (g_listeners g),
             g_open := (g_nextSocket g, r_IngressPort route) # g_open g,
             g_nextSocket := Suc (g_nextSocket g)\<rparr>)"
  by (auto simp: startListenerLocked_def split: option.splits)

lemma listen_free:
  assumes "gw_wf g" and "net_Listen e g port = None"
  shows "gget (g_listeners g) port = None"
proof (cases "gget (g_listeners g) port")
  case (Some l)
  then have "(dl_listener l, port) \<in> set (g_open g)" using assms(1) by (simp add: gw_wf_def)
  then show ?thesis using assms(2) by (force simp: net_Listen_def split: if_splits)
qed

lemma gw_wf_open:
  assumes "gw_wf g" and "gget (g_listeners g) port = None"
    and "dl_listener l = g_nextSocket g"
  shows "gw_wf (g\<lparr>g_listeners := gput port l (g_listeners g),
           g_open := (g_nextSocket g, port) # g_open g, g_nextSocket := Suc (g_nextSocket g)\<rparr>)"
  using assms unfolding gw_wf_def
  by (auto simp: less_Suc_eq split: if_splits) (metis less_irrefl_nat)+

lemma gw_wf_start:
  assumes "gw_wf g" and "startListenerLocked e g route active = (g', r)"
  shows "gw_wf g'"
proof (cases r)
  case (Some err)
  then show ?thesis using start_cases [OF assms(2)] assms(1) by simp
next
  case None
  with start_cases [OF assms(2)] have free: "net_Listen e g (r_IngressPort route) = None" by simp
  from None show ?thesis
    using start_cases [OF assms(2)] gw_wf_open [OF assms(1) listen_free [OF assms(1) free]] by simp
qed

section \<open>The three loops of reconciliation\<close>

text \<open>Operations on listeners leave every other field of the gateway alone.\<close>

definition only_listeners :: "gateway \<Rightarrow> gateway \<Rightarrow> bool" where
  "only_listeners g g' \<longleftrightarrow>
     g' = g\<lparr>g_listeners := g_listeners g', g_open := g_open g', g_nextSocket := g_nextSocket g'\<rparr>"

lemma only_listeners_refl [simp]: "only_listeners g g"
  by (simp add: only_listeners_def)

lemma only_listeners_trans [trans]:
  "only_listeners g g' \<Longrightarrow> only_listeners g' g'' \<Longrightarrow> only_listeners g g''"
  unfolding only_listeners_def by (cases g; cases g'; cases g'') simp

lemma only_listenersD:
  assumes "only_listeners g g'"
  shows "g_Table g' = g_Table g" "g_Connections g' = g_Connections g" "g_draining g' = g_draining g"
    "g_canaryOK g' = g_canaryOK g" "g_controlSynced g' = g_controlSynced g"
    "g_listenHost g' = g_listenHost g" "g_connectOK g' = g_connectOK g"
    "g_connectFailed g' = g_connectFailed g"
  using assms by (cases g; cases g'; simp add: only_listeners_def)+

lemma only_listeners_close: "only_listeners g (close_listener g port item)"
  by (simp add: only_listeners_def close_listener_def)

lemma only_listeners_start:
  "startListenerLocked e g route active = (g', r) \<Longrightarrow> only_listeners g g'"
  by (drule start_cases) (auto simp: only_listeners_def split: option.splits)

lemma desired_of_route_spec:
  assumes "desired_of_route route ings des = Inr des'" and "gwf des"
  shows "gwf des' \<and> (\<forall>p r. gget des' p = Some r \<longleftrightarrow>
     gget des p = Some r \<or> (\<exists>i \<in> set ings. di_Port i = p \<and> r = ingress_item route i))"
  using assms
proof (induction ings arbitrary: des)
  case (Cons i ings)
  from Cons.prems(1) have free: "gget des (di_Port i) = None"
    and rec: "desired_of_route route ings (gput (di_Port i) (ingress_item route i) des) = Inr des'"
    by (auto split: if_splits)
  from Cons.IH [OF rec] Cons.prems(2) free show ?case by (auto split: if_splits)
qed simp

lemma desired_listeners_spec:
  assumes "desired_listeners rs des = Inr des'" and "gwf des"
  shows "gwf des' \<and> (\<forall>p r. gget des' p = Some r \<longleftrightarrow> gget des p = Some r \<or>
     (\<exists>route \<in> set rs. \<exists>i \<in> set (Route_EffectiveIngresses route). di_Port i = p \<and> r = ingress_item route i))"
  using assms
proof (induction rs arbitrary: des)
  case (Cons route rs)
  from Cons.prems(1) obtain des1
    where one: "desired_of_route route (Route_EffectiveIngresses route) des = Inr des1"
      and rec: "desired_listeners rs des1 = Inr des'"
    by (auto split: sum.splits)
  show ?case
    using Cons.IH [OF rec] desired_of_route_spec [OF one Cons.prems(2)] by auto
qed simp

definition kept :: "device_listener \<Rightarrow> device_route option \<Rightarrow> bool" where
  "kept l want \<longleftrightarrow> (case want of None \<Rightarrow> False | Some r \<Rightarrow> listener_matches l r)"

lemma reconcile_existing_Cons:
  "reconcile_existing ((p, l) # ls) des g =
     (if kept l (gget des p)
      then reconcile_existing ls (gdel p des) (g\<lparr>g_listeners := gput p (l\<lparr>dl_active := True\<rparr>) (g_listeners g)\<rparr>)
      else reconcile_existing ls des (close_listener g p l))"
  by (auto simp: kept_def split: option.splits)

text \<open>
  What the second loop has done to a map of listeners and to the wish list once it has visited
  the entries \<open>ls\<close>.
\<close>

definition visited ::
    "(int, device_listener) gomap \<Rightarrow> (int, device_route) gomap \<Rightarrow> (int, device_listener) gomap \<Rightarrow>
     (int, device_route) gomap \<Rightarrow> (int, device_listener) gomap \<Rightarrow> bool" where
  "visited ls des lst des' lst' \<longleftrightarrow>
     (\<forall>p. gget lst' p =
          (case gget ls p of None \<Rightarrow> gget lst p
           | Some l \<Rightarrow> if kept l (gget des p) then Some (l\<lparr>dl_active := True\<rparr>) else None))
     \<and> (\<forall>p. gget des' p =
          (case gget ls p of None \<Rightarrow> gget des p
           | Some l \<Rightarrow> if kept l (gget des p) then None else gget des p))"

lemma visited_keep:
  assumes "visited ls (gdel p des) (gput p (l\<lparr>dl_active := True\<rparr>) lst) des' lst'"
    and "kept l (gget des p)" and "gget ls p = None"
  shows "visited ((p, l) # ls) des lst des' lst'"
  using assms by (auto simp: visited_def split: option.splits)

lemma visited_close:
  assumes "visited ls des (gdel p lst) des' lst'" and "\<not> kept l (gget des p)" and "gget ls p = None"
  shows "visited ((p, l) # ls) des lst des' lst'"
  using assms by (auto simp: visited_def split: option.splits)

lemma reconcile_existing_spec:
  assumes "reconcile_existing ls des g = (des', g')" and "gw_wf g" and "gwf ls" and "gwf des"
    and "\<And>p l. gget ls p = Some l \<Longrightarrow> gget (g_listeners g) p = Some l"
  shows "gw_wf g' \<and> only_listeners g g' \<and> gwf des' \<and> visited ls des (g_listeners g) des' (g_listeners g')"
  using assms
proof (induction ls arbitrary: des g)
  case Nil
  then show ?case by (simp add: visited_def)
next
  case (Cons e ls)
  obtain p l where e: "e = (p, l)" by (cases e)
  have l: "gget (g_listeners g) p = Some l" and np: "gget ls p = None" and wls: "gwf ls"
    using Cons.prems e by (auto simp: gwf_Cons)
  have rest: "gget (g_listeners g) q = Some k \<and> q \<noteq> p" if "gget ls q = Some k" for q k
    using Cons.prems(5) [of q k] that e np by (cases "q = p") auto
  show ?case
  proof (cases "kept l (gget des p)")
    case True
    let ?g = "g\<lparr>g_listeners := gput p (l\<lparr>dl_active := True\<rparr>) (g_listeners g)\<rparr>"
    have "reconcile_existing ls (gdel p des) ?g = (des', g')"
      using Cons.prems(1) e True by (simp add: reconcile_existing_Cons del: reconcile_existing.simps)
    from Cons.IH [OF this gw_wf_activate [OF Cons.prems(2) l] wls] Cons.prems(4) rest
    have "gw_wf g' \<and> only_listeners ?g g' \<and> gwf des'
       \<and> visited ls (gdel p des) (gput p (l\<lparr>dl_active := True\<rparr>) (g_listeners g)) des' (g_listeners g')"
      by simp
    moreover have "only_listeners g ?g" by (simp add: only_listeners_def)
    ultimately show ?thesis
      using visited_keep [OF _ True np] e by (auto intro: only_listeners_trans)
  next
    case False
    have "reconcile_existing ls des (close_listener g p l) = (des', g')"
      using Cons.prems(1) e False by (simp add: reconcile_existing_Cons del: reconcile_existing.simps)
    from Cons.IH [OF this gw_wf_close [OF Cons.prems(2) l] wls Cons.prems(4)] rest
    have "gw_wf g' \<and> only_listeners (close_listener g p l) g' \<and> gwf des'
       \<and> visited ls des (gdel p (g_listeners g)) des' (g_listeners g')"
      by (simp add: close_listener_def)
    then show ?thesis
      using visited_close [OF _ False np] e by (auto intro: only_listeners_trans only_listeners_close)
  qed
qed

lemma start_listeners_wf:
  assumes "start_listeners e rs g = (g', r)" and "gw_wf g"
  shows "gw_wf g' \<and> only_listeners g g'"
  using assms
proof (induction rs arbitrary: g)
  case (Cons route rs)
  obtain g1 r1 where one: "startListenerLocked e g route True = (g1, r1)" by fastforce
  show ?case
    using Cons.prems Cons.IH [of g1] gw_wf_start [OF Cons.prems(2) one] only_listeners_start [OF one] one
    by (auto split: option.splits intro: only_listeners_trans)
qed simp

definition serves :: "device_listener \<Rightarrow> device_route \<Rightarrow> bool" where
  "serves l r \<longleftrightarrow> dl_deviceID l = r_DeviceID r \<and> dl_method l = r_IngressMethod r \<and> dl_password l = r_IngressPassword r \<and> dl_active l"

lemma serves_active: "serves l r \<Longrightarrow> dl_active l"
  by (simp add: serves_def)

lemma start_listeners_spec:
  assumes "start_listeners e rs g = (g', None)" and "distinct (map r_IngressPort rs)"
  shows "(\<forall>p. p \<notin> r_IngressPort ` set rs \<longrightarrow> gget (g_listeners g') p = gget (g_listeners g) p)
     \<and> (\<forall>r \<in> set rs. \<exists>l. gget (g_listeners g') (r_IngressPort r) = Some l \<and> serves l r)"
  using assms
proof (induction rs arbitrary: g)
  case (Cons route rs)
  obtain g1 where one: "startListenerLocked e g route True = (g1, None)"
    and rec: "start_listeners e rs g1 = (g', None)"
    using Cons.prems(1) by (auto split: prod.splits option.splits)
  have "\<exists>l. gget (g_listeners g1) (r_IngressPort route) = Some l \<and> serves l route"
    and "\<forall>p. p \<noteq> r_IngressPort route \<longrightarrow> gget (g_listeners g1) p = gget (g_listeners g) p"
    using start_cases [OF one] by (auto simp: serves_def listener_matches_def)
  with Cons.IH [OF rec] Cons.prems(2) show ?case by auto
qed simp

section \<open>Reconciliation establishes exactly the table's listeners\<close>

text \<open>A route and one of its ingresses ask for a listener on a port.\<close>

definition asks_for :: "table \<Rightarrow> int \<Rightarrow> device_route \<Rightarrow> bool" where
  "asks_for t p r \<longleftrightarrow> (\<exists>route \<in> set (Table_Snapshot t). \<exists>i \<in> set (Route_EffectiveIngresses route).
     di_Port i = p \<and> r = ingress_item route i)"

lemma asks_for_port: "asks_for t p r \<Longrightarrow> r_IngressPort r = p"
  by (auto simp: asks_for_def ingress_item_def)

lemma desired_asks_for:
  assumes "desired_listeners (Table_Snapshot t) [] = Inr des"
  shows "gwf des" and "gget des p = Some r \<longleftrightarrow> asks_for t p r"
  using desired_listeners_spec [OF assms] by (auto simp: asks_for_def)

lemma Reconcile_wf:
  assumes "ReconcileListeners e g = (g', r)" and "gw_wf g"
  shows "gw_wf g' \<and> only_listeners g g'"
proof (cases "desired_listeners (Table_Snapshot (g_Table g)) []")
  case (Inl err)
  then show ?thesis using assms by (simp add: ReconcileListeners_def)
next
  case (Inr des)
  obtain des' g1 where two: "reconcile_existing (g_listeners g) des g = (des', g1)" by fastforce
  have "gw_wf g1 \<and> only_listeners g g1"
    using reconcile_existing_spec [OF two assms(2)] assms(2) desired_asks_for(1) [OF Inr]
    by (simp add: gw_wf_def)
  moreover have "start_listeners e (map snd des') g1 = (g', r)"
    using assms(1) Inr two by (simp add: ReconcileListeners_def)
  ultimately show ?thesis
    using start_listeners_wf by (blast intro: only_listeners_trans)
qed

text \<open>The outcome of a successful run, phase by phase.\<close>

lemma Reconcile_phases:
  assumes run: "ReconcileListeners e g = (g', None)" and wf: "gw_wf g"
  obtains des des' lst where "\<And>q v. gget des q = Some v \<longleftrightarrow> asks_for (g_Table g) q v"
    and "visited (g_listeners g) des (g_listeners g) des' lst"
    and "\<And>q v. gget des' q = Some v \<Longrightarrow> \<exists>l. gget (g_listeners g') q = Some l \<and> serves l v"
    and "\<And>q. gget des' q = None \<Longrightarrow> gget (g_listeners g') q = gget lst q"
proof -
  obtain des where des: "desired_listeners (Table_Snapshot (g_Table g)) [] = Inr des"
    using run by (auto simp: ReconcileListeners_def split: sum.splits)
  obtain des' g1 where two: "reconcile_existing (g_listeners g) des g = (des', g1)" by fastforce
  have three: "start_listeners e (map snd des') g1 = (g', None)"
    using run des two by (simp add: ReconcileListeners_def)
  have gd': "gwf des'" and vis: "visited (g_listeners g) des (g_listeners g) des' (g_listeners g1)"
    using reconcile_existing_spec [OF two wf] wf desired_asks_for(1) [OF des]
    by (auto simp: gw_wf_def)
  have port: "r_IngressPort v = q" if "(q, v) \<in> set des'" for q v
    using that gd' vis desired_asks_for(2) [OF des, of q v] asks_for_port [of "g_Table g" q v]
    by (auto simp: gget_iff_mem [symmetric] visited_def split: option.splits if_splits)
  then have ports: "map r_IngressPort (map snd des') = map fst des'" by auto
  note sp = start_listeners_spec [OF three, unfolded ports]
  show thesis
  proof (rule that [OF desired_asks_for(2) [OF des] vis])
    show "\<exists>l. gget (g_listeners g') q = Some l \<and> serves l v" if "gget des' q = Some v" for q v
      using sp gd' port gget_mem [OF that] by (force simp: gwf_def)
    show "gget (g_listeners g') q = gget (g_listeners g1) q" if "gget des' q = None" for q
      using sp gd' that port by (force simp: gwf_def map_of_eq_None_iff)
  qed
qed

lemma Reconcile_sound:
  assumes "ReconcileListeners e g = (g', None)" and "gw_wf g" and "gget (g_listeners g') p = Some l"
  shows "\<exists>r. asks_for (g_Table g) p r \<and> serves l r"
  using assms(1,2)
proof (rule Reconcile_phases)
  fix des des' lst
  assume des: "\<And>q v. gget des q = Some v \<longleftrightarrow> asks_for (g_Table g) q v"
    and vis: "visited (g_listeners g) des (g_listeners g) des' lst"
    and new: "\<And>q v. gget des' q = Some v \<Longrightarrow> \<exists>l. gget (g_listeners g') q = Some l \<and> serves l v"
    and old: "\<And>q. gget des' q = None \<Longrightarrow> gget (g_listeners g') q = gget lst q"
  show ?thesis
  proof (cases "gget des' p")
    case (Some v)
    then have "gget des p = Some v"
      using vis by (auto simp: visited_def split: option.splits if_splits)
    then show ?thesis using new [OF Some] assms(3) des by auto
  next
    case None
    then obtain k v where "l = k\<lparr>dl_active := True\<rparr>" "gget des p = Some v" "listener_matches k v"
      using vis old assms(3) by (auto simp: visited_def kept_def split: option.splits if_splits)
    then show ?thesis using des by (auto simp: serves_def listener_matches_def)
  qed
qed

lemma Reconcile_complete:
  assumes "ReconcileListeners e g = (g', None)" and "gw_wf g" and "asks_for (g_Table g) p r"
  shows "\<exists>l. gget (g_listeners g') p = Some l \<and> serves l r
     \<and> (\<forall>k. gget (g_listeners g) p = Some k \<and> listener_matches k r \<longrightarrow> dl_listener l = dl_listener k)"
  using assms(1,2)
proof (rule Reconcile_phases)
  fix des des' lst
  assume des: "\<And>q v. gget des q = Some v \<longleftrightarrow> asks_for (g_Table g) q v"
    and vis: "visited (g_listeners g) des (g_listeners g) des' lst"
    and new: "\<And>q v. gget des' q = Some v \<Longrightarrow> \<exists>l. gget (g_listeners g') q = Some l \<and> serves l v"
    and old: "\<And>q. gget des' q = None \<Longrightarrow> gget (g_listeners g') q = gget lst q"
  have want: "gget des p = Some r" using des assms(3) by simp
  show ?thesis
  proof (cases "\<exists>k. gget (g_listeners g) p = Some k \<and> listener_matches k r")
    case True
    then obtain k where k: "gget (g_listeners g) p = Some k" "listener_matches k r" by blast
    then have "gget lst p = Some (k\<lparr>dl_active := True\<rparr>)" "gget des' p = None"
      using vis want by (simp_all add: visited_def kept_def)
    then show ?thesis using old [of p] k by (auto simp: serves_def listener_matches_def)
  next
    case False
    then have "gget des' p = Some r"
      using vis want by (auto simp: visited_def kept_def split: option.splits)
    from new [OF this] False show ?thesis by blast
  qed
qed


text \<open>A world in which every library call and every \<open>net.Listen\<close> succeeds, and a one-device gateway.\<close>

definition calm_env :: net_env where
  "calm_env = \<lparr>e_NewServerConfig = (\<lambda>_ _. None), e_ServerInit = (\<lambda>_ _. None), e_Listen = (\<lambda>_ _. None)\<rparr>"

definition demo_route :: device_route where
  "demo_route = zero_route\<lparr>r_DeviceID := ''d'', r_DeviceUsername := ''d'', r_IngressPort := 5000,
     r_IngressMethod := LegacyAES256GCM, r_IngressPassword := ''secret-1'', r_Version := 1\<rparr>"

definition demo_gateway :: gateway where
  "demo_gateway = NewGateway (Table_Load NewTable [demo_route]) NewConnections"

lemmas demo_defs = calm_env_def demo_route_def demo_gateway_def NewGateway_def NewTable_def
  NewConnections_def zero_defs method_defs

lemma gw_wf_New: "gw_wf (NewGateway t c)"
  by (simp add: gw_wf_def NewGateway_def)


subsection \<open>When it succeeds\<close>

text \<open>Everything a listener needs from the outside is granted.\<close>

definition startable :: "net_env \<Rightarrow> string \<Rightarrow> device_ingress \<Rightarrow> bool" where
  "startable e host i \<longleftrightarrow> SS_Validate (e_NewServerConfig e) (di_Method i) (di_Password i) = None
     \<and> e_ServerInit e (di_Method i) (di_Password i) = None \<and> e_Listen e host (di_Port i) = None"

abbreviation all_ingresses :: "device_route list \<Rightarrow> device_ingress list" where
  "all_ingresses rs \<equiv> concat (map Route_EffectiveIngresses rs)"

lemma desired_of_route_ok:
  assumes "\<forall>i \<in> set ings. di_Method i \<noteq> [] \<and> di_Password i \<noteq> []" and "distinct (map di_Port ings)"
    and "\<forall>i \<in> set ings. gget des (di_Port i) = None"
  shows "\<exists>des'. desired_of_route route ings des = Inr des'
     \<and> (\<forall>p. gget des' p = None \<longleftrightarrow> gget des p = None \<and> p \<notin> di_Port ` set ings)"
  using assms
proof (induction ings arbitrary: des)
  case (Cons i ings)
  have "\<forall>j \<in> set ings. gget (gput (di_Port i) (ingress_item route i) des) (di_Port j) = None"
    using Cons.prems distinct_map_neq [OF Cons.prems(2)] by simp
  with Cons.IH [of "gput (di_Port i) (ingress_item route i) des"] Cons.prems
  show ?case by auto
qed simp

lemma desired_listeners_ok:
  assumes "\<forall>i \<in> set (all_ingresses rs). di_Method i \<noteq> [] \<and> di_Password i \<noteq> []"
    and "distinct (map di_Port (all_ingresses rs))"
    and "\<forall>i \<in> set (all_ingresses rs). gget des (di_Port i) = None"
  shows "\<exists>des'. desired_listeners rs des = Inr des'"
  using assms
proof (induction rs arbitrary: des)
  case (Cons r rs)
  have "\<forall>i \<in> set (Route_EffectiveIngresses r). di_Method i \<noteq> [] \<and> di_Password i \<noteq> []"
    and "distinct (map di_Port (Route_EffectiveIngresses r))"
    and "\<forall>i \<in> set (Route_EffectiveIngresses r). gget des (di_Port i) = None"
    using Cons.prems by simp_all
  from desired_of_route_ok [OF this, of r] obtain des1
    where one: "desired_of_route r (Route_EffectiveIngresses r) des = Inr des1"
      and frame: "\<forall>p. gget des1 p = None \<longleftrightarrow> gget des p = None \<and> p \<notin> di_Port ` set (Route_EffectiveIngresses r)"
    by blast
  have "\<forall>i \<in> set (all_ingresses rs). gget des1 (di_Port i) = None"
    using Cons.prems(2,3) frame by (simp add: image_iff) blast
  then have "\<exists>des'. desired_listeners rs des1 = Inr des'"
    using Cons.prems by (intro Cons.IH) simp_all
  with one show ?case by simp
qed simp

lemma start_ok:
  assumes "SS_Validate (e_NewServerConfig e) (r_IngressMethod r) (r_IngressPassword r) = None"
    and "e_ServerInit e (r_IngressMethod r) (r_IngressPassword r) = None"
    and "e_Listen e (g_listenHost g) (r_IngressPort r) = None"
    and "gw_wf g" and "gget (g_listeners g) (r_IngressPort r) = None"
  shows "\<exists>g'. startListenerLocked e g r act = (g', None)
     \<and> (\<forall>p. p \<noteq> r_IngressPort r \<longrightarrow> gget (g_listeners g') p = gget (g_listeners g) p)"
proof -
  have "r_IngressPort r \<notin> snd ` set (g_open g)" using assms(4,5) by (auto simp: gw_wf_def)
  then show ?thesis
    using assms Validate_NoneD [OF assms(1)] by (simp add: startListenerLocked_def net_Listen_def)
qed

lemma start_listeners_ok:
  assumes "\<forall>r \<in> set rs. SS_Validate (e_NewServerConfig e) (r_IngressMethod r) (r_IngressPassword r) = None
       \<and> e_ServerInit e (r_IngressMethod r) (r_IngressPassword r) = None
       \<and> e_Listen e (g_listenHost g) (r_IngressPort r) = None
       \<and> gget (g_listeners g) (r_IngressPort r) = None"
    and "distinct (map r_IngressPort rs)" and "gw_wf g"
  shows "\<exists>g'. start_listeners e rs g = (g', None)"
  using assms
proof (induction rs arbitrary: g)
  case (Cons r rs)
  from start_ok [of e r g True] Cons.prems obtain g1
    where one: "startListenerLocked e g r True = (g1, None)"
      and frame: "\<forall>p. p \<noteq> r_IngressPort r \<longrightarrow> gget (g_listeners g1) p = gget (g_listeners g) p"
    by auto
  have "\<forall>v \<in> set rs. r_IngressPort v \<noteq> r_IngressPort r"
    using distinct_map_neq [OF Cons.prems(2)] by blast
  then have "\<exists>g'. start_listeners e rs g1 = (g', None)"
    using Cons.prems frame only_listenersD(6) [OF only_listeners_start [OF one]]
      gw_wf_start [OF Cons.prems(3) one]
    by (intro Cons.IH) simp_all
  with one show ?case by simp
qed simp

text \<open>
  C16: reconciliation succeeds whenever the ingress ports of the table are pairwise different and
  every ingress carries credentials that validate and a port the system grants. A port that the
  gateway itself still holds for another device or another password never gets in the way.
\<close>

theorem reconcile_succeeds:
  assumes wf: "gw_wf g"
    and dist: "distinct (map di_Port (all_ingresses (Table_Snapshot (g_Table g))))"
    and ok: "list_all (startable e (g_listenHost g)) (all_ingresses (Table_Snapshot (g_Table g)))"
  shows "\<exists>g'. ReconcileListeners e g = (g', None)"
proof -
  let ?rs = "Table_Snapshot (g_Table g)"
  have "\<forall>i \<in> set (all_ingresses ?rs). di_Method i \<noteq> [] \<and> di_Password i \<noteq> []"
    using ok by (auto simp: list_all_iff startable_def dest: Validate_NoneD)
  from desired_listeners_ok [OF this dist, of "[]"] obtain des
    where des: "desired_listeners ?rs [] = Inr des" by auto
  obtain des' g1 where two: "reconcile_existing (g_listeners g) des g = (des', g1)" by fastforce
  have gd': "gwf des'" and wf1: "gw_wf g1" and only: "only_listeners g g1"
    and vis: "visited (g_listeners g) des (g_listeners g) des' (g_listeners g1)"
    using reconcile_existing_spec [OF two wf] wf desired_asks_for(1) [OF des]
    by (auto simp: gw_wf_def)
  have entry: "asks_for (g_Table g) q v \<and> gget (g_listeners g1) q = None" if "(q, v) \<in> set des'" for q v
    using that gd' vis desired_asks_for(2) [OF des, of q v]
    by (auto simp: gget_iff_mem [symmetric] visited_def split: option.splits if_splits)
  have st: "startable e (g_listenHost g) i" if "route \<in> set ?rs" "i \<in> set (Route_EffectiveIngresses route)"
    for route i using that ok by (auto simp: list_all_iff)
  have port: "r_IngressPort v = q" if "(q, v) \<in> set des'" for q v
    using entry [OF that] asks_for_port by blast
  then have "map r_IngressPort (map snd des') = map fst des'" by auto
  then have "distinct (map r_IngressPort (map snd des'))" using gd' by (simp only: gwf_def)
  moreover have "SS_Validate (e_NewServerConfig e) (r_IngressMethod v) (r_IngressPassword v) = None
      \<and> e_ServerInit e (r_IngressMethod v) (r_IngressPassword v) = None
      \<and> e_Listen e (g_listenHost g1) (r_IngressPort v) = None
      \<and> gget (g_listeners g1) (r_IngressPort v) = None" if "v \<in> set (map snd des')" for v
  proof -
    from that obtain q where q: "(q, v) \<in> set des'" by auto
    obtain route i where "route \<in> set ?rs" "i \<in> set (Route_EffectiveIngresses route)"
      and v: "v = ingress_item route i"
      using entry [OF q] by (auto simp: asks_for_def)
    then have "startable e (g_listenHost g) i" using st by blast
    then show ?thesis
      using entry [OF q] port [OF q] only_listenersD(6) [OF only]
      by (simp add: startable_def v ingress_item_def)
  qed
  ultimately have "\<exists>g'. start_listeners e (map snd des') g1 = (g', None)"
    using wf1 by (intro start_listeners_ok) simp_all
  then show ?thesis using des two by (simp add: ReconcileListeners_def)
qed

theorem reconcile_succeeds_witness:
  "gw_wf demo_gateway
   \<and> distinct (map di_Port (all_ingresses (Table_Snapshot (g_Table demo_gateway))))
   \<and> list_all (startable calm_env (g_listenHost demo_gateway)) (all_ingresses (Table_Snapshot (g_Table demo_gateway)))
   \<and> (\<exists>g'. ReconcileListeners calm_env demo_gateway = (g', None))"
proof -
  have wf: "gw_wf demo_gateway" by (simp add: demo_gateway_def gw_wf_New)
  have d: "distinct (map di_Port (all_ingresses (Table_Snapshot (g_Table demo_gateway))))"
    and s: "list_all (startable calm_env (g_listenHost demo_gateway)) (all_ingresses (Table_Snapshot (g_Table demo_gateway)))"
    by (simp_all add: demo_defs Table_Snapshot_def Table_Load_def Route_EffectiveIngresses_def
        startable_def SS_Validate_def)
  show ?thesis using reconcile_succeeds [OF wf d s] wf d s by blast
qed

section \<open>Preparation does not disturb traffic\<close>

definition adds_inactive :: "string \<Rightarrow> gateway \<Rightarrow> gateway \<Rightarrow> bool" where
  "adds_inactive did g g' \<longleftrightarrow> only_listeners g g'
     \<and> (\<forall>p. gget (g_listeners g') p = gget (g_listeners g) p
          \<or> gget (g_listeners g) p = None
            \<and> (\<exists>l. gget (g_listeners g') p = Some l \<and> dl_deviceID l = did \<and> \<not> dl_active l))"

lemma adds_inactive_refl [simp]: "adds_inactive did g g"
  by (simp add: adds_inactive_def)

lemma adds_inactive_trans:
  assumes "adds_inactive did g g1" and "adds_inactive did g1 g'"
  shows "adds_inactive did g g'"
  unfolding adds_inactive_def
proof (intro conjI allI)
  show "only_listeners g g'" using assms only_listeners_trans by (auto simp: adds_inactive_def)
  fix p
  show "gget (g_listeners g') p = gget (g_listeners g) p
      \<or> gget (g_listeners g) p = None
        \<and> (\<exists>l. gget (g_listeners g') p = Some l \<and> dl_deviceID l = did \<and> \<not> dl_active l)"
    using assms unfolding adds_inactive_def by (metis option.distinct(1))
qed

lemma start_adds_inactive:
  assumes "gw_wf g" and "startListenerLocked e g r False = (g', res)"
  shows "adds_inactive (r_DeviceID r) g g'"
proof (cases res)
  case None
  with start_cases [OF assms(2)] have free: "gget (g_listeners g) (r_IngressPort r) = None"
    using listen_free [OF assms(1), of e "r_IngressPort r"] by simp
  from None start_cases [OF assms(2)] only_listeners_start [OF assms(2)] free show ?thesis
    by (simp add: adds_inactive_def)
next
  case (Some err)
  with start_cases [OF assms(2)] show ?thesis by simp
qed

lemma prepare_ingresses_wf:
  assumes "prepare_ingresses e d ings g = (g', r)" and "gw_wf g"
  shows "gw_wf g' \<and> adds_inactive (d_ID d) g g'"
  using assms
proof (induction ings arbitrary: g)
  case (Cons i ings)
  show ?case
  proof (cases "gget (g_listeners g) (di_Port i)")
    case (Some cur)
    then show ?thesis using Cons.prems Cons.IH [of g]
      by (simp split: if_splits option.splits)
  next
    case None
    obtain g1 r1 where one: "startListenerLocked e g (ingress_route d i) False = (g1, r1)" by fastforce
    have wf1: "gw_wf g1" by (rule gw_wf_start [OF Cons.prems(2) one])
    have add1: "adds_inactive (d_ID d) g g1"
      using start_adds_inactive [OF Cons.prems(2) one] by (simp add: ingress_route_def)
    show ?thesis
      using Cons.prems None one wf1 add1 Cons.IH [OF _ wf1]
      by (auto split: option.splits intro: adds_inactive_trans)
  qed
qed simp

lemma prepare_ingresses_reserved:
  assumes "prepare_ingresses e d ings g = (g', None)" and "gw_wf g"
  shows "\<forall>i \<in> set ings. (\<exists>l. gget (g_listeners g') (di_Port i) = Some l \<and> dl_deviceID l = d_ID d)
     \<and> ValidateRoute e (ingress_route d i) = None"
  using assms
proof (induction ings arbitrary: g)
  case (Cons i ings)
  have v: "ValidateRoute e (ingress_route d i) = None"
    using Cons.prems(1) by (auto split: option.splits if_splits)
  obtain g1 where wf1: "gw_wf g1" and rec: "prepare_ingresses e d ings g1 = (g', None)"
    and l: "\<exists>l. gget (g_listeners g1) (di_Port i) = Some l \<and> dl_deviceID l = d_ID d"
  proof (cases "gget (g_listeners g) (di_Port i)")
    case (Some cur)
    then show ?thesis using that [of g] Cons.prems by (auto split: option.splits if_splits)
  next
    case None
    obtain g1 r1 where one: "startListenerLocked e g (ingress_route d i) False = (g1, r1)" by fastforce
    have "r1 = None" using Cons.prems(1) None v one by (auto split: option.splits)
    then show ?thesis
      using that [of g1] gw_wf_start [OF Cons.prems(2) one] start_cases [OF one] Cons.prems(1) None v one
      by (simp add: ingress_route_def)
  qed
  from l prepare_ingresses_wf [OF rec wf1]
  have "\<exists>l. gget (g_listeners g') (di_Port i) = Some l \<and> dl_deviceID l = d_ID d"
    unfolding adds_inactive_def by metis
  with Cons.IH [OF rec wf1] v show ?case by simp
qed simp

lemma Prepare_wf:
  assumes "PrepareDevice e g d = (g', r)" and "gw_wf g"
  shows "gw_wf g' \<and> only_listeners g g'"
  using prepare_ingresses_wf [of e d "Device_EffectiveIngresses d" g g' r] assms
  by (simp add: PrepareDevice_def adds_inactive_def)

lemma PrepareListener_wf:
  assumes "PrepareListener e g rt = (g', r)" and "gw_wf g"
  shows "gw_wf g' \<and> only_listeners g g'"
  using assms Prepare_wf unfolding PrepareListener_def by blast

text \<open>
  Preparing a device, whether it succeeds or fails, leaves every existing listener exactly as it
  was. What it adds is inactive, so no client is admitted through it yet. When it succeeds,
  every ingress of the device has valid credentials and a listener reserved for the device.
\<close>

theorem prepare_device_safe:
  assumes "gw_wf g" and "PrepareDevice e g d = (g', res)"
  shows "(\<forall>p l. gget (g_listeners g) p = Some l \<longrightarrow> gget (g_listeners g') p = Some l)
     \<and> (\<forall>p l. gget (g_listeners g') p = Some l \<and> gget (g_listeners g) p = None \<longrightarrow>
          dl_deviceID l = d_ID d \<and> \<not> dl_active l)
     \<and> (res = None \<longrightarrow> (\<forall>i \<in> set (Device_EffectiveIngresses d).
          SS_Validate (e_NewServerConfig e) (di_Method i) (di_Password i) = None \<and>
          (\<exists>l. gget (g_listeners g') (di_Port i) = Some l \<and> dl_deviceID l = d_ID d)))"
proof (intro conjI impI)
  have run: "prepare_ingresses e d (Device_EffectiveIngresses d) g = (g', res)"
    using assms(2) by (simp add: PrepareDevice_def)
  have frame: "adds_inactive (d_ID d) g g'"
    using prepare_ingresses_wf [OF run assms(1)] by simp
  show "\<forall>p l. gget (g_listeners g) p = Some l \<longrightarrow> gget (g_listeners g') p = Some l"
    using frame unfolding adds_inactive_def by (metis option.distinct(1))
  show "\<forall>p l. gget (g_listeners g') p = Some l \<and> gget (g_listeners g) p = None \<longrightarrow>
      dl_deviceID l = d_ID d \<and> \<not> dl_active l"
    using frame unfolding adds_inactive_def by (metis option.distinct(1) option.inject)
  assume "res = None"
  then show "\<forall>i \<in> set (Device_EffectiveIngresses d).
      SS_Validate (e_NewServerConfig e) (di_Method i) (di_Password i) = None \<and>
      (\<exists>l. gget (g_listeners g') (di_Port i) = Some l \<and> dl_deviceID l = d_ID d)"
    using prepare_ingresses_reserved [OF _ assms(1)] run
    by (fastforce simp: ValidateRoute_def ingress_route_def split: if_splits)
qed

theorem prepare_device_safe_witness:
  "let d = zero_device\<lparr>d_ID := ''n'', d_IngressPort := 6000, d_IngressMethod := LegacyAES256GCM,
                       d_IngressPassword := ''secret-2''\<rparr>;
       g' = fst (PrepareDevice calm_env demo_gateway d) in
   gw_wf demo_gateway \<and> PrepareDevice calm_env demo_gateway d = (g', None)
   \<and> (\<exists>l. gget (g_listeners g') 6000 = Some l \<and> dl_deviceID l = ''n'' \<and> \<not> dl_active l)"
proof -
  let ?d = "zero_device\<lparr>d_ID := ''n'', d_IngressPort := 6000, d_IngressMethod := LegacyAES256GCM,
                       d_IngressPassword := ''secret-2''\<rparr>"
  let ?g' = "fst (PrepareDevice calm_env demo_gateway ?d)"
  have wf: "gw_wf demo_gateway" by (simp add: demo_gateway_def gw_wf_New)
  have run: "PrepareDevice calm_env demo_gateway ?d = (?g', None)"
    and free: "gget (g_listeners demo_gateway) 6000 = None"
    and port: "gget (g_listeners ?g') 6000 \<noteq> None"
    by (simp_all add: demo_defs PrepareDevice_def Device_EffectiveIngresses_def ingress_route_def
        ValidateRoute_def startListenerLocked_def SS_Validate_def net_Listen_def)
  obtain l where l: "gget (g_listeners ?g') 6000 = Some l" using port by blast
  have "dl_deviceID l = d_ID ?d \<and> \<not> dl_active l"
    using prepare_device_safe [OF wf run] l free by blast
  then show ?thesis unfolding Let_def using wf run l by auto
qed

section \<open>No listener leaks\<close>

lemma close_all_wf:
  assumes "gw_wf g" and "gwf ls" and "\<And>p l. gget ls p = Some l \<Longrightarrow> gget (g_listeners g) p = Some l"
  shows "gw_wf (close_all ls g) \<and> only_listeners g (close_all ls g)
     \<and> (\<forall>p. gget (g_listeners (close_all ls g)) p = (if gget ls p = None then gget (g_listeners g) p else None))"
  using assms
proof (induction ls arbitrary: g)
  case (Cons e ls)
  obtain p l where e: "e = (p, l)" by (cases e)
  have l: "gget (g_listeners g) p = Some l" and np: "gget ls p = None" and wls: "gwf ls"
    using Cons.prems e by (auto simp: gwf_Cons)
  have rest: "gget (g_listeners (close_listener g p l)) q = Some k" if "gget ls q = Some k" for q k
    using Cons.prems(3) [of q k] that e np by (cases "q = p") (auto simp: close_listener_def)
  note ih = Cons.IH [OF gw_wf_close [OF Cons.prems(1) l] wls rest]
  have "gget (g_listeners (close_listener g p l)) q = (if q = p then None else gget (g_listeners g) q)" for q
    by (simp add: close_listener_def)
  with ih only_listeners_trans [OF only_listeners_close, of g p l] show ?case
    unfolding e close_all.simps by (simp add: np) auto
qed simp

lemma CloseListeners_wf: "gw_wf g \<Longrightarrow> gw_wf (CloseListeners g) \<and> only_listeners g (CloseListeners g)"
  using close_all_wf [of g "g_listeners g"] by (auto simp: CloseListeners_def gw_wf_def)

lemma CloseListeners_empty:
  assumes "gw_wf g"
  shows "g_open (CloseListeners g) = [] \<and> g_listeners (CloseListeners g) = []"
proof -
  have c: "gw_wf (CloseListeners g)" "\<forall>p. gget (g_listeners (CloseListeners g)) p = None"
    using close_all_wf [of g "g_listeners g"] assms by (auto simp: CloseListeners_def gw_wf_def)
  then have "\<forall>s p. (s, p) \<notin> set (g_open (CloseListeners g))" by (simp add: gw_wf_def)
  then have "g_open (CloseListeners g) = []" by (metis list.set_intros(1) neq_Nil_conv surj_pair)
  moreover have "g_listeners (CloseListeners g) = []"
    using c(2) by (cases "g_listeners (CloseListeners g)") (auto, metis option.distinct(1))
  ultimately show ?thesis by simp
qed

text \<open>Every operation that touches listeners, and any change of the other fields.\<close>

inductive listener_step :: "gateway \<Rightarrow> gateway \<Rightarrow> bool" where
  reconcile: "listener_step g (fst (ReconcileListeners e g))"
| prepare_device: "listener_step g (fst (PrepareDevice e g d))"
| prepare_listener: "listener_step g (fst (PrepareListener e g rt))"
| close_listeners: "listener_step g (CloseListeners g)"
| other: "g_listeners g' = g_listeners g \<Longrightarrow> g_open g' = g_open g \<Longrightarrow> g_nextSocket g' = g_nextSocket g
    \<Longrightarrow> listener_step g g'"

interpretation listener_inv: invariant_of "\<lambda>g. \<exists>t c. g = NewGateway t c" listener_step gw_wf
proof unfold_locales
  show "\<And>g. \<exists>t c. g = NewGateway t c \<Longrightarrow> gw_wf g" using gw_wf_New by blast
  fix g g' assume wf: "gw_wf g" and "listener_step g g'"
  from this(2) show "gw_wf g'"
  proof cases
    case (reconcile e)
    then show ?thesis using Reconcile_wf [OF _ wf] by (metis surjective_pairing)
  next
    case (prepare_device e d)
    then show ?thesis using Prepare_wf [OF _ wf] by (metis surjective_pairing)
  next
    case (prepare_listener e rt)
    then show ?thesis using PrepareListener_wf [OF _ wf] by (metis surjective_pairing)
  next
    case close_listeners
    then show ?thesis using CloseListeners_wf [OF wf] by simp
  next
    case other
    then show ?thesis using wf by (simp add: gw_wf_def)
  qed
qed

text \<open>
  C17: whatever sequence of reconciliations, preparations and shutdowns a gateway goes through, with
  failures at any point, the sockets it holds open are exactly the sockets of its registered
  listeners, one per port, and shutting down leaves none open.
\<close>

theorem no_socket_leaks:
  assumes "reach (\<lambda>g. \<exists>t c. g = NewGateway t c) listener_step g"
  shows "(\<forall>s p. (s, p) \<in> set (g_open g) \<longleftrightarrow> (\<exists>l. gget (g_listeners g) p = Some l \<and> dl_listener l = s))
     \<and> g_open (CloseListeners g) = [] \<and> g_listeners (CloseListeners g) = []"
proof -
  have wf: "gw_wf g" by (rule listener_inv.reach_inv [OF assms])
  then show ?thesis using CloseListeners_empty [OF wf] by (simp add: gw_wf_def)
qed

theorem no_socket_leaks_witness:
  "let g = fst (ReconcileListeners calm_env demo_gateway) in
   reach (\<lambda>g. \<exists>t c. g = NewGateway t c) listener_step g \<and> (0, 5000) \<in> set (g_open g)
   \<and> (\<exists>l. gget (g_listeners g) 5000 = Some l \<and> dl_listener l = 0) \<and> g_open (CloseListeners g) = []"
proof -
  let ?g = "fst (ReconcileListeners calm_env demo_gateway)"
  have r: "reach (\<lambda>g. \<exists>t c. g = NewGateway t c) listener_step ?g"
    by (rule reach.reach_step [OF reach.reach_init [of _ demo_gateway]])
      (auto intro: listener_step.reconcile simp: demo_gateway_def)
  have o: "(0, 5000) \<in> set (g_open ?g)"
    by (simp add: demo_defs ReconcileListeners_def Table_Snapshot_def Table_Load_def
        Route_EffectiveIngresses_def ingress_item_def startListenerLocked_def SS_Validate_def net_Listen_def)
  show ?thesis using no_socket_leaks [OF r] r o by (auto simp: Let_def)
qed

section \<open>Admission\<close>

lemma admit_iff:
  "admit g item now = Some route \<longleftrightarrow> Ready g \<and> dl_active item
     \<and> Table_ByDevice (g_Table g) (dl_deviceID item) = Some route
     \<and> (\<forall>x. pc_ExpiresAt (r_Credential route) = Some x \<longrightarrow> now \<le> x)"
  by (auto simp: admit_def split: option.splits if_splits)

text \<open>
  C11: a client's bytes reach an upstream only while the gateway is ready, over an active listener, with
  an active and unexpired route of the listener's device, and then exactly the upstream of that
  route; the gateway's registry of connections ends as it began, and one of the two counters grows by one.
\<close>

theorem relay_only_when_admitted:
  assumes "handleShadowsocks g item now target dial cancel = (g', HsRelayed cfg addr)"
    and "conn_wf (g_Connections g)" and "unat (c_next (g_Connections g)) < 2 ^ 63 - 1"
  shows "Ready g \<and> dl_active item \<and> target = Some (Some addr) \<and> dial cfg addr = None
     \<and> (\<exists>route. Table_ByDevice (g_Table g) (dl_deviceID item) = Some route \<and> cfg = upstream_config route
          \<and> (\<forall>x. pc_ExpiresAt (r_Credential route) = Some x \<longrightarrow> now \<le> x))
     \<and> conn_abs (g_Connections g') = conn_abs (g_Connections g)
     \<and> g_connectOK g' = g_connectOK g + 1 \<and> g_connectFailed g' = g_connectFailed g"
proof -
  obtain route where adm: "admit g item now = Some route" and tgt: "target = Some (Some addr)"
    and cfg: "cfg = upstream_config route" "dial cfg addr = None"
    using assms(1) by (auto simp: handleShadowsocks_def Let_def split: option.splits prod.splits)
  let ?c = "g_Connections g" and ?d = "r_DeviceID route"
  have g': "g' = g\<lparr>g_Connections := untrack (fst (Track ?c ?d cancel)) ?d (snd (Track ?c ?d cancel)),
                   g_connectOK := g_connectOK g + 1\<rparr>"
    using assms(1) adm tgt cfg by (auto simp: handleShadowsocks_def Let_def split: prod.splits)
  have wf1: "conn_wf (fst (Track ?c ?d cancel))"
    using conn_wf_Track assms(2,3) by blast
  have lim1: "unat (c_next (fst (Track ?c ?d cancel))) < 2 ^ 63"
    using assms(3) next_fresh(1) [of "c_next ?c"] by (simp add: Track_def Let_def)
  have lim: "unat (c_next ?c) < 2 ^ 63" using assms(3) by simp
  have "conn_abs (g_Connections g') = conn_abs ?c"
    using connections_refine_steps(1) [OF assms(2) lim, of ?d cancel]
      connections_refine_steps(3) [OF assms(2) lim, of _ ?d cancel]
      connections_refine_steps(2) [OF wf1 lim1, of ?d "snd (Track ?c ?d cancel)"]
    by (auto simp: g')
  then show ?thesis using adm tgt cfg by (auto simp: admit_iff g')
qed

theorem relay_only_when_admitted_witness:
  "let g = SetControlSynced demo_gateway True;
       item = \<lparr>dl_deviceID = ''d'', dl_method = [], dl_password = [], dl_listener = 0, dl_active = True\<rparr>;
       cfg = upstream_config demo_route;
       g' = fst (handleShadowsocks g item 0 (Some (Some ''t:1'')) (\<lambda>_ _. None) 9) in
   handleShadowsocks g item 0 (Some (Some ''t:1'')) (\<lambda>_ _. None) 9 = (g', HsRelayed cfg ''t:1'')
   \<and> conn_wf (g_Connections g) \<and> Ready g \<and> conn_abs (g_Connections g') = {} \<and> g_connectOK g' = 1"
proof -
  let ?g = "SetControlSynced demo_gateway True"
  let ?item = "\<lparr>dl_deviceID = ''d'', dl_method = [], dl_password = [], dl_listener = 0, dl_active = True\<rparr>"
  let ?run = "handleShadowsocks ?g ?item 0 (Some (Some ''t:1'')) (\<lambda>_ _. None) 9"
  have r: "Table_ByDevice (g_Table ?g) ''d'' = Some demo_route" "Ready ?g"
    by (simp_all add: SetControlSynced_def demo_gateway_def NewGateway_def Table_ByDevice_def
        Table_Load_def demo_route_def Ready_def Table_Loaded_def)
  have "admit ?g ?item 0 = Some demo_route"
    using r by (simp add: admit_iff) (simp add: demo_route_def zero_defs)
  then have run: "?run = (fst ?run, HsRelayed (upstream_config demo_route) ''t:1'')"
    by (simp add: handleShadowsocks_def Let_def split: prod.splits)
  have c: "g_Connections ?g = NewConnections" "g_connectOK ?g = 0"
    by (simp_all add: SetControlSynced_def demo_gateway_def NewGateway_def)
  have wf: "conn_wf (g_Connections ?g)" unfolding c
    by (simp add: conn_wf_def NewConnections_def conn_count_def)
  have lim: "unat (c_next (g_Connections ?g)) < 2 ^ 63 - 1" unfolding c by (simp add: NewConnections_def)
  have e: "conn_abs (g_Connections ?g) = {}" unfolding c
    by (simp add: conn_abs_def NewConnections_def device_conns_def)
  show ?thesis
    using relay_only_when_admitted [OF run wf lim] run wf e c by (simp add: Let_def)
qed

end
