(* ===== verification/PM_Snapshot.thy ===== *)
theory PM_Snapshot
  imports PM_Model PM_Cryptox
begin

text \<open>
  The encrypted snapshot on a gateway's disk, \<open>internal/dataplane/snapshot.go\<close>. The files are a map
  from paths to contents. Each system call has an outcome in the environment; a failed
  \<open>os.WriteFile\<close> may leave anything in the temporary file. \<open>json.Marshal\<close> and \<open>json.Unmarshal\<close> of a list
  of routes are parameters.
\<close>

datatype write_outcome = WriteOk | WriteFailed go_error "byte list option"

record disk_env =
  de_Marshal :: "device_route list \<Rightarrow> go_error + byte list"
  de_Unmarshal :: "byte list \<Rightarrow> go_error + device_route list"
  de_Nonce :: "go_error + byte list"
  de_MkdirAll :: "go_error option"
  de_WriteFile :: write_outcome
  de_Rename :: "go_error option"
  de_Cipher :: aead

type_synonym files = "(string, byte list) gomap"

definition tmp_path :: "string \<Rightarrow> string" where
  "tmp_path path = path @ ''.tmp''"

definition SaveSnapshot :: "disk_env \<Rightarrow> files \<Rightarrow> string \<Rightarrow> device_route list \<Rightarrow> files \<times> go_error option" where
  "SaveSnapshot e fs path routes =
     (case de_Marshal e routes of
        Inl err \<Rightarrow> (fs, Some err)
      | Inr raw \<Rightarrow>
     (case Cipher_Encrypt (de_Cipher e) (de_Nonce e) raw of
        Inl err \<Rightarrow> (fs, Some err)
      | Inr enc \<Rightarrow>
     (case de_MkdirAll e of
        Some err \<Rightarrow> (fs, Some err)
      | None \<Rightarrow>
     (case de_WriteFile e of
        WriteFailed err left \<Rightarrow>
          (case left of None \<Rightarrow> gdel (tmp_path path) fs | Some junk \<Rightarrow> gput (tmp_path path) junk fs, Some err)
      | WriteOk \<Rightarrow>
     (case de_Rename e of
        Some err \<Rightarrow> (gput (tmp_path path) enc fs, Some err)
      | None \<Rightarrow> (gput path enc (gdel (tmp_path path) fs), None))))))"

definition LoadSnapshot :: "disk_env \<Rightarrow> files \<Rightarrow> string \<Rightarrow> go_error + device_route list" where
  "LoadSnapshot e fs path =
     (case gget fs path of
        None \<Rightarrow> Inl (ErrLib ''file does not exist'')
      | Some enc \<Rightarrow>
     (case Cipher_Decrypt (de_Cipher e) enc of
        Inl err \<Rightarrow> Inl err
      | Inr raw \<Rightarrow> de_Unmarshal e raw))"

text \<open>
  What the program relies on. The field \<open>EncryptedPassword\<close> has the tag \<open>json:"-"\<close>, so decoding what
  was encoded gives the routes without it; a snapshot is sealed under a nonce of full length.
\<close>

definition wire_route :: "device_route \<Rightarrow> device_route" where
  "wire_route r = r\<lparr>r_Credential := (r_Credential r)\<lparr>pc_EncryptedPassword := []\<rparr>\<rparr>"

definition disk_ok :: "disk_env \<Rightarrow> bool" where
  "disk_ok e \<longleftrightarrow> aead_ok (de_Cipher e)
     \<and> (\<forall>n. de_Nonce e = Inr n \<longrightarrow> length n = NonceSize (de_Cipher e))
     \<and> (\<forall>rs raw. de_Marshal e rs = Inr raw \<longrightarrow> de_Unmarshal e raw = Inr (map wire_route rs))"

lemma tmp_path_neq [simp]: "tmp_path path \<noteq> path" "path \<noteq> tmp_path path"
  by (simp_all add: tmp_path_def)

lemma save_failed_keeps:
  "SaveSnapshot e fs path rs = (fs', Some err) \<Longrightarrow> gget fs' path = gget fs path"
  by (auto simp: SaveSnapshot_def split: sum.splits option.splits write_outcome.splits)

lemma save_then_load:
  assumes "disk_ok e" and "SaveSnapshot e fs path rs = (fs', None)"
  shows "LoadSnapshot e fs' path = Inr (map wire_route rs)"
proof -
  obtain raw enc nonce where m: "de_Marshal e rs = Inr raw" and n: "de_Nonce e = Inr nonce"
    and c: "Cipher_Encrypt (de_Cipher e) (Inr nonce) raw = Inr enc" and f: "gget fs' path = Some enc"
    using assms(2)
    by (auto simp: SaveSnapshot_def Cipher_Encrypt_def split: sum.splits option.splits write_outcome.splits)
  have "Cipher_Decrypt (de_Cipher e) enc = Inr raw"
    using decrypt_encrypt [OF _ _ c] assms(1) n by (auto simp: disk_ok_def)
  then show ?thesis using f m assms(1) by (simp add: LoadSnapshot_def disk_ok_def)
qed

text \<open>
  C18: saving a snapshot is all or nothing for the file a restarted gateway reads. Whatever step fails,
  the previous snapshot is still there untouched; when none fails, loading gives back the saved
  routes in order, without the field that is never serialised.
\<close>

theorem snapshot_atomic:
  assumes "disk_ok e" and "SaveSnapshot e fs path rs = (fs', res)"
  shows "if res = None then LoadSnapshot e fs' path = Inr (map wire_route rs)
         else gget fs' path = gget fs path \<and> LoadSnapshot e fs' path = LoadSnapshot e fs path"
  using assms save_then_load save_failed_keeps by (cases res) (auto simp: LoadSnapshot_def)

text \<open>A codec for the empty list and a disk that fails at the rename.\<close>

definition demo_disk :: disk_env where
  "demo_disk = \<lparr>de_Marshal = (\<lambda>rs. if rs = [] then Inr [] else Inl (ErrLib ''unsupported'')),
     de_Unmarshal = (\<lambda>_. Inr []), de_Nonce = Inr [1, 2], de_MkdirAll = None, de_WriteFile = WriteOk,
     de_Rename = None, de_Cipher = demo_aead\<rparr>"

lemma demo_disk_ok: "disk_ok demo_disk"
  by (simp add: disk_ok_def demo_disk_def demo_aead_ok) (simp add: demo_aead_def)

theorem snapshot_atomic_witness:
  "let full = demo_disk\<lparr>de_Rename := Some (ErrLib ''rename'')\<rparr>;
       fs1 = fst (SaveSnapshot demo_disk [] ''s'' []);
       fs2 = fst (SaveSnapshot full fs1 ''s'' []) in
   disk_ok demo_disk \<and> disk_ok full
   \<and> SaveSnapshot demo_disk [] ''s'' [] = (fs1, None) \<and> LoadSnapshot demo_disk fs1 ''s'' = Inr []
   \<and> SaveSnapshot full fs1 ''s'' [] = (fs2, Some (ErrLib ''rename'')) \<and> LoadSnapshot full fs2 ''s'' = Inr []"
proof -
  let ?full = "demo_disk\<lparr>de_Rename := Some (ErrLib ''rename'')\<rparr>"
  let ?fs1 = "fst (SaveSnapshot demo_disk [] ''s'' [])"
  let ?fs2 = "fst (SaveSnapshot ?full ?fs1 ''s'' [])"
  have ok: "disk_ok ?full" using demo_disk_ok by (simp add: disk_ok_def)
  have one: "SaveSnapshot demo_disk [] ''s'' [] = (?fs1, None)"
    and two: "SaveSnapshot ?full ?fs1 ''s'' [] = (?fs2, Some (ErrLib ''rename''))"
    by (simp_all add: SaveSnapshot_def demo_disk_def Cipher_Encrypt_def)
  have "LoadSnapshot demo_disk ?fs1 ''s'' = Inr []"
    using snapshot_atomic [OF demo_disk_ok one] by simp
  moreover have "LoadSnapshot ?full ?fs2 ''s'' = LoadSnapshot ?full ?fs1 ''s''"
    using snapshot_atomic [OF ok two] by simp
  moreover have "LoadSnapshot ?full ?fs1 ''s'' = LoadSnapshot demo_disk ?fs1 ''s''"
    by (simp add: LoadSnapshot_def cong: option.case_cong sum.case_cong)
  ultimately show ?thesis using one two ok demo_disk_ok unfolding Let_def by metis
qed

end
