(* ===== verification/PM_Rpc.thy ===== *)
theory PM_Rpc
  imports PM_Model
begin

text \<open>
  The frames of the control stream, \<open>internal/controlrpc/control.go\<close>, and the two conversions of
  \<open>strconv\<close> and \<open>fmt\<close> through which a boolean travels in a string field.
\<close>

record frame =
  f_Type :: string
  f_GatewayID :: string
  f_RequestID :: string
  f_Route :: "device_route option"
  f_Routes :: "device_route list"
  f_Device :: "device option"
  f_Heartbeat :: "gateway_info option"
  f_DeviceID :: string
  f_Error :: string

definition TypeRegister :: string where "TypeRegister = ''register''"
definition TypeSnapshot :: string where "TypeSnapshot = ''snapshot''"
definition TypePrepare :: string where "TypePrepare = ''prepare''"
definition TypeActivate :: string where "TypeActivate = ''activate''"
definition TypeAck :: string where "TypeAck = ''ack''"
definition TypeHeartbeat :: string where "TypeHeartbeat = ''heartbeat''"
definition TypeDevicePrepare :: string where "TypeDevicePrepare = ''device_prepare''"
definition TypeDeviceUpdate :: string where "TypeDeviceUpdate = ''device_update''"
definition TypeInterrupt :: string where "TypeInterrupt = ''interrupt''"
definition TypeSetDraining :: string where "TypeSetDraining = ''set_draining''"

lemmas type_defs = TypeRegister_def TypeSnapshot_def TypePrepare_def TypeActivate_def TypeAck_def
  TypeHeartbeat_def TypeDevicePrepare_def TypeDeviceUpdate_def TypeInterrupt_def TypeSetDraining_def

definition zero_frame :: frame where
  "zero_frame = \<lparr>f_Type = [], f_GatewayID = [], f_RequestID = [], f_Route = None, f_Routes = [],
     f_Device = None, f_Heartbeat = None, f_DeviceID = [], f_Error = []\<rparr>"

text \<open>\<open>strconv.ParseBool\<close> and \<open>fmt.Sprint\<close> of a boolean.\<close>

definition strconv_ParseBool :: "string \<Rightarrow> go_error + bool" where
  "strconv_ParseBool s =
     (if s \<in> set [''1'', ''t'', ''T'', ''true'', ''TRUE'', ''True''] then Inr True
      else if s \<in> set [''0'', ''f'', ''F'', ''false'', ''FALSE'', ''False''] then Inr False
      else Inl (ErrLib (''strconv.ParseBool: parsing '' @ go_quote s @ '': invalid syntax'')))"

definition sprint_bool :: "bool \<Rightarrow> string" where
  "sprint_bool b = (if b then ''true'' else ''false'')"

lemma parse_sprint_bool [simp]: "strconv_ParseBool (sprint_bool b) = Inr b"
  by (simp add: strconv_ParseBool_def sprint_bool_def)

end
