(* ===== verification/PM_Control_Client.thy ===== *)
theory PM_Control_Client
  imports PM_Gateway PM_Snapshot PM_Rpc
begin

text \<open>
  The gateway's end of the control stream, \<open>internal/dataplane/control_client.go\<close>: how a frame from the
  control plane changes the routing table, the listeners, the snapshot on disk and the readiness
  of the gateway, and what the gateway sends back. The client and the gateway share one table
  (\<open>apps/gateway/main.go\<close>), which is the table of the gateway record.
\<close>

section \<open>State and operations\<close>

record client_env =
  ce_net :: net_env
  ce_disk :: disk_env

record control_client =
  cc_GatewayID :: string
  cc_Address :: string
  cc_SnapshotPath :: string
  cc_Gateway :: gateway
  cc_files :: files

definition map_gateway :: "(gateway \<Rightarrow> gateway) \<Rightarrow> control_client \<Rightarrow> control_client" where
  "map_gateway f c = c\<lparr>cc_Gateway := f (cc_Gateway c)\<rparr>"

definition set_table :: "table \<Rightarrow> control_client \<Rightarrow> control_client" where
  "set_table t = map_gateway (\<lambda>g. g\<lparr>g_Table := t\<rparr>)"

abbreviation cc_table :: "control_client \<Rightarrow> table" where
  "cc_table c \<equiv> g_Table (cc_Gateway c)"

text \<open>
  The common tail of two branches: reconcile the listeners, then save the table's snapshot; an
  error of either takes the gateway out of service.
\<close>

definition reconcile_step :: "client_env \<Rightarrow> control_client \<Rightarrow> control_client \<times> go_error option" where
  "reconcile_step e c =
     (case ReconcileListeners (ce_net e) (cc_Gateway c) of
        (g, Some err) \<Rightarrow> (c\<lparr>cc_Gateway := SetControlSynced g False\<rparr>, Some err)
      | (g, None) \<Rightarrow> (c\<lparr>cc_Gateway := g\<rparr>, None))"

definition save_step :: "client_env \<Rightarrow> control_client \<Rightarrow> device_route list \<Rightarrow> control_client \<times> go_error option" where
  "save_step e c routes =
     (case SaveSnapshot (ce_disk e) (cc_files c) (cc_SnapshotPath c) routes of
        (fs, Some err) \<Rightarrow>
          (c\<lparr>cc_files := fs, cc_Gateway := SetControlSynced (cc_Gateway c) False\<rparr>, Some err)
      | (fs, None) \<Rightarrow> (c\<lparr>cc_files := fs\<rparr>, None))"

definition handle_snapshot :: "client_env \<Rightarrow> control_client \<Rightarrow> device_route list \<Rightarrow> control_client \<times> go_error option" where
  "handle_snapshot e c routes =
     (case save_step e c routes of
        (c1, Some err) \<Rightarrow> (c1, Some err)
      | (c1, None) \<Rightarrow>
          (case reconcile_step e (set_table (Table_Load (cc_table c1) routes) c1) of
             (c2, Some err) \<Rightarrow> (c2, Some err)
           | (c2, None) \<Rightarrow> (map_gateway (\<lambda>g. SetControlSynced g True) c2, None)))"

definition handle_prepare :: "client_env \<Rightarrow> control_client \<Rightarrow> device_route \<Rightarrow> control_client \<times> go_error option" where
  "handle_prepare e c route =
     (case PrepareListener (ce_net e) (cc_Gateway c) route of
        (g, Some err) \<Rightarrow> (c\<lparr>cc_Gateway := g\<rparr>, Some err)
      | (g, None) \<Rightarrow>
          (case Table_Prepare (g_Table g) route of
             (t, Some err) \<Rightarrow> (c\<lparr>cc_Gateway := SetControlSynced (g\<lparr>g_Table := t\<rparr>) False\<rparr>, Some err)
           | (t, None) \<Rightarrow> (c\<lparr>cc_Gateway := g\<lparr>g_Table := t\<rparr>\<rparr>, None)))"

text \<open>Activation and device update share their shape: change the table, reconcile, save.\<close>

definition apply_table_change ::
    "client_env \<Rightarrow> control_client \<Rightarrow> table \<times> go_error option \<Rightarrow> control_client \<times> go_error option" where
  "apply_table_change e c change =
     (case change of
        (t, Some err) \<Rightarrow> (set_table t c, Some err)
      | (t, None) \<Rightarrow>
          (case reconcile_step e (set_table t c) of
             (c1, Some err) \<Rightarrow> (c1, Some err)
           | (c1, None) \<Rightarrow> save_step e c1 (Table_Snapshot (cc_table c1))))"

definition handle :: "client_env \<Rightarrow> control_client \<Rightarrow> frame \<Rightarrow> control_client \<times> go_error option" where
  "handle e c f =
     (if f_Type f = TypeSnapshot then handle_snapshot e c (f_Routes f)
      else if f_Type f = TypePrepare then
        (case f_Route f of
           None \<Rightarrow> (c, Some (ErrMsg ''missing route''))
         | Some r \<Rightarrow> handle_prepare e c r)
      else if f_Type f = TypeActivate then
        (case f_Route f of
           None \<Rightarrow> (c, Some (ErrMsg ''missing route''))
         | Some r \<Rightarrow> apply_table_change e c (Table_Activate (cc_table c) r))
      else if f_Type f = TypeDeviceUpdate then
        (case f_Device f of
           None \<Rightarrow> (c, Some (ErrMsg ''missing device''))
         | Some d \<Rightarrow> apply_table_change e c (Table_UpdateDevice (cc_table c) d))
      else if f_Type f = TypeDevicePrepare then
        (case f_Device f of
           None \<Rightarrow> (c, Some (ErrMsg ''missing device''))
         | Some d \<Rightarrow>
             (case PrepareDevice (ce_net e) (cc_Gateway c) d of (g, r) \<Rightarrow> (c\<lparr>cc_Gateway := g\<rparr>, r)))
      else if f_Type f = TypeInterrupt then (c, None)
      else if f_Type f = TypeSetDraining then
        (case strconv_ParseBool (f_DeviceID f) of
           Inl err \<Rightarrow> (c, Some err)
         | Inr v \<Rightarrow> (map_gateway (\<lambda>g. Gateway_SetDraining g v) c, None))
      else (c, Some (ErrMsg ''unknown control frame'')))"

text \<open>The cancel functions that an interrupt frame calls; cancelling changes no state of the client.\<close>

definition handle_cancels :: "control_client \<Rightarrow> frame \<Rightarrow> cancel_func list" where
  "handle_cancels c f =
     (if f_Type f = TypeInterrupt then fst (Interrupt (g_Connections (cc_Gateway c)) (f_DeviceID f)) else [])"

text \<open>The receive branch of the client's loop: handle the frame and acknowledge it under its request id.\<close>

definition ack_for :: "control_client \<Rightarrow> frame \<Rightarrow> go_error option \<Rightarrow> frame" where
  "ack_for c f err =
     zero_frame\<lparr>f_Type := TypeAck, f_GatewayID := cc_GatewayID c, f_RequestID := f_RequestID f,
                f_Error := (case err of None \<Rightarrow> [] | Some x \<Rightarrow> error_text x)\<rparr>"

definition client_recv :: "client_env \<Rightarrow> control_client \<Rightarrow> frame \<Rightarrow> control_client \<times> frame" where
  "client_recv e c f = (case handle e c f of (c', err) \<Rightarrow> (c', ack_for c f err))"

text \<open>The heartbeat branch.\<close>

definition heartbeat_status :: "gateway \<Rightarrow> string" where
  "heartbeat_status g =
     (if g_draining g then GatewayDraining else if Ready g then GatewayReady else GatewaySyncing)"

definition heartbeat_frame :: "control_client \<Rightarrow> time \<Rightarrow> frame" where
  "heartbeat_frame c now =
     zero_frame\<lparr>f_Type := TypeHeartbeat, f_GatewayID := cc_GatewayID c,
       f_Heartbeat := Some \<lparr>gi_ID = cc_GatewayID c, gi_Address = cc_Address c,
         gi_Status = heartbeat_status (cc_Gateway c), gi_AppliedVersion = Table_MaxVersion (cc_table c),
         gi_ActiveConnections = Total (g_Connections (cc_Gateway c)), gi_LastHeartbeatAt = now\<rparr>\<rparr>"

text \<open>The reconnect delay of \<open>Run\<close>, in seconds.\<close>

definition next_backoff :: "int \<Rightarrow> int" where
  "next_backoff b = (if b < 30 then b * 2 else b)"

subsection \<open>Start-up\<close>

text \<open>
  \<open>run\<close> of \<open>apps/gateway/main.go\<close> up to the point where the control client starts: the table is loaded
  from the snapshot on disk when there is a readable one, and only then listeners are opened.
\<close>

definition start_gateway ::
    "net_env \<Rightarrow> disk_env \<Rightarrow> files \<Rightarrow> string \<Rightarrow> string \<Rightarrow> bool \<Rightarrow> go_error + gateway" where
  "start_gateway e k fs path host require_canary =
     (let t = (case LoadSnapshot k fs path of Inr routes \<Rightarrow> Table_Load NewTable routes | Inl _ \<Rightarrow> NewTable);
          g = SetListenHost (NewGateway t NewConnections) host;
          (g1, err) = (if Table_Loaded t then ReconcileListeners e g else (g, None))
      in case err of
           Some x \<Rightarrow> Inl x
         | None \<Rightarrow> Inr (if require_canary then SetCanary g1 False else g1))"

lemmas flag_defs = SetControlSynced_def Gateway_SetDraining_def SetCanary_def SetListenHost_def

section \<open>What being in sync means\<close>

text \<open>
  The active listeners are those that the routes of the table ask for, and the snapshot on disk, were it
  loaded now, routes every device as the running table does.
\<close>

definition listeners_current :: "gateway \<Rightarrow> bool" where
  "listeners_current g \<longleftrightarrow>
     (\<forall>p l. gget (g_listeners g) p = Some l \<and> dl_active l \<longrightarrow> (\<exists>r. asks_for (g_Table g) p r \<and> serves l r))
     \<and> (\<forall>p r. asks_for (g_Table g) p r \<longrightarrow> (\<exists>l. gget (g_listeners g) p = Some l \<and> serves l r))"

definition disk_current :: "disk_env \<Rightarrow> control_client \<Rightarrow> bool" where
  "disk_current k c \<longleftrightarrow> (\<exists>rs. LoadSnapshot k (cc_files c) (cc_SnapshotPath c) = Inr rs
     \<and> (\<forall>did. Table_ByDevice (Table_Load NewTable rs) did
             = map_option wire_route (Table_ByDevice (cc_table c) did)))"

definition client_ok :: "disk_env \<Rightarrow> control_client \<Rightarrow> bool" where
  "client_ok k c \<longleftrightarrow> gw_wf (cc_Gateway c) \<and> table_wf (cc_table c)
     \<and> (g_controlSynced (cc_Gateway c) \<longrightarrow>
          listeners_current (cc_Gateway c) \<and> disk_current k c \<and> Table_Loaded (cc_table c))"

text \<open>The outside world may answer differently each time, but key and encoding of the snapshot stay.\<close>

definition same_codec :: "disk_env \<Rightarrow> disk_env \<Rightarrow> bool" where
  "same_codec k k' \<longleftrightarrow> de_Cipher k = de_Cipher k' \<and> de_Unmarshal k = de_Unmarshal k'"

lemma LoadSnapshot_codec: "same_codec k k' \<Longrightarrow> LoadSnapshot k = LoadSnapshot k'"
  by (intro ext) (simp add: same_codec_def LoadSnapshot_def cong: option.case_cong sum.case_cong)

lemma Reconcile_current:
  assumes "ReconcileListeners e g = (g', None)" and "gw_wf g"
  shows "listeners_current g'"
proof -
  have t: "g_Table g' = g_Table g" using Reconcile_wf [OF assms] only_listenersD by blast
  show ?thesis unfolding listeners_current_def t
    using Reconcile_sound [OF assms] Reconcile_complete [OF assms] by blast
qed

text \<open>Loading what was saved, for the two ways a snapshot is written.\<close>

lemma wire_route_id [simp]: "r_DeviceID (wire_route r) = r_DeviceID r"
  by (simp add: wire_route_def)

lemma ByDevice_Load:
  "Table_ByDevice (Table_Load t rs) did = gget (rev (map (\<lambda>r. (r_DeviceID r, r)) rs)) did"
  by (simp add: Table_ByDevice_def Load_active)

lemma gget_map_wire:
  "gget (map (\<lambda>r. (r_DeviceID r, r)) (map wire_route rs)) did
     = map_option wire_route (gget (map (\<lambda>r. (r_DeviceID r, r)) rs) did)"
  by (induction rs) auto

lemma ByDevice_Load_wire:
  "Table_ByDevice (Table_Load t (map wire_route rs)) did
     = map_option wire_route (Table_ByDevice (Table_Load t' rs) did)"
  unfolding ByDevice_Load rev_map [symmetric] using gget_map_wire [of "rev rs"] by (simp add: rev_map)

lemma ByDevice_reload:
  assumes "table_wf t"
  shows "Table_ByDevice (Table_Load t' (Table_Snapshot t)) did = Table_ByDevice t did"
  using assms by (simp add: Table_ByDevice_def Load_active table_entries_keyed gget_rev table_wfD(1))

section \<open>Every frame keeps the client consistent\<close>

lemma unsynced_ok:
  "gw_wf (cc_Gateway c) \<Longrightarrow> table_wf (cc_table c) \<Longrightarrow> \<not> g_controlSynced (cc_Gateway c) \<Longrightarrow> client_ok k c"
  by (simp add: client_ok_def)

lemma gw_wf_flags [simp]:
  "gw_wf (SetControlSynced g b) = gw_wf g" "gw_wf (Gateway_SetDraining g b) = gw_wf g"
  "gw_wf (SetCanary g b) = gw_wf g" "gw_wf (SetListenHost g h) = gw_wf g" "gw_wf (g\<lparr>g_Table := t\<rparr>) = gw_wf g"
  by (simp_all add: gw_wf_def flag_defs)

lemma synced_fields [simp]:
  "g_Table (SetControlSynced g b) = g_Table g" "g_controlSynced (SetControlSynced g b) = b"
  "g_listeners (SetControlSynced g b) = g_listeners g"
  by (simp_all add: SetControlSynced_def)

lemma save_step_cases:
  assumes "save_step e c rs = (c', r)" and "disk_ok (ce_disk e)"
  obtains (failed) fs err where "r = Some err"
      and "c' = c\<lparr>cc_files := fs, cc_Gateway := SetControlSynced (cc_Gateway c) False\<rparr>"
  | (saved) fs where "r = None" and "c' = c\<lparr>cc_files := fs\<rparr>"
      and "LoadSnapshot (ce_disk e) fs (cc_SnapshotPath c) = Inr (map wire_route rs)"
  using assms save_then_load [OF assms(2)] by (auto simp: save_step_def split: prod.splits option.splits)

lemma reconcile_step_cases:
  assumes "reconcile_step e c = (c', r)" and "gw_wf (cc_Gateway c)"
  obtains (failed) g err where "r = Some err" and "c' = c\<lparr>cc_Gateway := SetControlSynced g False\<rparr>"
      and "gw_wf g" and "only_listeners (cc_Gateway c) g"
  | (finished) g where "r = None" and "c' = c\<lparr>cc_Gateway := g\<rparr>"
      and "gw_wf g" and "only_listeners (cc_Gateway c) g" and "listeners_current g"
  using assms Reconcile_wf [OF _ assms(2)] Reconcile_current [OF _ assms(2)]
  by (auto simp: reconcile_step_def split: prod.splits option.splits)

lemma handle_snapshot_ok:
  assumes run: "handle_snapshot e c rs = (c', r)" and wf: "gw_wf (cc_Gateway c)" "table_wf (cc_table c)"
    and disk: "disk_ok (ce_disk e)" and codec: "same_codec (ce_disk e) k"
  shows "client_ok k c' \<and> (r = None \<longleftrightarrow> g_controlSynced (cc_Gateway c'))
     \<and> (r = None \<longrightarrow> cc_table c' = Table_Load (cc_table c) rs)"
proof -
  obtain c1 r1 where save: "save_step e c rs = (c1, r1)" by fastforce
  from save disk show ?thesis
  proof (cases rule: save_step_cases)
    case (failed fs err)
    then have "c' = c1" and "r = Some err" using run save by (simp_all add: handle_snapshot_def)
    then show ?thesis using failed wf by (simp add: client_ok_def)
  next
    case (saved fs)
    let ?c1 = "set_table (Table_Load (cc_table c1) rs) c1"
    obtain c2 r2 where rec: "reconcile_step e ?c1 = (c2, r2)" by fastforce
    have wf1: "gw_wf (cc_Gateway ?c1)" using wf saved by (simp add: set_table_def map_gateway_def)
    from rec wf1 show ?thesis
    proof (cases rule: reconcile_step_cases)
      case (failed g err)
      have t: "g_Table g = Table_Load (cc_table c1) rs"
        using failed(4) only_listenersD(1) by (fastforce simp: set_table_def map_gateway_def)
      have "c' = c2" and "r = Some err" using run save saved rec failed by (simp_all add: handle_snapshot_def)
      then show ?thesis using failed t table_wf_Load by (simp add: client_ok_def)
    next
      case (finished g)
      have t: "g_Table g = Table_Load (cc_table c) rs"
        using finished(4) saved(2) only_listenersD(1) by (fastforce simp: set_table_def map_gateway_def)
      have c': "c' = c2\<lparr>cc_Gateway := SetControlSynced g True\<rparr>" and r: "r = None"
        using run save saved rec finished by (simp_all add: handle_snapshot_def map_gateway_def)
      have "listeners_current (SetControlSynced g True)"
        using finished(5) by (simp add: listeners_current_def)
      moreover have "disk_current k c'"
        unfolding disk_current_def c' finished(2) LoadSnapshot_codec [OF codec, symmetric]
        using saved t by (simp add: set_table_def map_gateway_def ByDevice_Load_wire)
      ultimately show ?thesis using c' r finished(3) t table_wf_Load
        by (simp add: client_ok_def Table_Loaded_def) (simp add: Table_Load_def)
    qed
  qed
qed


lemma adds_inactive_current:
  assumes "listeners_current g" and "adds_inactive did g g'"
  shows "listeners_current g'"
proof -
  have t: "g_Table g' = g_Table g"
    using assms(2) only_listenersD(1) unfolding adds_inactive_def by blast
  have active: "gget (g_listeners g') p = Some l \<and> dl_active l \<longleftrightarrow> gget (g_listeners g) p = Some l \<and> dl_active l" for p l
    using assms(2) unfolding adds_inactive_def by (metis option.inject option.distinct(1))
  then show ?thesis using assms(1) serves_active unfolding listeners_current_def t by blast
qed

lemma PrepareDevice_inactive:
  "PrepareDevice e g d = (g', r) \<Longrightarrow> gw_wf g \<Longrightarrow> gw_wf g' \<and> adds_inactive (d_ID d) g g'"
  unfolding PrepareDevice_def by (rule prepare_ingresses_wf)

lemma PrepareListener_inactive:
  "PrepareListener e g rt = (g', r) \<Longrightarrow> gw_wf g \<Longrightarrow> gw_wf g' \<and> adds_inactive (r_DeviceID rt) g g'"
  unfolding PrepareListener_def by (drule PrepareDevice_inactive) simp_all

text \<open>A change of the gateway that neither the active listeners nor the active routes notice.\<close>

lemma client_ok_quiet:
  assumes "client_ok k c" and "gw_wf g'" and "table_wf (g_Table g')"
    and "t_active (g_Table g') = t_active (cc_table c)" and "t_loaded (g_Table g') = t_loaded (cc_table c)"
    and "g_controlSynced g' \<Longrightarrow> g_controlSynced (cc_Gateway c)"
    and "listeners_current (cc_Gateway c) \<Longrightarrow> listeners_current g'"
  shows "client_ok k (c\<lparr>cc_Gateway := g'\<rparr>)"
  using assms by (auto simp: client_ok_def disk_current_def Table_ByDevice_def Table_Loaded_def)

lemma listeners_current_active:
  "t_active (g_Table g') = t_active (g_Table g) \<Longrightarrow> g_listeners g' = g_listeners g \<Longrightarrow>
     listeners_current g' = listeners_current g"
  by (simp add: listeners_current_def asks_for_def Table_Snapshot_def)

lemma handle_prepare_ok:
  assumes ok: "client_ok k c" and run: "handle_prepare e c rt = (c', r)"
  shows "client_ok k c'"
proof -
  have wf: "gw_wf (cc_Gateway c)" "table_wf (cc_table c)" using ok by (simp_all add: client_ok_def)
  obtain g r1 where prep: "PrepareListener (ce_net e) (cc_Gateway c) rt = (g, r1)" by fastforce
  obtain t r2 where tab: "Table_Prepare (g_Table g) rt = (t, r2)" by fastforce
  have g: "gw_wf g" "adds_inactive (r_DeviceID rt) (cc_Gateway c) g" "only_listeners (cc_Gateway c) g"
    using PrepareListener_inactive [OF prep wf(1)] by (simp_all add: adds_inactive_def)
  have same: "g_Table g = cc_table c" "g_controlSynced g = g_controlSynced (cc_Gateway c)"
    using only_listenersD [OF g(3)] by simp_all
  have t: "table_wf t" "t_active t = t_active (cc_table c)" "t_loaded t = t_loaded (cc_table c)"
    using table_wf_Prepare [OF wf(2), of rt] Prepare_keeps_active [of "cc_table c" rt]
      Prepare_keeps_loaded [of "cc_table c" rt] tab same(1)
    by (simp_all del: Prepare_keeps_active Prepare_keeps_loaded)
  have cur: "listeners_current (cc_Gateway c) \<Longrightarrow> listeners_current g"
    using adds_inactive_current g(2) by blast
  have q: "listeners_current (SetControlSynced (g\<lparr>g_Table := t\<rparr>) b) = listeners_current g"
    "listeners_current (g\<lparr>g_Table := t\<rparr>) = listeners_current g" for b
    using t(2) same(1) by (simp_all add: listeners_current_def asks_for_def Table_Snapshot_def)
  consider (early) "c' = c\<lparr>cc_Gateway := g\<rparr>" | (full) "c' = c\<lparr>cc_Gateway := g\<lparr>g_Table := t\<rparr>\<rparr>"
    | (stale) "c' = c\<lparr>cc_Gateway := SetControlSynced (g\<lparr>g_Table := t\<rparr>) False\<rparr>"
    using run prep tab by (auto simp: handle_prepare_def split: option.splits)
  then show ?thesis
  proof cases
    case early
    then show ?thesis using client_ok_quiet [OF ok g(1)] wf same cur by simp
  next
    case full
    then show ?thesis using client_ok_quiet [OF ok, of "g\<lparr>g_Table := t\<rparr>"] g(1) t same cur q by simp
  next
    case stale
    then show ?thesis using unsynced_ok g(1) t(1) by simp
  qed
qed


lemma apply_table_change_ok:
  assumes ok: "client_ok k c" and run: "apply_table_change e c (t, r0) = (c', r)"
    and t: "table_wf t" "t_loaded t = t_loaded (cc_table c)" and kept: "r0 \<noteq> None \<Longrightarrow> t = cc_table c"
    and disk: "disk_ok (ce_disk e)" and codec: "same_codec (ce_disk e) k"
  shows "client_ok k c' \<and> (g_controlSynced (cc_Gateway c') \<longrightarrow> g_controlSynced (cc_Gateway c))
     \<and> (r = None \<longrightarrow> cc_table c' = t \<and> listeners_current (cc_Gateway c') \<and> disk_current k c'
          \<and> g_controlSynced (cc_Gateway c') = g_controlSynced (cc_Gateway c))"
proof (cases r0)
  case (Some err)
  then show ?thesis using run kept ok by (simp add: apply_table_change_def set_table_def map_gateway_def) auto
next
  case None
  let ?c1 = "set_table t c"
  have wf1: "gw_wf (cc_Gateway ?c1)" using ok by (simp add: client_ok_def set_table_def map_gateway_def)
  obtain c2 r2 where rec: "reconcile_step e ?c1 = (c2, r2)" by fastforce
  from rec wf1 show ?thesis
  proof (cases rule: reconcile_step_cases)
    case (failed g err)
    have tg: "g_Table g = t" using failed(4) only_listenersD(1) by (fastforce simp: set_table_def map_gateway_def)
    have "c' = c2" and "r = Some err" using run None rec failed by (simp_all add: apply_table_change_def)
    then show ?thesis using failed tg t by (simp add: client_ok_def)
  next
    case (finished g)
    have tg: "g_Table g = t" and sg: "g_controlSynced g = g_controlSynced (cc_Gateway c)"
      using finished(4) only_listenersD(1,5) by (fastforce simp: set_table_def map_gateway_def)+
    have save: "save_step e c2 (Table_Snapshot t) = (c', r)"
      using run None rec finished tg by (simp add: apply_table_change_def)
    from save disk show ?thesis
    proof (cases rule: save_step_cases)
      case (failed fs err)
      then show ?thesis using finished tg t by (simp add: client_ok_def)
    next
      case (saved fs)
      have c': "c' = c\<lparr>cc_Gateway := g, cc_files := fs\<rparr>"
        using saved(2) finished(2) by (simp add: set_table_def map_gateway_def)
      have "disk_current k c'"
        unfolding disk_current_def LoadSnapshot_codec [OF codec, symmetric]
        using saved finished(2) c' tg ByDevice_reload [OF t(1)]
        by (simp add: set_table_def map_gateway_def ByDevice_Load_wire [where t' = NewTable])
      then show ?thesis using c' finished tg sg t ok by (auto simp: client_ok_def Table_Loaded_def)
    qed
  qed
qed

lemma Activate_err_keeps: "Table_Activate t r = (t', Some err) \<Longrightarrow> t' = t"
  by (auto simp: Table_Activate_def Let_def split: option.splits if_splits)

lemma UpdateDevice_never_fails: "snd (Table_UpdateDevice t d) = None"
  by (simp add: Table_UpdateDevice_def Let_def split: option.splits)

lemma handle_activate_ok:
  assumes "client_ok k c" and "apply_table_change e c (Table_Activate (cc_table c) rt) = (c', r)"
    and "disk_ok (ce_disk e)" and "same_codec (ce_disk e) k"
  shows "client_ok k c' \<and> (g_controlSynced (cc_Gateway c') \<longrightarrow> g_controlSynced (cc_Gateway c))
     \<and> (r = None \<longrightarrow> cc_table c' = fst (Table_Activate (cc_table c) rt) \<and> listeners_current (cc_Gateway c')
          \<and> disk_current k c' \<and> g_controlSynced (cc_Gateway c') = g_controlSynced (cc_Gateway c))"
proof -
  obtain t r0 where act: "Table_Activate (cc_table c) rt = (t, r0)" by fastforce
  show ?thesis unfolding act fst_conv
  proof (rule apply_table_change_ok [OF assms(1) assms(2) [unfolded act] _ _ _ assms(3,4)])
    show "table_wf t" "t_loaded t = t_loaded (cc_table c)"
      using assms(1) table_wf_Activate [of "cc_table c" rt] Activate_keeps_loaded [of "cc_table c" rt] act
      by (simp_all add: client_ok_def del: Activate_keeps_loaded)
    show "r0 \<noteq> None \<Longrightarrow> t = cc_table c" using act Activate_err_keeps by fastforce
  qed
qed

lemma handle_update_ok:
  assumes "client_ok k c" and "apply_table_change e c (Table_UpdateDevice (cc_table c) d) = (c', r)"
    and "disk_ok (ce_disk e)" and "same_codec (ce_disk e) k"
  shows "client_ok k c' \<and> (g_controlSynced (cc_Gateway c') \<longrightarrow> g_controlSynced (cc_Gateway c))
     \<and> (r = None \<longrightarrow> cc_table c' = fst (Table_UpdateDevice (cc_table c) d) \<and> listeners_current (cc_Gateway c')
          \<and> disk_current k c' \<and> g_controlSynced (cc_Gateway c') = g_controlSynced (cc_Gateway c))"
proof -
  obtain t r0 where act: "Table_UpdateDevice (cc_table c) d = (t, r0)" by fastforce
  show ?thesis unfolding act fst_conv
  proof (rule apply_table_change_ok [OF assms(1) assms(2) [unfolded act] _ _ _ assms(3,4)])
    show "table_wf t" "t_loaded t = t_loaded (cc_table c)"
      using assms(1) table_wf_UpdateDevice [of "cc_table c" d] UpdateDevice_keeps_loaded [of "cc_table c" d] act
      by (simp_all add: client_ok_def del: UpdateDevice_keeps_loaded)
    show "r0 \<noteq> None \<Longrightarrow> t = cc_table c" using act UpdateDevice_never_fails [of "cc_table c" d] by simp
  qed
qed


lemma handle_kinds:
  obtains (snapshot) "f_Type f = TypeSnapshot" and "handle e c f = handle_snapshot e c (f_Routes f)"
  | (prepare) rt where "f_Type f = TypePrepare" and "f_Route f = Some rt" and "handle e c f = handle_prepare e c rt"
  | (activate) rt where "f_Type f = TypeActivate" and "f_Route f = Some rt"
      and "handle e c f = apply_table_change e c (Table_Activate (cc_table c) rt)"
  | (update) d where "f_Type f = TypeDeviceUpdate" and "f_Device f = Some d"
      and "handle e c f = apply_table_change e c (Table_UpdateDevice (cc_table c) d)"
  | (device_prepare) d g res where "f_Type f = TypeDevicePrepare" and "f_Device f = Some d"
      and "PrepareDevice (ce_net e) (cc_Gateway c) d = (g, res)" and "handle e c f = (c\<lparr>cc_Gateway := g\<rparr>, res)"
  | (draining) v where "f_Type f = TypeSetDraining"
      and "handle e c f = (c\<lparr>cc_Gateway := Gateway_SetDraining (cc_Gateway c) v\<rparr>, None)"
  | (unchanged) res where "handle e c f = (c, res)"
proof -
  consider "f_Type f = TypeSnapshot" | "f_Type f = TypePrepare" | "f_Type f = TypeActivate"
    | "f_Type f = TypeDeviceUpdate" | "f_Type f = TypeDevicePrepare" | "f_Type f = TypeSetDraining"
    | "f_Type f \<notin> {TypeSnapshot, TypePrepare, TypeActivate, TypeDeviceUpdate, TypeDevicePrepare, TypeSetDraining}"
    by blast
  then show ?thesis
  proof cases
    case 1 then show ?thesis using snapshot by (simp add: handle_def)
  next
    case 2
    then have "handle e c f = (case f_Route f of None \<Rightarrow> (c, Some (ErrMsg ''missing route''))
        | Some rt \<Rightarrow> handle_prepare e c rt)" by (simp add: handle_def type_defs)
    with 2 show ?thesis using prepare unchanged by (cases "f_Route f") simp_all
  next
    case 3 then show ?thesis using activate unchanged by (cases "f_Route f") (simp_all add: handle_def type_defs)
  next
    case 4 then show ?thesis using update unchanged by (cases "f_Device f") (simp_all add: handle_def type_defs)
  next
    case 5 then show ?thesis using device_prepare unchanged
      by (cases "f_Device f"; cases "PrepareDevice (ce_net e) (cc_Gateway c) (the (f_Device f))")
        (simp_all add: handle_def type_defs)
  next
    case 6 then show ?thesis using draining unchanged
      by (cases "strconv_ParseBool (f_DeviceID f)") (simp_all add: handle_def type_defs map_gateway_def)
  next
    case 7 then show ?thesis using unchanged by (cases "f_Type f = TypeInterrupt") (simp_all add: handle_def)
  qed
qed

lemma handle_ok:
  assumes ok: "client_ok k c" and run: "handle e c f = (c', r)"
    and disk: "disk_ok (ce_disk e)" and codec: "same_codec (ce_disk e) k"
  shows "client_ok k c'"
proof (cases e c f rule: handle_kinds)
  case snapshot
  then have "handle_snapshot e c (f_Routes f) = (c', r)" using run by simp
  from handle_snapshot_ok [OF this _ _ disk codec] show ?thesis using ok unfolding client_ok_def by blast
next
  case (prepare rt)
  then show ?thesis using handle_prepare_ok [OF ok] run by metis
next
  case (activate rt)
  then show ?thesis using handle_activate_ok [OF ok _ disk codec] run by metis
next
  case (update d)
  then show ?thesis using handle_update_ok [OF ok _ disk codec] run by metis
next
  case (device_prepare d g res)
  have wf: "gw_wf (cc_Gateway c)" "table_wf (cc_table c)" using ok by (simp_all add: client_ok_def)
  have g: "gw_wf g" "adds_inactive (d_ID d) (cc_Gateway c) g" "only_listeners (cc_Gateway c) g"
    using PrepareDevice_inactive [OF device_prepare(3) wf(1)] by (simp_all add: adds_inactive_def)
  have "c' = c\<lparr>cc_Gateway := g\<rparr>" using device_prepare run by simp
  then show ?thesis
    using client_ok_quiet [OF ok g(1)] wf only_listenersD [OF g(3)] adds_inactive_current [OF _ g(2)] by simp
next
  case (draining v)
  then have "c' = c\<lparr>cc_Gateway := Gateway_SetDraining (cc_Gateway c) v\<rparr>" using run by simp
  then show ?thesis using ok
    by (simp add: client_ok_def disk_current_def) (simp add: Gateway_SetDraining_def listeners_current_def)
next
  case (unchanged res)
  then show ?thesis using ok run by simp
qed

section \<open>The life of a gateway process\<close>

text \<open>
  The process starts by \<open>start_gateway\<close>; from then on it handles frames, while connections come and
  go and the canary and the local drain switch flip their flags. Shutting down is not a step: it closes
  the listeners and ends the process.
\<close>

definition client_init :: "disk_env \<Rightarrow> control_client \<Rightarrow> bool" where
  "client_init k c \<longleftrightarrow> (\<exists>e host canary.
     start_gateway e k (cc_files c) (cc_SnapshotPath c) host canary = Inr (cc_Gateway c))"

definition same_listening :: "gateway \<Rightarrow> gateway \<Rightarrow> bool" where
  "same_listening g g' \<longleftrightarrow> g_Table g' = g_Table g \<and> g_controlSynced g' = g_controlSynced g
     \<and> g_listeners g' = g_listeners g \<and> g_open g' = g_open g \<and> g_nextSocket g' = g_nextSocket g"

inductive client_step :: "disk_env \<Rightarrow> control_client \<Rightarrow> control_client \<Rightarrow> bool" for k where
  receive: "disk_ok (ce_disk e) \<Longrightarrow> same_codec (ce_disk e) k \<Longrightarrow> client_step k c (fst (handle e c f))"
| background: "same_listening (cc_Gateway c) g' \<Longrightarrow> client_step k c (c\<lparr>cc_Gateway := g'\<rparr>)"

lemma start_gateway_table:
  assumes "start_gateway e k fs path host canary = Inr g"
  shows "g_Table g = (case LoadSnapshot k fs path of Inr routes \<Rightarrow> Table_Load NewTable routes | Inl _ \<Rightarrow> NewTable)
     \<and> gw_wf g \<and> \<not> g_controlSynced g"
proof -
  let ?t = "case LoadSnapshot k fs path of Inr routes \<Rightarrow> Table_Load NewTable routes | Inl _ \<Rightarrow> NewTable"
  let ?g = "SetListenHost (NewGateway ?t NewConnections) host"
  obtain g1 where g1: "g = (if canary then SetCanary g1 False else g1)"
    and run: "(if Table_Loaded ?t then ReconcileListeners e ?g else (?g, None)) = (g1, None)"
    using assms by (auto simp: start_gateway_def Let_def split: prod.splits option.splits)
  have "gw_wf g1 \<and> only_listeners ?g g1"
    using run Reconcile_wf [of e ?g g1 None] gw_wf_New [of ?t NewConnections] by (auto split: if_splits)
  then show ?thesis
    using g1 only_listenersD [of ?g g1]
    by (simp add: SetCanary_def) (simp add: SetListenHost_def NewGateway_def SetCanary_def gw_wf_def)
qed

interpretation client_inv: invariant_of "client_init k" "client_step k" "client_ok k" for k
proof unfold_locales
  fix c assume "client_init k c"
  then show "client_ok k c"
    unfolding client_init_def using start_gateway_table table_wf_New table_wf_Load
    by (metis (no_types, lifting) sum.case_eq_if unsynced_ok)
next
  fix c c' assume ok: "client_ok k c" and "client_step k c c'"
  from this(2) show "client_ok k c'"
  proof cases
    case (receive e f)
    then show ?thesis using handle_ok [OF ok] by (metis prod.collapse)
  next
    case (background g')
    then show ?thesis using ok
      by (simp add: same_listening_def client_ok_def listeners_current_def disk_current_def gw_wf_def)
  qed
qed


text \<open>
  C5: whenever the gateway counts as synchronised with the control plane, however it got there, its
  active listeners are exactly those its routes ask for, and the snapshot on disk describes the
  routes it is using.
\<close>

theorem synced_gateway_consistent:
  assumes "reach (client_init k) (client_step k) c" and "g_controlSynced (cc_Gateway c)"
  shows "listeners_current (cc_Gateway c) \<and> disk_current k c \<and> gw_wf (cc_Gateway c)"
  using client_inv.reach_inv [OF assms(1)] assms(2) by (simp add: client_ok_def)

text \<open>A client that has just started on an empty disk, and receives a snapshot with one route.\<close>

definition newer_route :: device_route where
  "newer_route = demo_route\<lparr>r_Version := 2, r_Status := RoutePending\<rparr>"

definition route_disk :: disk_env where
  "route_disk = demo_disk\<lparr>
     de_Marshal := (\<lambda>rs. if rs = [demo_route] then Inr [7]
       else if rs = [newer_route\<lparr>r_Status := RouteActive\<rparr>] then Inr [8] else Inl (ErrLib ''unsupported'')),
     de_Unmarshal := (\<lambda>raw. if raw = [7] then Inr [demo_route] else Inr [newer_route\<lparr>r_Status := RouteActive\<rparr>])\<rparr>"

definition demo_env :: client_env where
  "demo_env = \<lparr>ce_net = calm_env, ce_disk = route_disk\<rparr>"

definition demo_client :: control_client where
  "demo_client = \<lparr>cc_GatewayID = ''gw'', cc_Address = [], cc_SnapshotPath = ''s'',
     cc_Gateway = NewGateway NewTable NewConnections, cc_files = []\<rparr>"

definition snapshot_frame :: frame where
  "snapshot_frame = zero_frame\<lparr>f_Type := TypeSnapshot, f_Routes := [demo_route]\<rparr>"

definition synced_client :: control_client where
  "synced_client = fst (handle demo_env demo_client snapshot_frame)"

lemma route_disk_ok: "disk_ok route_disk"
  using demo_disk_ok by (simp add: disk_ok_def route_disk_def) (simp add: wire_route_def newer_route_def demo_route_def zero_defs)

lemma demo_client_init: "client_init k demo_client"
  unfolding client_init_def
  by (rule exI [of _ calm_env], rule exI [of _ "''0.0.0.0''"], rule exI [of _ False])
    (simp add: start_gateway_def demo_client_def LoadSnapshot_def Table_Loaded_def NewTable_def
      SetListenHost_def NewGateway_def)

lemma synced_client_reach: "reach (client_init route_disk) (client_step route_disk) synced_client"
proof -
  have "client_step route_disk demo_client synced_client" unfolding synced_client_def
    by (rule client_step.receive) (simp_all add: demo_env_def route_disk_ok same_codec_def)
  then show ?thesis
    using reach_init [where init = "client_init route_disk", OF demo_client_init] reach_step by metis
qed

lemma demo_save: "SaveSnapshot route_disk [] ''s'' [demo_route] = ([(''s'', [1, 2, 1, 2, 7])], None)"
  by (simp add: SaveSnapshot_def route_disk_def demo_disk_def Cipher_Encrypt_def demo_aead_def)

lemma demo_reconcile:
  "ReconcileListeners calm_env demo_gateway = (fst (ReconcileListeners calm_env demo_gateway), None)"
  by (simp add: demo_defs ReconcileListeners_def Table_Snapshot_def Table_Load_def
      Route_EffectiveIngresses_def ingress_item_def startListenerLocked_def SS_Validate_def net_Listen_def)

lemma demo_snapshot:
  "handle demo_env demo_client snapshot_frame = (synced_client, None)"
  "synced_client = demo_client\<lparr>cc_files := [(''s'', [1, 2, 1, 2, 7])],
     cc_Gateway := SetControlSynced (fst (ReconcileListeners calm_env demo_gateway)) True\<rparr>"
proof -
  have files: "save_step demo_env demo_client [demo_route] = (demo_client\<lparr>cc_files := [(''s'', [1, 2, 1, 2, 7])]\<rparr>, None)"
    by (simp add: save_step_def demo_env_def demo_client_def demo_save)
  have load: "set_table (Table_Load (cc_table demo_client) [demo_route]) (demo_client\<lparr>cc_files := fs\<rparr>)
      = demo_client\<lparr>cc_files := fs, cc_Gateway := demo_gateway\<rparr>" for fs
    by (simp add: set_table_def map_gateway_def demo_client_def demo_gateway_def NewGateway_def)
  have rec: "reconcile_step demo_env (c\<lparr>cc_Gateway := demo_gateway\<rparr>)
      = (c\<lparr>cc_Gateway := fst (ReconcileListeners calm_env demo_gateway)\<rparr>, None)" for c
    by (simp add: reconcile_step_def demo_env_def) (subst demo_reconcile, simp)
  have run: "handle demo_env demo_client snapshot_frame =
     (demo_client\<lparr>cc_files := [(''s'', [1, 2, 1, 2, 7])],
        cc_Gateway := SetControlSynced (fst (ReconcileListeners calm_env demo_gateway)) True\<rparr>, None)"
    unfolding handle_def snapshot_frame_def handle_snapshot_def
    by (simp add: files load rec map_gateway_def)
  then show "synced_client = demo_client\<lparr>cc_files := [(''s'', [1, 2, 1, 2, 7])],
     cc_Gateway := SetControlSynced (fst (ReconcileListeners calm_env demo_gateway)) True\<rparr>"
    by (simp add: synced_client_def)
  with run show "handle demo_env demo_client snapshot_frame = (synced_client, None)" by simp
qed

lemma synced_client_table: "cc_table synced_client = Table_Load NewTable [demo_route]"
proof -
  have "only_listeners demo_gateway (fst (ReconcileListeners calm_env demo_gateway))"
    using Reconcile_wf [OF demo_reconcile] gw_wf_New by (simp add: demo_gateway_def)
  from only_listenersD(1) [OF this] show ?thesis
    by (simp add: demo_snapshot(2)) (simp add: demo_gateway_def NewGateway_def)
qed

lemma synced_client_ok: "client_ok route_disk synced_client"
  using client_inv.reach_inv [OF synced_client_reach] .

lemma synced_client_route: "Table_ByDevice (cc_table synced_client) ''d'' = Some demo_route"
  unfolding synced_client_table by (simp add: Table_ByDevice_def Table_Load_def demo_route_def)

theorem synced_gateway_consistent_witness:
  "reach (client_init route_disk) (client_step route_disk) synced_client
   \<and> g_controlSynced (cc_Gateway synced_client) \<and> asks_for (cc_table synced_client) 5000 demo_route
   \<and> listeners_current (cc_Gateway synced_client) \<and> disk_current route_disk synced_client"
proof -
  have s: "g_controlSynced (cc_Gateway synced_client)" by (simp add: demo_snapshot(2))
  have "asks_for (cc_table synced_client) 5000 demo_route"
    unfolding synced_client_table by (simp add: asks_for_def Table_Snapshot_def Table_Load_def
        Route_EffectiveIngresses_def ingress_item_def demo_defs)
  then show ?thesis
    using synced_gateway_consistent [OF synced_client_reach s] synced_client_reach s by blast
qed




section \<open>What single frames do\<close>

text \<open>
  C20: the first phase of a deployment is invisible to clients. A prepare frame, for a route or for a
  device, whether it is acknowledged or refused, changes no route that a device resolves to, no listener
  that was there, and nothing on disk; a listener it adds is inactive.
\<close>

theorem prepare_frames_invisible:
  assumes "gw_wf (cc_Gateway c)" and "f_Type f \<in> {TypePrepare, TypeDevicePrepare}" and "handle e c f = (c', r)"
  shows "(\<forall>did. Table_ByDevice (cc_table c') did = Table_ByDevice (cc_table c) did)
     \<and> cc_files c' = cc_files c
     \<and> (\<forall>p l. gget (g_listeners (cc_Gateway c)) p = Some l \<longrightarrow> gget (g_listeners (cc_Gateway c')) p = Some l)
     \<and> (\<forall>p l. gget (g_listeners (cc_Gateway c')) p = Some l \<and> gget (g_listeners (cc_Gateway c)) p = None \<longrightarrow> \<not> dl_active l)"
proof -
  have "\<exists>g did t b. adds_inactive did (cc_Gateway c) g \<and> t_active t = t_active (g_Table g)
      \<and> c' = c\<lparr>cc_Gateway := g\<lparr>g_Table := t, g_controlSynced := b\<rparr>\<rparr>"
  proof (cases e c f rule: handle_kinds)
    case (prepare rt)
    obtain g r1 where prep: "PrepareListener (ce_net e) (cc_Gateway c) rt = (g, r1)" by fastforce
    obtain t r2 where tab: "Table_Prepare (g_Table g) rt = (t, r2)" by fastforce
    have "t_active t = t_active (g_Table g)" using tab Prepare_keeps_active [of "g_Table g" rt] by simp
    moreover have "\<exists>t' b. t' \<in> {g_Table g, t} \<and> c' = c\<lparr>cc_Gateway := g\<lparr>g_Table := t', g_controlSynced := b\<rparr>\<rparr>"
    proof -
      have id: "g = g\<lparr>g_Table := g_Table g, g_controlSynced := g_controlSynced g\<rparr>"
        "g\<lparr>g_Table := t\<rparr> = g\<lparr>g_Table := t, g_controlSynced := g_controlSynced g\<rparr>" by simp_all
      have "c' \<in> {c\<lparr>cc_Gateway := g\<rparr>, c\<lparr>cc_Gateway := g\<lparr>g_Table := t\<rparr>\<rparr>,
          c\<lparr>cc_Gateway := g\<lparr>g_Table := t, g_controlSynced := False\<rparr>\<rparr>}"
        using assms(3) prepare prep tab by (auto simp: handle_prepare_def SetControlSynced_def split: option.splits)
      with id show ?thesis by (metis insert_iff singletonD)
    qed
    ultimately show ?thesis using PrepareListener_inactive [OF prep assms(1)] by blast
  next
    case (device_prepare d g res)
    have "c' = c\<lparr>cc_Gateway := g\<lparr>g_Table := g_Table g, g_controlSynced := g_controlSynced g\<rparr>\<rparr>"
      using device_prepare assms(3) by simp
    then show ?thesis using PrepareDevice_inactive [OF device_prepare(3) assms(1)] by blast
  next
    case (unchanged res)
    then have "c' = c\<lparr>cc_Gateway := (cc_Gateway c)\<lparr>g_Table := cc_table c, g_controlSynced := g_controlSynced (cc_Gateway c)\<rparr>\<rparr>"
      using assms(3) by simp
    then show ?thesis using adds_inactive_refl by blast
  qed (use assms(2) in \<open>simp_all add: type_defs\<close>)
  then obtain g did t b where g: "adds_inactive did (cc_Gateway c) g" "t_active t = t_active (g_Table g)"
    and c': "c' = c\<lparr>cc_Gateway := g\<lparr>g_Table := t, g_controlSynced := b\<rparr>\<rparr>" by blast
  have "g_Table g = cc_table c" using g(1) only_listenersD(1) unfolding adds_inactive_def by blast
  then show ?thesis using g unfolding adds_inactive_def c' Table_ByDevice_def
    by simp (metis option.distinct(1) option.inject)
qed

definition prepare_frame :: frame where
  "prepare_frame = zero_frame\<lparr>f_Type := TypePrepare, f_Route := Some newer_route\<rparr>"

theorem prepare_frames_invisible_witness:
  "let (c', r) = handle demo_env synced_client prepare_frame in
   gw_wf (cc_Gateway synced_client) \<and> f_Type prepare_frame \<in> {TypePrepare, TypeDevicePrepare}
   \<and> Table_ByDevice (cc_table c') ''d'' = Some demo_route \<and> cc_files c' = cc_files synced_client"
proof -
  obtain c' r where run: "handle demo_env synced_client prepare_frame = (c', r)" by fastforce
  have wf: "gw_wf (cc_Gateway synced_client)" using synced_client_ok by (simp add: client_ok_def)
  have ty: "f_Type prepare_frame \<in> {TypePrepare, TypeDevicePrepare}" by (simp add: prepare_frame_def)
  show ?thesis using prepare_frames_invisible [OF wf ty run] run wf ty synced_client_route by simp
qed

text \<open>
  Once a gateway has lost its synchronisation, only a snapshot that it applies without error brings it
  back; no prepare, activation or device update does, even a successful one. And a snapshot it fails
  to apply always costs it the synchronisation.
\<close>

theorem only_snapshot_resyncs:
  assumes "client_ok k c" and "disk_ok (ce_disk e)" and "same_codec (ce_disk e) k" and "handle e c f = (c', r)"
  shows "(\<not> g_controlSynced (cc_Gateway c) \<and> g_controlSynced (cc_Gateway c') \<longrightarrow> f_Type f = TypeSnapshot)
     \<and> (f_Type f = TypeSnapshot \<longrightarrow> (g_controlSynced (cc_Gateway c') \<longleftrightarrow> r = None))"
proof (cases e c f rule: handle_kinds)
  case snapshot
  have "handle_snapshot e c (f_Routes f) = (c', r)" using snapshot assms(4) by simp
  from handle_snapshot_ok [OF this _ _ assms(2,3)] show ?thesis using assms(1) snapshot by (auto simp: client_ok_def)
next
  case (prepare rt)
  obtain g r1 where prep: "PrepareListener (ce_net e) (cc_Gateway c) rt = (g, r1)" by fastforce
  have "g_controlSynced g = g_controlSynced (cc_Gateway c)"
    using PrepareListener_wf [OF prep] assms(1) only_listenersD(5) by (auto simp: client_ok_def)
  then show ?thesis using prepare prep assms(4)
    by (auto simp: handle_prepare_def type_defs split: option.splits prod.splits)
next
  case (activate rt)
  then show ?thesis using handle_activate_ok [OF assms(1) _ assms(2,3), of rt c' r] assms(4) by (auto simp: type_defs)
next
  case (update d)
  then show ?thesis using handle_update_ok [OF assms(1) _ assms(2,3), of d c' r] assms(4) by (auto simp: type_defs)
next
  case (device_prepare d g res)
  then show ?thesis using Prepare_wf [OF device_prepare(3)] assms only_listenersD(5)
    by (auto simp: client_ok_def type_defs)
next
  case (draining v)
  then show ?thesis using assms(4) by (auto simp: Gateway_SetDraining_def type_defs)
next
  case (unchanged res)
  show ?thesis
  proof (cases "f_Type f = TypeSnapshot")
    case True
    then have "handle_snapshot e c (f_Routes f) = (c', r)" using assms(4) by (simp add: handle_def)
    from handle_snapshot_ok [OF this _ _ assms(2,3)] show ?thesis using assms(1) True by (auto simp: client_ok_def)
  next
    case False
    then show ?thesis using unchanged assms(4) by auto
  qed
qed


theorem only_snapshot_resyncs_witness:
  "client_ok route_disk demo_client \<and> disk_ok (ce_disk demo_env) \<and> same_codec (ce_disk demo_env) route_disk
   \<and> handle demo_env demo_client snapshot_frame = (synced_client, None)
   \<and> \<not> g_controlSynced (cc_Gateway demo_client) \<and> g_controlSynced (cc_Gateway synced_client)"
proof -
  have ok: "client_ok route_disk demo_client" by (rule client_inv.inv_init [OF demo_client_init])
  have d: "disk_ok (ce_disk demo_env)" "same_codec (ce_disk demo_env) route_disk"
    by (simp_all add: demo_env_def route_disk_ok same_codec_def)
  have "f_Type snapshot_frame = TypeSnapshot" by (simp add: snapshot_frame_def)
  then show ?thesis using only_snapshot_resyncs [OF ok d demo_snapshot(1)] ok d demo_snapshot(1)
    by (auto simp: demo_client_def NewGateway_def)
qed

section \<open>Heartbeats and reconnection\<close>

lemma status_distinct:
  "GatewayReady \<noteq> GatewaySyncing" "GatewayReady \<noteq> GatewayDraining" "GatewaySyncing \<noteq> GatewayDraining"
  by (simp_all add: status_defs)

lemma MaxVersion_ge:
  assumes "Table_ByDevice t did = Some r"
  shows "r_Version r \<le> Table_MaxVersion t"
proof -
  have "r_Version r \<in> set (map r_Version (Table_Snapshot t))"
    using assms by (force simp: Table_ByDevice_def Table_Snapshot_def dest: map_of_SomeD)
  then have "r_Version r \<le> fold max (map r_Version (Table_Snapshot t)) 0"
    by (simp add: Max.set_eq_fold [symmetric] del: set_map)
  then show ?thesis by (simp add: Table_MaxVersion_def max_version_fold Table_Snapshot_def)
qed

text \<open>
  the status a heartbeat reports is the truth the gateway acts on: it says ready exactly when a
  connection of a routed device would be admitted past the readiness check, draining exactly when the
  drain switch is on, and the version it reports bounds the version of every route in use.
\<close>

theorem heartbeat_truthful:
  "\<exists>h. f_Heartbeat (heartbeat_frame c now) = Some h
     \<and> (gi_Status h = GatewayReady \<longleftrightarrow> Ready (cc_Gateway c))
     \<and> (gi_Status h = GatewayDraining \<longleftrightarrow> g_draining (cc_Gateway c))
     \<and> (\<forall>did r. Table_ByDevice (cc_table c) did = Some r \<longrightarrow> r_Version r \<le> gi_AppliedVersion h)"
  using MaxVersion_ge [of "cc_table c"] status_distinct
  by (auto simp: heartbeat_frame_def heartbeat_status_def Ready_def)

theorem heartbeat_truthful_witness:
  "\<exists>h. f_Heartbeat (heartbeat_frame synced_client 0) = Some h \<and> 1 \<le> gi_AppliedVersion h"
proof -
  have "r_Version demo_route = 1" by (simp add: demo_route_def)
  then show ?thesis
    using heartbeat_truthful [of synced_client 0] synced_client_route by metis
qed

text \<open>
  the delays between two attempts to reach the control plane are 1, 2, 4, 8 and 16 seconds and from
  then on 32 seconds: the guard stops doubling at the first delay above 30 seconds.
\<close>

theorem backoff_sequence: "(next_backoff ^^ n) 1 = (if n < 5 then 2 ^ n else 32)"
proof (induction n)
  case (Suc n)
  then show ?case by (cases "n < 5") (auto simp: next_backoff_def less_Suc_eq numeral_eq_Suc)
qed simp

end
