(* ===== verification/PM_Hub.thy ===== *)
theory PM_Hub
  imports PM_Control_Client
begin

text \<open>
  The control plane's end of the control streams, \<open>internal/control/hub.go\<close>: the sessions of connected
  gateways and the two-phase deployment of a route or of a device.

  A deployment runs in its own goroutine while gateways answer, heartbeats arrive, sessions open and
  close and other requests use the same sessions, so it is a machine with a program counter: the
  functions below are the pieces between two points where the goroutine can be suspended, and
  \<open>hub_step\<close> lets them interleave with everything else. \<open>deployMu\<close> admits one deployment at a time.
  Each session record also holds the gateway at the other end, so that the theorems can speak about
  both ends; \<open>s_send\<close> and \<open>s_acks\<close> stand for a channel of the hub together with the direction of the stream
  it feeds or is fed by, which keep the order of the frames.
\<close>

section \<open>State\<close>

record session =
  s_id :: string
  s_send :: "frame list"
  s_acks :: "frame list"
  s_done :: bool
  s_ready :: bool
  s_started :: bool
  s_peer :: control_client

text \<open>The rows that \<open>recordDeployment\<close> writes: device, version, gateway, phase, success, message.\<close>

type_synonym deployment_row = "string \<times> int \<times> string \<times> string \<times> bool \<times> string"

datatype phase = PhasePrepare | PhaseFinish

text \<open>
  Where a deployment stands: sending the frame of a phase to the sessions still listed, waiting for
  those still listed, about to call \<open>commit\<close>, or returned.
\<close>

datatype deploy_pc =
    Sending phase "nat list"
  | Waiting phase "nat list"
  | Committing
  | Returned "go_error option"

text \<open>
  One call of \<open>DeployRoute\<close> or \<open>DeployDevice\<close>. The closure \<open>commit\<close> works on the store, whose type is left
  open here. \<open>dp_what\<close> is the word that distinguishes the two calls in the wrapped errors.
\<close>

record 'st deployment =
  dp_what :: string
  dp_prepare :: frame
  dp_finish :: frame
  dp_commit :: "'st \<Rightarrow> 'st \<times> go_error option"
  dp_sessions :: "nat list"
  dp_committed :: bool
  dp_pc :: deploy_pc

text \<open>A session pointer is an index into \<open>h_all\<close>; \<open>h_sessions\<close> is the map of the hub.\<close>

record 'st hub =
  h_sessions :: "(string, nat) gomap"
  h_all :: "session list"
  h_store :: 'st
  h_gateways :: "(string, gateway_info) gomap"
  h_log :: "deployment_row list"
  h_deploy :: "'st deployment option"

definition NewHub :: "'st \<Rightarrow> 'st hub" where
  "NewHub st = \<lparr>h_sessions = [], h_all = [], h_store = st, h_gateways = [], h_log = [], h_deploy = None\<rparr>"

definition upd_session :: "nat \<Rightarrow> (session \<Rightarrow> session) \<Rightarrow> 'st hub \<Rightarrow> 'st hub" where
  "upd_session i f h = (if i < length (h_all h) then h\<lparr>h_all := (h_all h)[i := f (h_all h ! i)]\<rparr> else h)"

section \<open>Sessions\<close>

text \<open>
  \<open>Connect\<close>: the first frame registers the gateway; the deferred function forgets the session unless a
  newer one has taken its place; the snapshot goes out before anything queued for the session.
\<close>

definition Connect_register :: "'st hub \<Rightarrow> frame \<Rightarrow> control_client \<Rightarrow> go_error + 'st hub" where
  "Connect_register h first peer =
     (if f_Type first \<noteq> TypeRegister \<or> f_GatewayID first = []
      then Inl (ErrMsg ''first frame must register gateway'')
      else Inr (h\<lparr>h_sessions := gput (f_GatewayID first) (length (h_all h)) (h_sessions h),
                  h_all := h_all h @ [\<lparr>s_id = f_GatewayID first, s_send = [], s_acks = [], s_done = False,
                                        s_ready = False, s_started = False, s_peer = peer\<rparr>]\<rparr>))"

definition Connect_close :: "'st hub \<Rightarrow> nat \<Rightarrow> 'st hub" where
  "Connect_close h i =
     (let sid = s_id (h_all h ! i);
          h1 = (if gget (h_sessions h) sid = Some i then h\<lparr>h_sessions := gdel sid (h_sessions h)\<rparr> else h)
      in upd_session i (\<lambda>s. s\<lparr>s_done := True\<rparr>) h1)"

definition Connect_snapshot :: "'st hub \<Rightarrow> nat \<Rightarrow> string \<Rightarrow> go_error + device_route list \<Rightarrow> 'st hub" where
  "Connect_snapshot h i rid listed =
     (case listed of
        Inl err \<Rightarrow> Connect_close h i
      | Inr routes \<Rightarrow> upd_session i (\<lambda>s. s\<lparr>s_started := True,
          s_send := zero_frame\<lparr>f_Type := TypeSnapshot, f_RequestID := rid, f_Routes := routes\<rparr> # s_send s\<rparr>) h)"

text \<open>The receiving goroutine of \<open>Connect\<close>.\<close>

definition Connect_recv :: "'st hub \<Rightarrow> nat \<Rightarrow> frame \<Rightarrow> time \<Rightarrow> 'st hub" where
  "Connect_recv h i f now =
     (if f_Type f = TypeAck then upd_session i (\<lambda>s. s\<lparr>s_acks := s_acks s @ [f]\<rparr>) h
      else if f_Type f = TypeHeartbeat then
        (case f_Heartbeat f of
           None \<Rightarrow> h
         | Some hb \<Rightarrow>
             let sid = s_id (h_all h ! i); hb' = hb\<lparr>gi_ID := sid, gi_LastHeartbeatAt := now\<rparr>
             in (upd_session i (\<lambda>s. s\<lparr>s_ready := (gi_Status hb' = GatewayReady)\<rparr>) h)
                  \<lparr>h_gateways := gput sid hb' (h_gateways h)\<rparr>)
      else h)"

text \<open>The gateway takes the next frame off its stream, handles it and acknowledges it.\<close>

definition deliver :: "client_env \<Rightarrow> 'st hub \<Rightarrow> nat \<Rightarrow> time \<Rightarrow> 'st hub" where
  "deliver e h i now =
     (case s_send (h_all h ! i) of
        [] \<Rightarrow> h
      | f # rest \<Rightarrow>
          (case client_recv e (s_peer (h_all h ! i)) f of
             (c, ack) \<Rightarrow> Connect_recv (upd_session i (\<lambda>s. s\<lparr>s_send := rest, s_peer := c\<rparr>) h) i ack now))"

definition readySessions :: "'st hub \<Rightarrow> nat list" where
  "readySessions h = filter (\<lambda>i. s_ready (h_all h ! i)) (map snd (h_sessions h))"

section \<open>Broadcasting\<close>

definition recordDeployment :: "'st hub \<Rightarrow> frame \<Rightarrow> string \<Rightarrow> bool \<Rightarrow> string \<Rightarrow> 'st hub" where
  "recordDeployment h f gatewayID success message =
     (case f_Route f of
        None \<Rightarrow> h
      | Some r \<Rightarrow>
          if f_Type f \<noteq> TypePrepare \<and> f_Type f \<noteq> TypeActivate then h
          else h\<lparr>h_log := h_log h @ [(r_DeviceID r, r_Version r, gatewayID, f_Type f, success, message)]\<rparr>)"

definition enqueue :: "frame \<Rightarrow> nat \<Rightarrow> 'st hub \<Rightarrow> 'st hub" where
  "enqueue f i h = upd_session i (\<lambda>s. s\<lparr>s_send := s_send s @ [f]\<rparr>) h"

text \<open>
  One round of the waiting loop of \<open>broadcastAndWait\<close> for one session: what the \<open>select\<close> saw, and whether
  the loop goes round again, goes to the next session or returns an error.
\<close>

datatype wait_event = GotAck frame | DeadlineFired | CtxDone go_error | SessionDone

datatype verdict = Again | Next | Fail go_error

definition wait_verdict :: "frame \<Rightarrow> string \<Rightarrow> wait_event \<Rightarrow> verdict" where
  "wait_verdict f sid ev =
     (case ev of
        GotAck ack \<Rightarrow>
          if f_RequestID ack \<noteq> f_RequestID f then Again
          else if f_Error ack \<noteq> [] then Fail (ErrMsg (''gateway '' @ sid @ '': '' @ f_Error ack))
          else Next
      | DeadlineFired \<Rightarrow> Fail (ErrMsg (''gateway '' @ sid @ '' acknowledgement timeout''))
      | CtxDone err \<Rightarrow> Fail err
      | SessionDone \<Rightarrow> Fail (ErrMsg (''gateway '' @ sid @ '' disconnected'')))"

definition wait_record :: "'st hub \<Rightarrow> frame \<Rightarrow> string \<Rightarrow> wait_event \<Rightarrow> 'st hub" where
  "wait_record h f sid ev =
     (case ev of
        GotAck ack \<Rightarrow>
          if f_RequestID ack \<noteq> f_RequestID f then h
          else if f_Error ack \<noteq> [] then recordDeployment h f sid False (f_Error ack)
          else recordDeployment h f sid True []
      | DeadlineFired \<Rightarrow> recordDeployment h f sid False ''acknowledgement timeout''
      | CtxDone err \<Rightarrow> h
      | SessionDone \<Rightarrow> recordDeployment h f sid False ''gateway disconnected'')"

section \<open>Deployments\<close>

definition phase_frame :: "'st deployment \<Rightarrow> phase \<Rightarrow> frame" where
  "phase_frame d ph = (case ph of PhasePrepare \<Rightarrow> dp_prepare d | PhaseFinish \<Rightarrow> dp_finish d)"

text \<open>What the caller of a broadcast does with its error.\<close>

definition phase_error :: "'st deployment \<Rightarrow> phase \<Rightarrow> go_error \<Rightarrow> go_error" where
  "phase_error d ph err = (case ph of PhasePrepare \<Rightarrow> ErrWrap (''prepare '' @ dp_what d) err | PhaseFinish \<Rightarrow> err)"

definition begin_phase :: "'st deployment \<Rightarrow> phase \<Rightarrow> deploy_pc" where
  "begin_phase d ph =
     (if dp_sessions d = [] then Returned (Some (phase_error d ph (ErrMsg ''no ready gateways connected'')))
      else Sending ph (dp_sessions d))"

definition after_send :: "'st deployment \<Rightarrow> phase \<Rightarrow> nat list \<Rightarrow> deploy_pc" where
  "after_send d ph rest = (if rest = [] then Waiting ph (dp_sessions d) else Sending ph rest)"

definition after_wait :: "phase \<Rightarrow> nat list \<Rightarrow> deploy_pc" where
  "after_wait ph rest =
     (if rest \<noteq> [] then Waiting ph rest
      else case ph of PhasePrepare \<Rightarrow> Committing | PhaseFinish \<Rightarrow> Returned None)"

definition start_deployment ::
    "'st hub \<Rightarrow> string \<Rightarrow> frame \<Rightarrow> frame \<Rightarrow> ('st \<Rightarrow> 'st \<times> go_error option) \<Rightarrow> 'st hub" where
  "start_deployment h what prep fin commit =
     (let d = \<lparr>dp_what = what, dp_prepare = prep, dp_finish = fin, dp_commit = commit,
               dp_sessions = readySessions h, dp_committed = False, dp_pc = Committing\<rparr>
      in h\<lparr>h_deploy := Some (d\<lparr>dp_pc :=
            if dp_sessions d = [] then Returned (Some (ErrMsg ''no ready gateways connected''))
            else begin_phase d PhasePrepare\<rparr>)\<rparr>)"

definition route_frame :: "string \<Rightarrow> string \<Rightarrow> device_route \<Rightarrow> frame" where
  "route_frame ty rid r = zero_frame\<lparr>f_Type := ty, f_RequestID := rid, f_Route := Some r\<rparr>"

definition device_frame :: "string \<Rightarrow> string \<Rightarrow> device \<Rightarrow> frame" where
  "device_frame ty rid d = zero_frame\<lparr>f_Type := ty, f_RequestID := rid, f_Device := Some d\<rparr>"

definition DeployRoute :: "'st hub \<Rightarrow> string \<Rightarrow> device_route \<Rightarrow> ('st \<Rightarrow> 'st \<times> go_error option) \<Rightarrow> 'st hub" where
  "DeployRoute h rid r commit =
     start_deployment h ''route'' (route_frame TypePrepare rid r) (route_frame TypeActivate rid r) commit"

definition DeployDevice :: "'st hub \<Rightarrow> string \<Rightarrow> device \<Rightarrow> ('st \<Rightarrow> 'st \<times> go_error option) \<Rightarrow> 'st hub" where
  "DeployDevice h rid d commit =
     start_deployment h ''device ingress'' (device_frame TypeDevicePrepare rid d) (device_frame TypeDeviceUpdate rid d) commit"

definition set_pc :: "deploy_pc \<Rightarrow> 'st deployment \<Rightarrow> 'st hub \<Rightarrow> 'st hub" where
  "set_pc pc d h = h\<lparr>h_deploy := Some (d\<lparr>dp_pc := pc\<rparr>)\<rparr>"

text \<open>The sending loop: the next session gets the frame, or the request is cancelled.\<close>

definition send_next :: "'st hub \<Rightarrow> 'st deployment \<Rightarrow> phase \<Rightarrow> nat \<Rightarrow> nat list \<Rightarrow> 'st hub" where
  "send_next h d ph i rest = set_pc (after_send d ph rest) d (enqueue (phase_frame d ph) i h)"

definition send_cancelled :: "'st hub \<Rightarrow> 'st deployment \<Rightarrow> phase \<Rightarrow> go_error \<Rightarrow> 'st hub" where
  "send_cancelled h d ph err = set_pc (Returned (Some (phase_error d ph err))) d h"

text \<open>The waiting loop. An acknowledgement is taken off the head of the session's queue.\<close>

definition take_event :: "nat \<Rightarrow> wait_event \<Rightarrow> 'st hub \<Rightarrow> 'st hub" where
  "take_event i ev h =
     (case ev of GotAck _ \<Rightarrow> upd_session i (\<lambda>s. s\<lparr>s_acks := tl (s_acks s)\<rparr>) h | _ \<Rightarrow> h)"

definition wait_next :: "'st hub \<Rightarrow> 'st deployment \<Rightarrow> phase \<Rightarrow> nat \<Rightarrow> nat list \<Rightarrow> wait_event \<Rightarrow> 'st hub" where
  "wait_next h d ph i rest ev =
     (let f = phase_frame d ph; sid = s_id (h_all h ! i);
          h1 = wait_record (take_event i ev h) f sid ev
      in set_pc (case wait_verdict f sid ev of
                   Again \<Rightarrow> Waiting ph (i # rest)
                 | Next \<Rightarrow> after_wait ph rest
                 | Fail err \<Rightarrow> Returned (Some (phase_error d ph err))) d h1)"

definition run_commit :: "'st hub \<Rightarrow> 'st deployment \<Rightarrow> 'st hub" where
  "run_commit h d =
     (case dp_commit d (h_store h) of
        (st, Some err) \<Rightarrow> set_pc (Returned (Some (ErrWrap (''commit '' @ dp_what d) err))) d (h\<lparr>h_store := st\<rparr>)
      | (st, None) \<Rightarrow> set_pc (begin_phase d PhaseFinish) (d\<lparr>dp_committed := True\<rparr>) (h\<lparr>h_store := st\<rparr>))"

section \<open>Other requests\<close>

text \<open>
  \<open>Interrupt\<close> and \<open>SetDraining\<close> broadcast without \<open>deployMu\<close>, so their frames and the acknowledgements they
  take off a session's queue interleave with a deployment.
\<close>

definition Hub_Interrupt_frame :: "string \<Rightarrow> string \<Rightarrow> frame" where
  "Hub_Interrupt_frame rid deviceID = zero_frame\<lparr>f_Type := TypeInterrupt, f_RequestID := rid, f_DeviceID := deviceID\<rparr>"

definition Hub_SetDraining_target :: "'st hub \<Rightarrow> string \<Rightarrow> go_error + nat" where
  "Hub_SetDraining_target h gatewayID =
     (case gget (h_sessions h) gatewayID of None \<Rightarrow> Inl ErrNotFound | Some i \<Rightarrow> Inr i)"

definition Hub_SetDraining_frame :: "string \<Rightarrow> bool \<Rightarrow> frame" where
  "Hub_SetDraining_frame rid draining =
     zero_frame\<lparr>f_Type := TypeSetDraining, f_RequestID := rid, f_DeviceID := sprint_bool draining\<rparr>"

definition Hub_SetDraining_finish :: "'st hub \<Rightarrow> nat \<Rightarrow> 'st hub" where
  "Hub_SetDraining_finish h i = upd_session i (\<lambda>s. s\<lparr>s_ready := False\<rparr>) h"

section \<open>The interleaved system\<close>

definition running :: "'st hub \<Rightarrow> bool" where
  "running h \<longleftrightarrow> (\<exists>d. h_deploy h = Some d \<and> (\<nexists>r. dp_pc d = Returned r))"

text \<open>
  Request ids are timestamps in nanoseconds; the model takes them to be distinct from those still under
  way. A gateway that fails to handle a frame says so: its error has a text.
\<close>

definition fresh_id :: "'st hub \<Rightarrow> string \<Rightarrow> bool" where
  "fresh_id h rid \<longleftrightarrow> (\<forall>s \<in> set (h_all h). \<forall>f \<in> set (s_send s) \<union> set (s_acks s). f_RequestID f \<noteq> rid)"

definition other_id :: "'st hub \<Rightarrow> string \<Rightarrow> bool" where
  "other_id h rid \<longleftrightarrow> (\<forall>d. h_deploy h = Some d \<longrightarrow> f_RequestID (dp_prepare d) \<noteq> rid)"

definition errors_have_text :: "client_env \<Rightarrow> control_client \<Rightarrow> frame \<Rightarrow> bool" where
  "errors_have_text e c f \<longleftrightarrow> (\<forall>err. snd (handle e c f) = Some err \<longrightarrow> error_text err \<noteq> [])"

definition event_possible :: "session \<Rightarrow> wait_event \<Rightarrow> bool" where
  "event_possible s ev \<longleftrightarrow>
     (case ev of GotAck a \<Rightarrow> s_acks s \<noteq> [] \<and> hd (s_acks s) = a | SessionDone \<Rightarrow> s_done s | _ \<Rightarrow> True)"

definition live :: "'st hub \<Rightarrow> nat \<Rightarrow> bool" where
  "live h i \<longleftrightarrow> i < length (h_all h) \<and> s_started (h_all h ! i) \<and> \<not> s_done (h_all h ! i)"

inductive hub_step :: "disk_env \<Rightarrow> 'st hub \<Rightarrow> 'st hub \<Rightarrow> bool" for k where
  register: "Connect_register h f peer = Inr h' \<Longrightarrow> client_ok k peer \<Longrightarrow> hub_step k h h'"
| snapshot: "i < length (h_all h) \<Longrightarrow> \<not> s_started (h_all h ! i) \<Longrightarrow> other_id h rid \<Longrightarrow>
    hub_step k h (Connect_snapshot h i rid listed)"
| close: "i < length (h_all h) \<Longrightarrow> hub_step k h (Connect_close h i)"
| heartbeat: "live h i \<Longrightarrow> hub_step k h (Connect_recv h i (heartbeat_frame (s_peer (h_all h ! i)) t) now)"
| handle_frame: "live h i \<Longrightarrow> s_send (h_all h ! i) = f # rest \<Longrightarrow>
    errors_have_text e (s_peer (h_all h ! i)) f \<Longrightarrow> disk_ok (ce_disk e) \<Longrightarrow> same_codec (ce_disk e) k \<Longrightarrow>
    hub_step k h (deliver e h i now)"
| peer_background: "i < length (h_all h) \<Longrightarrow> same_listening (cc_Gateway (s_peer (h_all h ! i))) g' \<Longrightarrow>
    hub_step k h (upd_session i (\<lambda>s. s\<lparr>s_peer := (s_peer s)\<lparr>cc_Gateway := g'\<rparr>\<rparr>) h)"
| interrupt_send: "i < length (h_all h) \<Longrightarrow> other_id h rid \<Longrightarrow>
    hub_step k h (enqueue (Hub_Interrupt_frame rid did) i h)"
| draining_send: "i < length (h_all h) \<Longrightarrow> other_id h rid \<Longrightarrow>
    hub_step k h (enqueue (Hub_SetDraining_frame rid b) i h)"
| draining_finish: "hub_step k h (Hub_SetDraining_finish h i)"
| other_ack: "s_acks (h_all h ! i) = a # rest \<Longrightarrow> hub_step k h (take_event i (GotAck a) h)"
| deploy_route: "\<not> running h \<Longrightarrow> fresh_id h rid \<Longrightarrow> hub_step k h (DeployRoute h rid r commit)"
| deploy_device: "\<not> running h \<Longrightarrow> fresh_id h rid \<Longrightarrow> hub_step k h (DeployDevice h rid dv commit)"
| send: "h_deploy h = Some d \<Longrightarrow> dp_pc d = Sending ph (i # rest) \<Longrightarrow> hub_step k h (send_next h d ph i rest)"
| send_cancel: "h_deploy h = Some d \<Longrightarrow> dp_pc d = Sending ph todo \<Longrightarrow> hub_step k h (send_cancelled h d ph err)"
| wait: "h_deploy h = Some d \<Longrightarrow> dp_pc d = Waiting ph (i # rest) \<Longrightarrow> event_possible (h_all h ! i) ev \<Longrightarrow>
    hub_step k h (wait_next h d ph i rest ev)"
| commit: "h_deploy h = Some d \<Longrightarrow> dp_pc d = Committing \<Longrightarrow> hub_step k h (run_commit h d)"

lemmas hub_defs = upd_session_def enqueue_def set_pc_def send_next_def send_cancelled_def take_event_def

subsection \<open>Bookkeeping of sessions\<close>

definition hub_wf :: "disk_env \<Rightarrow> 'st hub \<Rightarrow> bool" where
  "hub_wf k h \<longleftrightarrow> gwf (h_sessions h)
     \<and> (\<forall>gid i. gget (h_sessions h) gid = Some i \<longrightarrow> i < length (h_all h) \<and> s_id (h_all h ! i) = gid)
     \<and> (\<forall>s \<in> set (h_all h). (s_ready s \<longrightarrow> s_started s) \<and> client_ok k (s_peer s))"

lemma upd_session_nth:
  "i < length (h_all h) \<Longrightarrow> h_all (upd_session j f h) ! i = (if i = j then f (h_all h ! i) else h_all h ! i)"
  by (simp add: upd_session_def nth_list_update)

lemma upd_session_keeps [simp]:
  "length (h_all (upd_session j f h)) = length (h_all h)" "h_sessions (upd_session j f h) = h_sessions h"
  "h_deploy (upd_session j f h) = h_deploy h" "h_store (upd_session j f h) = h_store h"
  "h_log (upd_session j f h) = h_log h"
  by (simp_all add: upd_session_def)

lemma hub_wf_upd:
  assumes "hub_wf k h"
    and "\<And>s. i < length (h_all h) \<Longrightarrow> s = h_all h ! i \<Longrightarrow> s_id (f s) = s_id s \<and> (s_ready (f s) \<longrightarrow> s_started (f s)) \<and> client_ok k (s_peer (f s))"
  shows "hub_wf k (upd_session i f h)"
proof (cases "i < length (h_all h)")
  case True
  show ?thesis
    using assms(1) assms(2) [OF True refl] True
    by (auto simp: hub_wf_def upd_session_def nth_list_update dest: set_update_subset_insert [THEN subsetD])
next
  case False
  then show ?thesis using assms(1) by (simp add: upd_session_def)
qed

lemma hub_wfD:
  "hub_wf k h \<Longrightarrow> i < length (h_all h) \<Longrightarrow> s_ready (h_all h ! i) \<longrightarrow> s_started (h_all h ! i)"
  "hub_wf k h \<Longrightarrow> i < length (h_all h) \<Longrightarrow> client_ok k (s_peer (h_all h ! i))"
  by (simp_all add: hub_wf_def)

text \<open>An update that leaves the identity and the gateway of the session alone.\<close>

lemma hub_wf_upd_keep:
  assumes "hub_wf k h"
    and "\<And>s. s_id (f s) = s_id s \<and> s_peer (f s) = s_peer s \<and> (s_ready (f s) \<longrightarrow> s_ready s) \<and> (s_started s \<longrightarrow> s_started (f s))"
  shows "hub_wf k (upd_session i f h)"
  by (rule hub_wf_upd [OF assms(1)]) (use assms(2) hub_wfD [OF assms(1)] in auto)

lemma upd_session_comp: "upd_session i f (upd_session i g h) = upd_session i (\<lambda>s. f (g s)) h"
  by (simp add: upd_session_def)

text \<open>Handling a frame, seen from the session it arrives on.\<close>

definition recv_session :: "client_env \<Rightarrow> session \<Rightarrow> session" where
  "recv_session e s =
     (case s_send s of
        [] \<Rightarrow> s
      | f # rest \<Rightarrow>
          s\<lparr>s_send := rest, s_peer := fst (client_recv e (s_peer s) f),
            s_acks := s_acks s @ [snd (client_recv e (s_peer s) f)]\<rparr>)"

lemma ack_type: "f_Type (snd (client_recv e c f)) = TypeAck"
  by (simp add: client_recv_def ack_for_def split: prod.splits)

lemma ack_request: "f_RequestID (snd (client_recv e c f)) = f_RequestID f"
  by (simp add: client_recv_def ack_for_def split: prod.splits)

lemma ack_error:
  assumes "errors_have_text e c f"
  shows "f_Error (snd (client_recv e c f)) = [] \<longleftrightarrow> snd (handle e c f) = None"
  using assms by (auto simp: client_recv_def ack_for_def errors_have_text_def split: prod.splits option.splits)

lemma recv_peer: "fst (client_recv e c f) = fst (handle e c f)"
  by (simp add: client_recv_def split: prod.splits)

lemma deliver_upd:
  assumes "i < length (h_all h)"
  shows "deliver e h i now = upd_session i (recv_session e) h"
proof (cases "s_send (h_all h ! i)")
  case Nil
  then show ?thesis using assms by (simp add: deliver_def upd_session_def recv_session_def)
next
  case (Cons f rest)
  obtain c ack where r: "client_recv e (s_peer (h_all h ! i)) f = (c, ack)" by fastforce
  have "f_Type ack = TypeAck" using ack_type [of e "s_peer (h_all h ! i)" f] r by simp
  then show ?thesis using assms Cons r
    by (simp add: deliver_def Connect_recv_def upd_session_comp) (simp add: upd_session_def recv_session_def)
qed

text \<open>The log, the program counter and the store are not part of any session.\<close>

definition same_sessions :: "'st hub \<Rightarrow> 'st hub \<Rightarrow> bool" where
  "same_sessions h h' \<longleftrightarrow> h_all h' = h_all h \<and> h_sessions h' = h_sessions h"

lemma same_sessions_simps [simp]:
  "same_sessions h (recordDeployment h f g b m)" "same_sessions h (wait_record h f sid ev)"
  "same_sessions h (set_pc pc d h)" "same_sessions h (start_deployment h what p fi c)"
  "same_sessions h (run_commit h d)" "same_sessions h (send_cancelled h d ph err)"
  by (auto simp: same_sessions_def recordDeployment_def wait_record_def set_pc_def start_deployment_def
      run_commit_def send_cancelled_def Let_def split: option.splits wait_event.splits prod.splits)

lemma same_sessions_trans: "same_sessions h h' \<Longrightarrow> same_sessions h' h'' \<Longrightarrow> same_sessions h h''"
  by (simp add: same_sessions_def)

lemma hub_wf_same: "same_sessions h h' \<Longrightarrow> hub_wf k h' = hub_wf k h"
  by (simp add: hub_wf_def same_sessions_def)

lemma wait_next_sessions: "same_sessions (take_event i ev h) (wait_next h d ph i rest ev)"
  unfolding wait_next_def Let_def by (rule same_sessions_trans [OF same_sessions_simps(2,3)])

lemma send_next_sessions: "same_sessions (enqueue (phase_frame d ph) i h) (send_next h d ph i rest)"
  by (simp add: send_next_def)

lemma recv_session_Cons:
  assumes "s_send s = f # rest"
  shows "s_send (recv_session e s) = rest" "s_peer (recv_session e s) = fst (handle e (s_peer s) f)"
    "s_acks (recv_session e s) = s_acks s @ [snd (client_recv e (s_peer s) f)]"
    "s_id (recv_session e s) = s_id s" "s_ready (recv_session e s) = s_ready s"
    "s_started (recv_session e s) = s_started s" "s_done (recv_session e s) = s_done s"
  using assms by (simp_all add: recv_session_def recv_peer)

lemma client_ok_background:
  "client_ok k c \<Longrightarrow> same_listening (cc_Gateway c) g' \<Longrightarrow> client_ok k (c\<lparr>cc_Gateway := g'\<rparr>)"
  by (rule client_inv.inv_step) (auto intro: client_step.background)

lemma hub_wf_forget: "hub_wf k h \<Longrightarrow> hub_wf k (h\<lparr>h_sessions := gdel gid (h_sessions h)\<rparr>)"
  by (simp add: hub_wf_def)

lemma hub_wf_close: "hub_wf k h \<Longrightarrow> hub_wf k (Connect_close h i)"
  by (simp add: Connect_close_def Let_def hub_wf_upd_keep hub_wf_forget)

lemma hub_wf_take: "hub_wf k h \<Longrightarrow> hub_wf k (take_event i ev h)"
  unfolding take_event_def by (cases ev) (simp_all add: hub_wf_upd_keep)

lemma hub_wf_enqueue: "hub_wf k h \<Longrightarrow> hub_wf k (enqueue f i h)"
  unfolding enqueue_def by (rule hub_wf_upd_keep) simp_all

lemma hub_wf_register:
  assumes "hub_wf k h" and "Connect_register h f peer = Inr h'" and "client_ok k peer"
  shows "hub_wf k h'"
  using assms by (auto simp: Connect_register_def hub_wf_def nth_append less_Suc_eq split: if_splits)

lemma hub_wf_step:
  assumes wf: "hub_wf k h" and "hub_step k h h'"
  shows "hub_wf k h'"
  using assms(2)
proof cases
  case (register f peer)
  then show ?thesis using hub_wf_register [OF wf] by blast
next
  case (snapshot i rid listed)
  then show ?thesis using hub_wf_close [OF wf]
    by (cases listed) (simp_all add: Connect_snapshot_def hub_wf_upd_keep wf)
next
  case (close i)
  then show ?thesis using hub_wf_close [OF wf] by blast
next
  case (heartbeat i t now)
  have "hub_wf k (upd_session i (\<lambda>s. s\<lparr>s_ready := b\<rparr>) h)" for b
    by (rule hub_wf_upd [OF wf]) (use heartbeat hub_wfD [OF wf] in \<open>auto simp: live_def\<close>)
  then show ?thesis using heartbeat(1)
    by (simp add: Connect_recv_def Let_def heartbeat_frame_def type_defs hub_wf_def)
next
  case (handle_frame i f rest e now)
  then have i: "i < length (h_all h)" by (simp add: live_def)
  have ok: "client_ok k (fst (handle e (s_peer (h_all h ! i)) f))"
    using handle_ok [OF hub_wfD(2) [OF wf i] _ handle_frame(5,6)] by (metis prod.collapse)
  show ?thesis unfolding handle_frame(1) deliver_upd [OF i]
    by (rule hub_wf_upd [OF wf]) (use ok recv_session_Cons [OF handle_frame(3)] hub_wfD(1) [OF wf i] in simp)
next
  case (peer_background i g')
  show ?thesis unfolding peer_background(1)
    by (rule hub_wf_upd [OF wf])
      (use client_ok_background [OF hub_wfD(2) [OF wf]] peer_background hub_wfD(1) [OF wf] in simp)
next
  case (draining_finish i)
  then show ?thesis by (simp add: Hub_SetDraining_finish_def hub_wf_upd_keep wf)
next
  case (send d ph i rest)
  then show ?thesis using hub_wf_same [OF send_next_sessions] hub_wf_enqueue [OF wf] by blast
next
  case (wait d ph i rest ev)
  then show ?thesis using hub_wf_same [OF wait_next_sessions] hub_wf_take [OF wf] by blast
next
  case (deploy_route rid r commit)
  then show ?thesis using wf hub_wf_same [OF same_sessions_simps(4)] unfolding DeployRoute_def by blast
next
  case (deploy_device rid dv commit)
  then show ?thesis using wf hub_wf_same [OF same_sessions_simps(4)] unfolding DeployDevice_def by blast
next
  case (send_cancel d ph todo err)
  then show ?thesis using wf hub_wf_same [OF same_sessions_simps(6)] by blast
next
  case (commit d)
  then show ?thesis using wf hub_wf_same [OF same_sessions_simps(5)] by blast
qed (use hub_wf_take [OF wf] hub_wf_enqueue [OF wf] in blast)+

end
