(* ===== verification/PM_Api.thy ===== *)
theory PM_Api
  imports PM_Memory PM_Ssconfig PM_Hub
begin

text \<open>
  The HTTP API of the control plane, \<open>internal/control/api.go\<close>. A handler that deploys to the gateways is three definitions: what it does
  before it calls the hub, the closure the hub runs as its commit, and what it does with the result; the hub interleaves with everything else in
  between. A request is what \<open>decode\<close> made of the body, or its error. \<open>pe k\<close> is the environment of the \<open>k\<close>-th call of the store in a
  handler. Answers are a status with a JSON value, or no body.
\<close>

section \<open>Answers\<close>

record response =
  status :: int
  body :: "json option"

definition writeJSON :: "int \<Rightarrow> json \<Rightarrow> response" where
  "writeJSON st v = \<lparr>status = st, body = Some v\<rparr>"

definition NoContent :: response where
  "NoContent = \<lparr>status = 204, body = None\<rparr>"

definition writeError :: "int \<Rightarrow> string \<Rightarrow> response" where
  "writeError st msg = writeJSON st (JObj [(''error'', JStr msg)])"

definition writeStoreError :: "go_error \<Rightarrow> response" where
  "writeStoreError err =
     (if errors_is err ErrNotFound then writeError 404 ''not found''
      else if errors_is err ErrConflict then writeError 409 ''version conflict''
      else writeError 500 ''storage operation failed'')"

definition json_time :: "time option \<Rightarrow> json" where
  "json_time t = (case t of None \<Rightarrow> JNull | Some v \<Rightarrow> JTime v)"

text \<open>The only empty metadata are a nil map.\<close>

definition json_strings :: "(string, string) gomap \<Rightarrow> json" where
  "json_strings m = (if m = [] then JNull else JObj (map (\<lambda>(k, v). (k, JStr v)) m))"

definition sanitizeRoute :: "device_route \<Rightarrow> json" where
  "sanitizeRoute r = JObj [(''deviceId'', JStr (r_DeviceID r)), (''version'', JInt (r_Version r)), (''status'', JStr (r_Status r)),
     (''providerId'', JStr (pc_ProviderID (r_Credential r))), (''host'', JStr (pc_Host (r_Credential r))),
     (''port'', JInt (pc_Port (r_Credential r))), (''username'', JStr (pc_Username (r_Credential r))),
     (''location'', json_strings (pc_GenerationMetadata (r_Credential r))),
     (''expiresAt'', json_time (pc_ExpiresAt (r_Credential r))), (''updatedAt'', JTime (r_UpdatedAt r))]"

definition sanitizeProvider :: "provider_definition \<Rightarrow> json" where
  "sanitizeProvider d = JObj [(''id'', JStr (pd_ID d)), (''enabled'', JBool (pd_Enabled d)), (''weight'', JInt (pd_Weight d)),
     (''config'', JConfig (pd_Config d)), (''secretKeys'', JList (map JStr (sort (map fst (pd_Secrets d)))))]"

definition sanitizeIngresses :: "device \<Rightarrow> json" where
  "sanitizeIngresses d = JList (map (\<lambda>i. JObj [(''listenPort'', JInt (di_Port i)), (''method'', JStr (di_Method i)),
     (''primary'', JBool (di_Primary i)), (''createdAt'', JTime (di_CreatedAt i))]) (Device_EffectiveIngresses d))"

definition singBoxOutbound :: "string \<Rightarrow> int \<Rightarrow> string \<Rightarrow> string \<Rightarrow> json" where
  "singBoxOutbound host port method password = JObj [(''type'', JStr ''shadowsocks''), (''tag'', JStr ''ss-out''),
     (''server'', JStr host), (''server_port'', JInt port), (''method'', JStr method), (''password'', JStr password),
     (''multiplex'', JObj [(''enabled'', JBool False), (''padding'', JBool True)])]"

section \<open>The API and its guard\<close>

record api =
  api_adminToken :: string
  api_publicHost :: string
  api_ingressPortStart :: int
  api_ingressPortEnd :: int

definition NewAPI :: "string \<Rightarrow> string \<Rightarrow> api" where
  "NewAPI adminToken publicHost = \<lparr>api_adminToken = adminToken, api_publicHost = publicHost,
     api_ingressPortStart = 50000, api_ingressPortEnd = 59999\<rparr>"

definition SetIngressPortRange :: "api \<Rightarrow> int \<Rightarrow> int \<Rightarrow> api" where
  "SetIngressPortRange a start end' =
     (if start \<ge> 1024 \<and> end' \<ge> start \<and> end' \<le> 65535 then a\<lparr>api_ingressPortStart := start, api_ingressPortEnd := end'\<rparr> else a)"

definition TrimPrefix :: "string \<Rightarrow> string \<Rightarrow> string" where
  "TrimPrefix s p = (if prefix p s then drop (length p) s else s)"

text \<open>\<open>auth\<close>: the answer that ends the request, or \<open>None\<close> when the next handler runs.\<close>

definition auth :: "api \<Rightarrow> string \<Rightarrow> string \<Rightarrow> response option" where
  "auth a path authorization =
     (if path = ''/live'' then None
      else let provided = TrimPrefix authorization ''Bearer '' in
           if api_adminToken a = [] \<or> bytes_of provided \<noteq> bytes_of (api_adminToken a)
           then Some (writeError 401 ''unauthorized'') else None)"

definition randomToken :: "byte list \<Rightarrow> string" where
  "randomToken b = RawURLEncoding_EncodeToString b"

definition audit :: "pg_env \<Rightarrow> db \<Rightarrow> string \<Rightarrow> string \<Rightarrow> (string \<times> json) list \<Rightarrow> db" where
  "audit e db action resource details = fst (AppendAudit e db ''api'' action resource details)"

definition parsePort :: "string \<Rightarrow> go_error + int" where
  "parsePort value =
     (case Atoi value of None \<Rightarrow> Inl (ErrMsg ''invalid port'')
      | Some port \<Rightarrow> if port < 1 \<or> port > 65535 then Inl (ErrMsg ''invalid port'') else Inr port)"

section \<open>Devices\<close>

record create_device_request =
  cd_ID :: string
  cd_ShadowsocksMethod :: string
  cd_ShadowsocksPassword :: string
  cd_ListenPort :: int

definition validDeviceID :: "string \<Rightarrow> bool" where
  "validDeviceID s = (case s of [] \<Rightarrow> False
     | c # cs \<Rightarrow> (is_lower_alnum c \<or> is_upper c) \<and> list_all is_name_char cs \<and> length cs \<le> 63)"

text \<open>
  What the handlers draw: \<open>randomInt\<close> of the \<open>k\<close>-th call, the bytes of \<open>randomToken\<close>, the reader of \<open>GeneratePassword\<close> and the clock; and the
  Shadowsocks library's check of a password.
\<close>

record api_env =
  ae_randomInt :: "nat \<Rightarrow> int \<Rightarrow> int"
  ae_token :: "byte list"
  ae_rand :: rand_read
  ae_now :: time
  ae_serverConfig :: server_config_fn

text \<open>The method and password of a request, or the answer that refuses them.\<close>

definition choose_credentials :: "api_env \<Rightarrow> string \<Rightarrow> string \<Rightarrow> response + string" where
  "choose_credentials ae method password =
     (case (if password = [] then GeneratePassword (ae_rand ae) method else Inr password) of
        Inl err \<Rightarrow> Inl (writeError 400 (error_text err))
      | Inr pw \<Rightarrow>
          (case SS_Validate (ae_serverConfig ae) method pw of
             Some err \<Rightarrow> Inl (writeError 400 (error_text err))
           | None \<Rightarrow> Inr pw))"

text \<open>The loop over attempts: \<open>n\<close> attempts are left, the next one is number \<open>k\<close>.\<close>

primrec create_attempts :: "api \<Rightarrow> api_env \<Rightarrow> (nat \<Rightarrow> pg_env) \<Rightarrow> nat \<Rightarrow> nat \<Rightarrow> db \<Rightarrow> device \<Rightarrow> go_error option \<Rightarrow> db \<times> device \<times> go_error option" where
  "create_attempts a ae pe 0 k db d err = (db, d, err)"
| "create_attempts a ae pe (Suc n) k db d err =
     (let d' = d\<lparr>d_IngressPort := api_ingressPortStart a
                    + ae_randomInt ae k (api_ingressPortEnd a - api_ingressPortStart a + 1)\<rparr> in
      case CreateDevice (pe k) db d' of
        (db', None) \<Rightarrow> (db', d', None)
      | (db', Some e) \<Rightarrow>
          if \<not> errors_is e ErrConflict then (db', d', Some e) else create_attempts a ae pe n (Suc k) db' d' (Some e))"

definition new_device :: "api_env \<Rightarrow> string \<Rightarrow> string \<Rightarrow> string \<Rightarrow> device" where
  "new_device ae did method password = zero_device\<lparr>d_ID := did, d_Username := did, d_IngressMethod := method,
     d_IngressPassword := password, d_Enabled := True, d_CreatedAt := ae_now ae, d_UpdatedAt := ae_now ae\<rparr>"

definition createDevice :: "api \<Rightarrow> api_env \<Rightarrow> (nat \<Rightarrow> pg_env) \<Rightarrow> db \<Rightarrow> go_error + create_device_request \<Rightarrow> db \<times> response" where
  "createDevice a ae pe db request =
     (case request of
        Inl err \<Rightarrow> (db, writeError 400 (error_text err))
      | Inr req \<Rightarrow>
          let did = (if cd_ID req = [] then ''device-'' @ randomToken (ae_token ae) else cd_ID req);
              method = (if cd_ShadowsocksMethod req = [] then LegacyAES256GCM else cd_ShadowsocksMethod req) in
          if \<not> validDeviceID did
          then (db, writeError 400 ''device id must be 1-64 letters, digits, dots, underscores or hyphens'')
          else case choose_credentials ae method (cd_ShadowsocksPassword req) of
            Inl resp \<Rightarrow> (db, resp)
          | Inr password \<Rightarrow>
              if cd_ListenPort req \<noteq> 0 \<and> (cd_ListenPort req < 1024 \<or> cd_ListenPort req > 65535)
              then (db, writeError 400 ''listenPort must be between 1024 and 65535'')
              else let d = new_device ae did method password in
                case (if cd_ListenPort req \<noteq> 0
                      then let d' = d\<lparr>d_IngressPort := cd_ListenPort req\<rparr>; (db', err) = CreateDevice (pe 0) db d' in (db', d', err)
                      else create_attempts a ae pe 64 0 db d None) of
                  (db', d', Some err) \<Rightarrow> (db', writeStoreError err)
                | (db', d', None) \<Rightarrow>
                    (audit (pe 64) db' ''device.create'' did [],
                     writeJSON 201 (JObj [(''deviceId'', JStr did), (''listenPort'', JInt (d_IngressPort d')), (''method'', JStr method),
                       (''password'', JStr password),
                       (''singBoxOutbound'', singBoxOutbound (api_publicHost a) (d_IngressPort d') method password)])))"

subsection \<open>Rotating a credential\<close>

definition rotate_proposal :: "device \<Rightarrow> string \<Rightarrow> device" where
  "rotate_proposal current password = current\<lparr>d_IngressPassword := password,
     d_Ingresses := map (\<lambda>i. if di_Primary i then i\<lparr>di_Password := password\<rparr> else i) (d_Ingresses current)\<rparr>"

definition rotate_begin :: "api_env \<Rightarrow> (nat \<Rightarrow> pg_env) \<Rightarrow> db \<Rightarrow> string \<Rightarrow> response + string \<times> device" where
  "rotate_begin ae pe db did =
     (case GetDevice (pe 0) db did of
        Inl err \<Rightarrow> Inl (writeStoreError err)
      | Inr current \<Rightarrow>
          (case GeneratePassword (ae_rand ae) (d_IngressMethod current) of
             Inl err \<Rightarrow> Inl (writeError 500 ''generate Shadowsocks credential failed'')
           | Inr password \<Rightarrow> Inr (password, rotate_proposal current password)))"

definition rotate_commit :: "pg_env \<Rightarrow> string \<Rightarrow> string \<Rightarrow> db \<Rightarrow> db \<times> go_error option" where
  "rotate_commit e did password db =
     (case UpdateDeviceCredential e db did password of (db', Inl err) \<Rightarrow> (db', Some err) | (db', Inr d) \<Rightarrow> (db', None))"

text \<open>\<open>d\<close> is the device that the commit read back.\<close>

definition rotate_finish :: "pg_env \<Rightarrow> db \<Rightarrow> string \<Rightarrow> string \<Rightarrow> device \<Rightarrow> go_error option \<Rightarrow> db \<times> response" where
  "rotate_finish e db did password d deployed =
     (case deployed of
        Some err \<Rightarrow> (db, writeError 503 (error_text err))
      | None \<Rightarrow> (audit e db ''device.credential.rotate'' did [],
                 writeJSON 200 (JObj [(''deviceId'', JStr did), (''listenPort'', JInt (d_IngressPort d)), (''method'', JStr (d_IngressMethod d)),
                   (''password'', JStr password)])))"

subsection \<open>Adding an ingress\<close>

record add_ingress_request =
  ar_Method :: string
  ar_Password :: string
  ar_ListenPort :: int

definition add_proposal :: "device \<Rightarrow> device_ingress \<Rightarrow> device" where
  "add_proposal current ingress = current\<lparr>d_Ingresses := Device_EffectiveIngresses current @ [ingress]\<rparr>"

definition add_begin ::
    "api \<Rightarrow> api_env \<Rightarrow> (nat \<Rightarrow> pg_env) \<Rightarrow> db \<Rightarrow> string \<Rightarrow> go_error + add_ingress_request \<Rightarrow> response + device_ingress \<times> device" where
  "add_begin a ae pe db did request =
     (case GetDevice (pe 0) db did of
        Inl err \<Rightarrow> Inl (writeStoreError err)
      | Inr current \<Rightarrow>
     (case request of
        Inl err \<Rightarrow> Inl (writeError 400 (error_text err))
      | Inr req \<Rightarrow>
          let method = (if ar_Method req = [] then Blake3AES128GCM else ar_Method req) in
          case choose_credentials ae method (ar_Password req) of
            Inl resp \<Rightarrow> Inl resp
          | Inr password \<Rightarrow>
              let port = (if ar_ListenPort req = 0
                          then api_ingressPortStart a + ae_randomInt ae 0 (api_ingressPortEnd a - api_ingressPortStart a + 1)
                          else ar_ListenPort req) in
              if port < 1024 \<or> port > 65535 then Inl (writeError 400 ''listenPort must be between 1024 and 65535'')
              else if list_ex (\<lambda>i. di_Port i = port) (Device_EffectiveIngresses current)
              then Inl (writeError 409 ''ingress port already belongs to this device'')
              else let ingress = \<lparr>di_Port = port, di_Method = method, di_Password = password, di_Primary = False, di_CreatedAt = ae_now ae\<rparr> in
                   Inr (ingress, add_proposal current ingress)))"

definition add_commit :: "pg_env \<Rightarrow> string \<Rightarrow> device_ingress \<Rightarrow> db \<Rightarrow> db \<times> go_error option" where
  "add_commit e did ingress db =
     (case AddDeviceIngress e db did ingress of (db', Inl err) \<Rightarrow> (db', Some err) | (db', Inr d) \<Rightarrow> (db', None))"

definition add_finish :: "api \<Rightarrow> pg_env \<Rightarrow> db \<Rightarrow> string \<Rightarrow> device_ingress \<Rightarrow> device \<Rightarrow> go_error option \<Rightarrow> db \<times> response" where
  "add_finish a e db did ingress updated deployed =
     (case deployed of
        Some err \<Rightarrow> (db, writeError 503 (error_text err))
      | None \<Rightarrow> (audit e db ''device.ingress.add'' did [(''port'', JInt (di_Port ingress)), (''method'', JStr (di_Method ingress))],
                 writeJSON 201 (JObj [(''deviceId'', JStr did), (''listenPort'', JInt (di_Port ingress)), (''method'', JStr (di_Method ingress)),
                   (''password'', JStr (di_Password ingress)), (''primary'', JBool False),
                   (''singBoxOutbound'', singBoxOutbound (api_publicHost a) (di_Port ingress) (di_Method ingress) (di_Password ingress)),
                   (''ingresses'', sanitizeIngresses updated)])))"

subsection \<open>Deleting an ingress\<close>

definition delete_begin :: "(nat \<Rightarrow> pg_env) \<Rightarrow> db \<Rightarrow> string \<Rightarrow> string \<Rightarrow> response + int \<times> device" where
  "delete_begin pe db did port_text =
     (case parsePort port_text of
        Inl err \<Rightarrow> Inl (writeError 400 ''invalid ingress port'')
      | Inr port \<Rightarrow>
     (case GetDevice (pe 0) db did of
        Inl err \<Rightarrow> Inl (writeStoreError err)
      | Inr current \<Rightarrow>
          let ingresses = Device_EffectiveIngresses current in
          if length ingresses \<le> 1 then Inl (writeError 409 ''cannot delete the last device ingress'')
          else if \<not> list_ex (\<lambda>i. di_Port i = port) ingresses then Inl (writeError 404 ''ingress not found'')
          else Inr (port, remove_ingress port current)))"

definition delete_commit :: "pg_env \<Rightarrow> string \<Rightarrow> int \<Rightarrow> db \<Rightarrow> db \<times> go_error option" where
  "delete_commit e did port db =
     (case DeleteDeviceIngress e db did port of (db', Inl err) \<Rightarrow> (db', Some err) | (db', Inr d) \<Rightarrow> (db', None))"

definition delete_finish :: "pg_env \<Rightarrow> db \<Rightarrow> string \<Rightarrow> int \<Rightarrow> go_error option \<Rightarrow> db \<times> response" where
  "delete_finish e db did port deployed =
     (case deployed of
        Some err \<Rightarrow> (db, writeError 503 (error_text err))
      | None \<Rightarrow> (audit e db ''device.ingress.delete'' did [(''port'', JInt port)], NoContent))"

section \<open>Routes\<close>

record put_route_request =
  rq_Host :: string
  rq_Port :: int
  rq_Username :: string
  rq_Password :: string
  rq_ExpiresAt :: "time option"
  rq_ExpectedVersion :: int

definition pending_route :: "api_env \<Rightarrow> string \<Rightarrow> device \<Rightarrow> int \<Rightarrow> proxy_credential \<Rightarrow> device_route" where
  "pending_route ae did d expected credential = zero_route\<lparr>r_DeviceID := did, r_DeviceUsername := d_Username d,
     r_IngressPort := d_IngressPort d, r_IngressMethod := d_IngressMethod d, r_IngressPassword := d_IngressPassword d,
     r_Ingresses := d_Ingresses d, r_Version := s64 (expected + 1), r_Status := RoutePending, r_UpdatedAt := ae_now ae,
     r_Credential := credential\<rparr>"

text \<open>\<open>deployRoute\<close> up to the call of the hub, its commit, and its answer.\<close>

definition deployRoute_begin :: "pg_env \<Rightarrow> db \<Rightarrow> device_route \<Rightarrow> int \<Rightarrow> db \<times> (response + device_route)" where
  "deployRoute_begin e db route expectedVersion =
     (case StageRoute e db route expectedVersion of
        (db', Some err) \<Rightarrow> (db', Inl (writeStoreError err))
      | (db', None) \<Rightarrow> (db', Inr route))"

definition deployRoute_commit :: "pg_env \<Rightarrow> device_route \<Rightarrow> db \<Rightarrow> db \<times> go_error option" where
  "deployRoute_commit e route db = ActivateRoute e db (r_DeviceID route) (r_Version route)"

definition deployRoute_finish :: "pg_env \<Rightarrow> db \<Rightarrow> device_route \<Rightarrow> go_error option \<Rightarrow> db \<times> response" where
  "deployRoute_finish e db route deployed =
     (case deployed of
        Some err \<Rightarrow> (db, writeError 503 (error_text err))
      | None \<Rightarrow>
          let route = route\<lparr>r_Status := RouteActive\<rparr> in
          (audit e db ''route.activate'' (r_DeviceID route) [(''version'', JInt (r_Version route)),
             (''providerId'', JStr (pc_ProviderID (r_Credential route))), (''proxyHost'', JStr (pc_Host (r_Credential route))),
             (''proxyPort'', JInt (pc_Port (r_Credential route)))],
           writeJSON 200 (sanitizeRoute route)))"

definition putRoute_begin ::
    "api_env \<Rightarrow> (nat \<Rightarrow> pg_env) \<Rightarrow> db \<Rightarrow> string \<Rightarrow> go_error + put_route_request \<Rightarrow> db \<times> (response + device_route)" where
  "putRoute_begin ae pe db did request =
     (case request of
        Inl err \<Rightarrow> (db, Inl (writeError 400 (error_text err)))
      | Inr req \<Rightarrow>
          if rq_Host req = [] \<or> rq_Port req < 1 \<or> rq_Port req > 65535 then (db, Inl (writeError 400 ''valid host and port are required''))
          else if rq_ExpectedVersion req < 0 then (db, Inl (writeError 400 ''expectedVersion must not be negative''))
          else case GetDevice (pe 0) db did of
            Inl err \<Rightarrow> (db, Inl (writeStoreError err))
          | Inr d \<Rightarrow>
              deployRoute_begin (pe 1) db
                (pending_route ae did d (rq_ExpectedVersion req)
                   (zero_credential\<lparr>pc_ID := ''proxy-'' @ randomToken (ae_token ae), pc_Host := rq_Host req, pc_Port := rq_Port req,
                      pc_Username := rq_Username req, pc_Password := rq_Password req, pc_ExpiresAt := rq_ExpiresAt req,
                      pc_CreatedAt := ae_now ae\<rparr>))
                (rq_ExpectedVersion req))"

section \<open>Providers\<close>

record put_provider_request =
  pp_Enabled :: bool
  pp_Weight :: int
  pp_Config :: provider_config
  pp_Secrets :: "(string, string) gomap"

definition putProvider :: "(nat \<Rightarrow> pg_env) \<Rightarrow> db \<Rightarrow> string \<Rightarrow> go_error + put_provider_request \<Rightarrow> db \<times> response" where
  "putProvider pe db pid request =
     (case request of
        Inl err \<Rightarrow> (db, writeError 400 (error_text err))
      | Inr req \<Rightarrow>
          let secrets = (if pp_Secrets req = []
                         then (case GetProvider (pe 0) db pid of Inl _ \<Rightarrow> pp_Secrets req | Inr current \<Rightarrow> pd_Secrets current)
                         else pp_Secrets req);
              d = \<lparr>pd_ID = pid, pd_Enabled = pp_Enabled req, pd_Weight = pp_Weight req, pd_Config = pp_Config req, pd_Secrets = secrets\<rparr> in
          case Provider_Validate d of
            Some err \<Rightarrow> (db, writeError 400 (error_text err))
          | None \<Rightarrow>
              (case UpsertProvider (pe 1) db d of
                 (db', Some err) \<Rightarrow> (db', writeStoreError err)
               | (db', None) \<Rightarrow>
                   (audit (pe 2) db' ''provider.upsert'' pid [(''enabled'', JBool (pd_Enabled d)), (''weight'', JInt (pd_Weight d))],
                    writeJSON 200 (sanitizeProvider d))))"

definition providers :: "pg_env \<Rightarrow> db \<Rightarrow> response" where
  "providers e db =
     (case ListProviders e db of
        Inl err \<Rightarrow> writeError 500 ''list providers failed''
      | Inr items \<Rightarrow> writeJSON 200 (JList (map sanitizeProvider items)))"

record provider_route_request =
  vq_ProviderID :: string
  vq_Country :: string
  vq_State :: string
  vq_City :: string
  vq_ExpectedVersion :: int

text \<open>The provider that a request names, or one chosen by weight.\<close>

definition choose_provider ::
    "rand_src \<Rightarrow> pg_env \<Rightarrow> db \<Rightarrow> string \<Rightarrow> (nat \<times> (response + provider_definition)) option" where
  "choose_provider src e db pid =
     (if pid \<noteq> []
      then Some (0, case GetProvider e db pid of Inl err \<Rightarrow> Inl (writeStoreError err) | Inr d \<Rightarrow> Inr d)
      else case ListProviders e db of
        Inl err \<Rightarrow> Some (0, Inl (writeError 500 ''list providers failed''))
      | Inr definitions \<Rightarrow>
          map_option (\<lambda>(i, r). (i, case r of Inl err \<Rightarrow> Inl (writeError 409 (error_text err)) | Inr d \<Rightarrow> Inr d))
            (SelectWeighted src 0 definitions))"

definition route_expiry :: "api_env \<Rightarrow> provider_config \<Rightarrow> time option" where
  "route_expiry ae c =
     (if cf_RouteTTLMinutes c > 0 then Some (ae_now ae + s64 (cf_RouteTTLMinutes c * (60 * 10 ^ 9))) else None)"

definition endpoint_credential :: "api_env \<Rightarrow> provider_definition \<Rightarrow> endpoint \<Rightarrow> proxy_credential" where
  "endpoint_credential ae d ep = zero_credential\<lparr>pc_ID := ''proxy-'' @ randomToken (ae_token ae), pc_Host := ep_Host ep,
     pc_Port := ep_Port ep, pc_Username := ep_Username ep, pc_Password := ep_Password ep,
     pc_ExpiresAt := route_expiry ae (pd_Config d), pc_CreatedAt := ae_now ae, pc_ProviderID := pd_ID d,
     pc_GenerationMetadata := [(''country'', ep_Country ep), (''state'', ep_State ep), (''city'', ep_City ep)]\<rparr>"

text \<open>\<open>None\<close> when the source of random numbers never delivers one that is accepted.\<close>

definition putRouteFromProvider_begin ::
    "(float64 \<Rightarrow> u64) \<Rightarrow> rand_src \<Rightarrow> api_env \<Rightarrow> (nat \<Rightarrow> pg_env) \<Rightarrow> db \<Rightarrow> string \<Rightarrow> go_error + provider_route_request
       \<Rightarrow> (db \<times> (response + device_route)) option" where
  "putRouteFromProvider_begin conv src ae pe db did request =
     (case request of
        Inl err \<Rightarrow> Some (db, Inl (writeError 400 (error_text err)))
      | Inr req \<Rightarrow>
     (case choose_provider src (pe 0) db (vq_ProviderID req) of
        None \<Rightarrow> None
      | Some (i, Inl resp) \<Rightarrow> Some (db, Inl resp)
      | Some (i, Inr definition) \<Rightarrow>
          if vq_ExpectedVersion req < 0 then Some (db, Inl (writeError 400 ''expectedVersion must not be negative''))
          else if \<not> pd_Enabled definition then Some (db, Inl (writeError 409 ''proxy provider is disabled''))
          else case Generate conv src i definition \<lparr>pq_Country = vq_Country req, pq_State = vq_State req, pq_City = vq_City req\<rparr> of
            None \<Rightarrow> None
          | Some (j, Inl err) \<Rightarrow> Some (db, Inl (writeError 400 (error_text err)))
          | Some (j, Inr endpoint) \<Rightarrow>
              (case GetDevice (pe 1) db did of
                 Inl err \<Rightarrow> Some (db, Inl (writeStoreError err))
               | Inr d \<Rightarrow>
                   Some (deployRoute_begin (pe 2) db
                     (pending_route ae (d_ID d) d (vq_ExpectedVersion req) (endpoint_credential ae definition endpoint))
                     (vq_ExpectedVersion req)))))"

section \<open>Status, gateways, connections\<close>

definition deviceStatus :: "(nat \<Rightarrow> pg_env) \<Rightarrow> db \<Rightarrow> string \<Rightarrow> response" where
  "deviceStatus pe db did =
     (case GetDevice (pe 0) db did of
        Inl err \<Rightarrow> writeStoreError err
      | Inr d \<Rightarrow>
          let base = [(''deviceId'', JStr (d_ID d)), (''username'', JStr (d_Username d)), (''enabled'', JBool (d_Enabled d)),
                      (''ingresses'', sanitizeIngresses d)] in
          (case GetRoute (pe 1) db did of
             Inl err \<Rightarrow> if errors_is err ErrNotFound then writeJSON 200 (JObj base) else writeStoreError err
           | Inr route \<Rightarrow> writeJSON 200 (JObj (base @ [(''route'', sanitizeRoute route)]))))"

definition gateway_json :: "gateway_info \<Rightarrow> json" where
  "gateway_json g = JObj ([(''id'', JStr (gi_ID g))] @ (if gi_Address g = [] then [] else [(''address'', JStr (gi_Address g))])
     @ [(''status'', JStr (gi_Status g)), (''appliedVersion'', JInt (gi_AppliedVersion g)),
        (''activeConnections'', JInt (gi_ActiveConnections g)), (''lastHeartbeatAt'', JTime (gi_LastHeartbeatAt g))])"

definition gateways :: "pg_env \<Rightarrow> db \<Rightarrow> response" where
  "gateways e db =
     (case ListGateways e db of
        Inl err \<Rightarrow> writeError 500 ''list gateways failed''
      | Inr gs \<Rightarrow> writeJSON 200 (if gs = [] then JNull else JList (map gateway_json gs)))"

text \<open>\<open>interrupt\<close> and \<open>setGatewayDraining\<close>: the check before the broadcast, and the answer to its result.\<close>

definition interrupt_begin :: "pg_env \<Rightarrow> db \<Rightarrow> string \<Rightarrow> response option" where
  "interrupt_begin e db did = (case GetDevice e db did of Inl err \<Rightarrow> Some (writeStoreError err) | Inr d \<Rightarrow> None)"

definition interrupt_finish :: "pg_env \<Rightarrow> db \<Rightarrow> string \<Rightarrow> go_error option \<Rightarrow> db \<times> response" where
  "interrupt_finish e db did result =
     (case result of
        Some err \<Rightarrow> (db, writeError 503 (error_text err))
      | None \<Rightarrow> (audit e db ''connections.interrupt'' did [], NoContent))"

definition setGatewayDraining_begin :: "go_error + bool \<Rightarrow> response + bool" where
  "setGatewayDraining_begin request = (case request of Inl err \<Rightarrow> Inl (writeError 400 (error_text err)) | Inr draining \<Rightarrow> Inr draining)"

definition setGatewayDraining_finish :: "pg_env \<Rightarrow> db \<Rightarrow> string \<Rightarrow> bool \<Rightarrow> go_error option \<Rightarrow> db \<times> response" where
  "setGatewayDraining_finish e db gid draining result =
     (case result of
        Some err \<Rightarrow> (db, if errors_is err ErrNotFound then writeError 404 ''gateway is not connected'' else writeError 503 (error_text err))
      | None \<Rightarrow> (audit e db ''gateway.draining.set'' gid [(''draining'', JBool draining)], NoContent))"

end
