(* ===== verification/PM_Proposals.thy ===== *)
theory PM_Proposals
  imports PM_Api
begin

text \<open>
  What a request sends to the gateways and what its commit writes to the tables are computed separately: the first by the
  handler from a device it has read, the second by SQL. The theorems show that the two agree.
\<close>

section \<open>Ingresses as the tables hold them\<close>

definition plain :: "pg_env \<Rightarrow> byte list \<Rightarrow> string" where
  "plain e b = (case decrypt e b of Inl _ \<Rightarrow> [] | Inr p \<Rightarrow> p)"

definition ingress_view :: "pg_env \<Rightarrow> ingress_row \<Rightarrow> device_ingress" where
  "ingress_view e r = \<lparr>di_Port = ir_port r, di_Method = ir_method r, di_Password = plain e (ir_password_cipher r),
     di_Primary = ir_is_primary r, di_CreatedAt = ir_created_at r\<rparr>"

lemma scan_ingresses_view: "scan_ingresses e rs = Inr out \<Longrightarrow> out = map (ingress_view e) rs"
  by (induction rs arbitrary: out) (auto simp: ingress_view_def plain_def)

lemma loadDeviceIngresses_view:
  "loadDeviceIngresses e n db did = Inr out \<Longrightarrow> out = map (ingress_view e) (sort_key ingress_order (device_ingress_rows db did))"
  by (auto simp: loadDeviceIngresses_def dest: scan_ingresses_view)

lemma GetDevice_view:
  assumes "GetDevice e db did = Inr d"
  obtains row password where "gget (db_devices db) did = Some row" "decrypt_nullable e (dr_ingress_password_cipher row) = Inr password"
    "d = row_to_device row password (map (ingress_view e) (sort_key ingress_order (device_ingress_rows db did)))"
  using assms by (auto simp: GetDevice_def GetDevice_at_def select_device_def dest!: loadDeviceIngresses_view split: option.splits)

lemma GetDevice_row:
  assumes "reads c e" and "sealed c db" and "gget (db_devices db) did = Some row"
  shows "\<exists>pw. decrypt_nullable e (dr_ingress_password_cipher row) = Inr pw
     \<and> GetDevice e db did = Inr (row_to_device row pw (map (ingress_view e) (sort_key ingress_order (device_ingress_rows db did))))"
proof -
  obtain d where d: "GetDevice e db did = Inr d" using GetDevice_total [OF assms, of 0] by (auto simp: GetDevice_def)
  then show ?thesis by (rule GetDevice_view) (use d assms(3) in auto)
qed

lemma filter_view: "filter (\<lambda>i. P (di_Port i)) (map (ingress_view e) rs) = map (ingress_view e) (filter (\<lambda>r. P (ir_port r)) rs)"
  by (induction rs) (auto simp: ingress_view_def)

lemma decrypt_nullable_plain:
  "decrypt_nullable e (Some b) = Inr p \<Longrightarrow> 0 < NonceSize (pe_cipher e) \<Longrightarrow> p = plain e b"
  by (auto simp: decrypt_nullable_def plain_def decrypt_def Cipher_Decrypt_def split: if_splits)

section \<open>Orders\<close>

lemma sort_key_same_order:
  assumes "inj_on f (set xs)" and "\<And>x y. x \<in> set xs \<Longrightarrow> y \<in> set xs \<Longrightarrow> g x \<le> g y \<Longrightarrow> f x \<le> f y"
  shows "sort_key f xs = sort_key g xs"
proof (rule sort_key_inj_key_eq [OF _ assms(1)])
  have "sorted_wrt (\<lambda>x y. g x \<le> g y) (sort_key g xs)" using sorted_sort_key [of g xs] by (simp add: sorted_map)
  then have "sorted_wrt (\<lambda>x y. f x \<le> f y) (sort_key g xs)"
    by (rule sorted_wrt_mono_rel [rotated]) (use assms(2) in simp)
  then show "sorted (map f (sort_key g xs))" by (simp add: sorted_map)
qed simp

lemma ports_distinct: "db_ok db \<Longrightarrow> distinct (map ir_port (device_ingress_rows db did))"
  by (simp add: db_ok_def ingresses_ok_def device_ingress_rows_def distinct_map_filter)

lemma inj_ingress_order: "distinct (map ir_port rs) \<Longrightarrow> inj_on ingress_order (set rs)"
  by (auto simp: distinct_map inj_on_def ingress_order_def)

lemma order_non_primary:
  assumes "distinct (map ir_port rs)" and "\<forall>r \<in> set rs. \<not> ir_is_primary r"
  shows "sort_key ingress_order rs = sort_key (\<lambda>r. (ir_created_at r, ir_port r)) rs"
  using assms by (intro sort_key_same_order inj_ingress_order) (auto simp: ingress_order_def)

text \<open>Marking the oldest of several ingresses that are not primary moves nothing.\<close>

lemma order_after_mark:
  assumes d: "distinct (map ir_port rs)" and np: "\<forall>r \<in> set rs. \<not> ir_is_primary r"
    and s: "sort_key (\<lambda>r. (ir_created_at r, ir_port r)) rs = nx # rest"
  shows "sort_key ingress_order (map (\<lambda>r. if ir_port r = ir_port nx then r\<lparr>ir_is_primary := True\<rparr> else r) rs)
     = nx\<lparr>ir_is_primary := True\<rparr> # rest"
proof (rule sort_key_inj_key_eq)
  let ?m = "\<lambda>r. if ir_port r = ir_port nx then r\<lparr>ir_is_primary := True\<rparr> else r"
  have rs: "mset rs = mset (nx # rest)" using mset_sort [of "\<lambda>r. (ir_created_at r, ir_port r)" rs] s by simp
  have "distinct (map ir_port (nx # rest))" using d rs by (metis mset_eq_imp_distinct_iff mset_map)
  then have "\<forall>r \<in> set rest. ir_port r \<noteq> ir_port nx" by (auto simp: image_iff)
  then have same: "map ?m rest = rest" by (intro map_idI) simp
  have "mset (map ?m rs) = image_mset ?m (mset (nx # rest))" using rs by simp
  also have "\<dots> = mset (map ?m (nx # rest))" by simp
  also have "\<dots> = mset (nx\<lparr>ir_is_primary := True\<rparr> # rest)" unfolding list.map same by simp
  finally show "mset (map ?m rs) = mset (nx\<lparr>ir_is_primary := True\<rparr> # rest)" .
  have "map ir_port (map ?m rs) = map ir_port rs" by simp
  then show "inj_on ingress_order (set (map ?m rs))" using d by (intro inj_ingress_order) (simp del: map_map)
  have "set rest \<subseteq> set rs" using rs by (metis mset_eq_setD set_subset_Cons)
  then have np': "\<forall>r \<in> set rest. \<not> ir_is_primary r" using np by blast
  have "sorted (map ingress_order (nx # rest))"
    using sorted_sort_key [of ingress_order rs] unfolding order_non_primary [OF d np] s .
  then show "sorted (map ingress_order (nx\<lparr>ir_is_primary := True\<rparr> # rest))" using np' by (auto simp: ingress_order_def)
qed

section \<open>Deleting\<close>

lemma rows_after_delete:
  assumes "delete_ingress db did port = Inr (db1, b)"
  shows "device_ingress_rows db1 did = filter (\<lambda>r. ir_port r \<noteq> port) (device_ingress_rows db did)"
proof -
  have "db_ingresses db1 = filter (\<lambda>r. \<not> (ir_device_id r = did \<and> ir_port r = port)) (db_ingresses db)"
    using assms by (auto simp: delete_ingress_def split: list.splits)
  then show ?thesis by (auto simp: device_ingress_rows_def intro: filter_cong)
qed

lemma rows_after_mark:
  "device_ingress_rows (mark_primary did nx db) did
     = map (\<lambda>r. if ir_port r = ir_port nx then r\<lparr>ir_is_primary := True\<rparr> else r) (device_ingress_rows db did)"
proof -
  have "filter (\<lambda>r. ir_device_id r = did) (map (\<lambda>r. if ir_device_id r = did \<and> ir_port r = ir_port nx then r\<lparr>ir_is_primary := True\<rparr> else r) rs)
     = map (\<lambda>r. if ir_port r = ir_port nx then r\<lparr>ir_is_primary := True\<rparr> else r) (filter (\<lambda>r. ir_device_id r = did) rs)" for rs :: "ingress_row list"
    by (induction rs) auto
  then show ?thesis by (simp add: device_ingress_rows_def mark_primary_def update_ingresses_def)
qed

lemma deleted_row:
  assumes "db_ok db" and "delete_ingress db did port = Inr (db1, b)"
  obtains r where "filter (\<lambda>r. ir_port r = port) (device_ingress_rows db did) = [r]" "ir_is_primary r = b"
proof -
  have "filter (\<lambda>r. ir_device_id r = did \<and> ir_port r = port) (db_ingresses db) = filter (\<lambda>r. ir_port r = port) (device_ingress_rows db did)"
    by (auto simp: device_ingress_rows_def conj_commute intro: filter_cong)
  then obtain r rs where f: "filter (\<lambda>r. ir_port r = port) (device_ingress_rows db did) = r # rs" "ir_is_primary r = b"
    using assms(2) by (auto simp: delete_ingress_def split: list.splits)
  have "length (filter (\<lambda>r. ir_port r = port) (device_ingress_rows db did)) \<le> 1"
    by (rule filter_at_most_one [OF ports_distinct [OF assms(1)]]) simp
  then have "filter (\<lambda>r. ir_port r = port) (device_ingress_rows db did) = [r]" using f(1) by simp
  with f(2) show thesis by (intro that)
qed

lemma removed_primary_view:
  assumes "filter (\<lambda>r. ir_port r = port) rows = [r]"
  shows "removed_primary port (map (ingress_view e) (sort_key ingress_order rows)) = ir_is_primary r"
proof -
  have "filter (\<lambda>i. di_Port i = port) (map (ingress_view e) (sort_key ingress_order rows)) = [ingress_view e r]"
    using assms filter_view [of "\<lambda>p. p = port" e "sort_key ingress_order rows"] by (simp add: filter_sort)
  then show ?thesis by (simp add: removed_primary_def ingress_view_def)
qed

lemma without_port_view:
  "without_port port (map (ingress_view e) (sort_key ingress_order rows))
     = map (ingress_view e) (sort_key ingress_order (filter (\<lambda>r. ir_port r \<noteq> port) rows))"
  using filter_view [of "\<lambda>p. p \<noteq> port" e "sort_key ingress_order rows"] by (simp add: without_port_def filter_sort)

lemma delete_commit_body: "delete_commit e did port db = (db', None) \<Longrightarrow> delete_body e db did port = Inr db'"
  by (auto simp: delete_commit_def DeleteDeviceIngress_def transact_def split: prod.splits sum.splits option.splits)

lemma effective_nonempty: "d_Ingresses d \<noteq> [] \<Longrightarrow> Device_EffectiveIngresses d = d_Ingresses d"
  by (simp add: Device_EffectiveIngresses_def)

lemma delete_other_agrees:
  assumes ok: "db_ok db" and del: "delete_ingress db did port = Inr (db1, False)" and n: "1 < length (device_ingress_rows db did)"
    and d: "d = row_to_device row pw (map (ingress_view e) (sort_key ingress_order (device_ingress_rows db did)))"
  shows "remove_ingress port d = d\<lparr>d_Ingresses := map (ingress_view e) (sort_key ingress_order (device_ingress_rows db1 did))\<rparr>"
proof -
  obtain r where r: "filter (\<lambda>r. ir_port r = port) (device_ingress_rows db did) = [r]" "\<not> ir_is_primary r"
    using deleted_row [OF ok del] by auto
  have "d_Ingresses d \<noteq> []" using n by (auto simp: d row_to_device_def simp flip: length_0_conv)
  then have eff: "Device_EffectiveIngresses d = map (ingress_view e) (sort_key ingress_order (device_ingress_rows db did))"
    by (simp add: effective_nonempty) (simp add: d row_to_device_def)
  show ?thesis using r removed_primary_view [OF r(1), of e]
    by (simp add: remove_ingress_def eff without_port_view rows_after_delete [OF del])
qed

lemma delete_primary_agrees:
  assumes ok: "db_ok db" and del: "delete_ingress db did port = Inr (db1, True)" and n: "1 < length (device_ingress_rows db did)"
    and old: "oldest_ingress db1 did = Inr nx"
    and d: "d = row_to_device row pw (map (ingress_view e) (sort_key ingress_order (device_ingress_rows db did)))"
  shows "remove_ingress port d = d\<lparr>d_Ingresses := map (ingress_view e) (sort_key ingress_order (device_ingress_rows (mark_primary did nx db1) did)),
     d_IngressPort := ir_port nx, d_IngressMethod := ir_method nx, d_IngressPassword := plain e (ir_password_cipher nx)\<rparr>"
proof -
  obtain r where r: "filter (\<lambda>r. ir_port r = port) (device_ingress_rows db did) = [r]" "ir_is_primary r"
    using deleted_row [OF ok del] by auto
  have "d_Ingresses d \<noteq> []" using n by (auto simp: d row_to_device_def simp flip: length_0_conv)
  then have eff: "Device_EffectiveIngresses d = map (ingress_view e) (sort_key ingress_order (device_ingress_rows db did))"
    by (simp add: effective_nonempty) (simp add: d row_to_device_def)
  let ?rows = "device_ingress_rows db1 did"
  have dist: "distinct (map ir_port ?rows)" using ports_distinct [OF delete_ingress_ok [OF ok del]] .
  have np: "\<forall>r \<in> set ?rows. \<not> ir_is_primary r"
    using delete_primary [OF ok del] by (auto simp: no_primary_def device_ingress_rows_def)
  obtain rest where s: "sort_key (\<lambda>r. (ir_created_at r, ir_port r)) ?rows = nx # rest"
    using old by (auto simp: oldest_ingress_def split: list.splits)
  have left: "without_port port (Device_EffectiveIngresses d) = map (ingress_view e) (nx # rest)"
    unfolding eff without_port_view rows_after_delete [OF del, symmetric] order_non_primary [OF dist np] s ..
  have marked: "map (ingress_view e) (sort_key ingress_order (device_ingress_rows (mark_primary did nx db1) did))
      = promote_first (map (ingress_view e) (nx # rest))"
    unfolding rows_after_mark order_after_mark [OF dist np s] by (simp add: ingress_view_def)
  have "removed_primary port (Device_EffectiveIngresses d)" using removed_primary_view [OF r(1), of e] r(2) by (simp add: eff)
  then show ?thesis unfolding remove_ingress_def Let_def left marked by (simp add: ingress_view_def)
qed

text \<open>
  C25: when an ingress is deleted, the device that the handler sends to the gateways is the device that its commit leaves in the tables, the new
  primary ingress included, but for the time of the update.
\<close>

theorem delete_proposal_matches_store:
  assumes ok: "db_ok db" and s: "sealed c db" and rd: "reads c e" and n: "0 < NonceSize c"
    and cur: "GetDevice e db did = Inr current" and commit: "delete_commit e2 did port db = (db', None)"
  shows "\<exists>d. GetDevice e db' did = Inr d \<and> remove_ingress port current = d\<lparr>d_UpdatedAt := d_UpdatedAt current\<rparr>"
proof -
  have body: "delete_body e2 db did port = Inr db'" using delete_commit_body [OF commit] .
  have s': "sealed c db'" using DeleteDeviceIngress_sealed [OF s, of e2 did port] body by (simp add: fst_DeleteDeviceIngress transact_def)
  obtain row pw where row: "gget (db_devices db) did = Some row" and pw: "decrypt_nullable e (dr_ingress_password_cipher row) = Inr pw"
    and current: "current = row_to_device row pw (map (ingress_view e) (sort_key ingress_order (device_ingress_rows db did)))"
    using GetDevice_view [OF cur] .
  have nonce: "0 < NonceSize (pe_cipher e)" using rd n by (simp add: reads_def)
  from body show ?thesis
  proof (cases rule: delete_bodyE)
    case (primary db1 nx)
    have db': "db' = update_device (\<lambda>r. r\<lparr>dr_ingress_port := Some (ir_port nx), dr_ingress_method := ir_method nx,
             dr_ingress_password_cipher := Some (ir_password_cipher nx), dr_updated_at := pe_now e2\<rparr>) did (mark_primary did nx db1)"
      using primary(3) by (simp add: adopt_primary_def split: if_splits)
    have dev: "gget (db_devices (mark_primary did nx db1)) did = Some row"
      using row delete_ingress_tables(1) [OF primary(1)] by (simp add: mark_primary_def update_ingresses_def)
    have row': "gget (db_devices db') did = Some (row\<lparr>dr_ingress_port := Some (ir_port nx), dr_ingress_method := ir_method nx,
             dr_ingress_password_cipher := Some (ir_password_cipher nx), dr_updated_at := pe_now e2\<rparr>)"
      by (simp add: db' gget_update_device dev)
    have ings: "device_ingress_rows db' did = device_ingress_rows (mark_primary did nx db1) did" by (simp add: db' device_ingress_rows_def)
    obtain pw' where pw': "decrypt_nullable e (Some (ir_password_cipher nx)) = Inr pw'"
      and d: "GetDevice e db' did = Inr (row_to_device (row\<lparr>dr_ingress_port := Some (ir_port nx), dr_ingress_method := ir_method nx,
             dr_ingress_password_cipher := Some (ir_password_cipher nx), dr_updated_at := pe_now e2\<rparr>) pw'
             (map (ingress_view e) (sort_key ingress_order (device_ingress_rows db' did))))"
      using GetDevice_row [OF rd s' row'] by auto
    have "pw' = plain e (ir_password_cipher nx)" using decrypt_nullable_plain [OF pw' nonce] .
    then show ?thesis using d delete_primary_agrees [OF ok primary(1,4,2) current]
      by (simp add: ings current row_to_device_def)
  next
    case (other db1)
    have row': "gget (db_devices db') did = Some (row\<lparr>dr_updated_at := pe_now e2\<rparr>)"
      using row delete_ingress_tables(1) [OF other(1)] by (simp add: other(3) gget_update_device)
    have ings: "device_ingress_rows db' did = device_ingress_rows db1 did" by (simp add: other(3) device_ingress_rows_def)
    have "GetDevice e db' did = Inr (row_to_device (row\<lparr>dr_updated_at := pe_now e2\<rparr>) pw
             (map (ingress_view e) (sort_key ingress_order (device_ingress_rows db' did))))"
      using GetDevice_row [OF rd s' row'] pw by auto
    then show ?thesis using delete_other_agrees [OF ok other(1,2) current] by (simp add: ings current row_to_device_def)
  qed
qed

definition demo_db2 :: db where
  "demo_db2 = fst (AddDeviceIngress demo_pg demo_db ''d1'' \<lparr>di_Port = 50002, di_Method = ''2022-blake3-aes-128-gcm'', di_Password = ''k2'',
     di_Primary = False, di_CreatedAt = 5000\<rparr>)"

lemma demo_db2_ok: "db_ok demo_db2" "sealed demo_aead demo_db2"
  unfolding demo_db2_def by (rule AddDeviceIngress_ok [OF demo_db_ok(1)]) (rule AddDeviceIngress_sealed [OF demo_aead_ok demo_pg_ok demo_db_ok(2)])

lemma demo_reads: "reads demo_aead demo_pg" "0 < NonceSize demo_aead"
  by (simp_all add: reads_def demo_pg_def demo_aead_def)

definition demo_outcome :: "db \<Rightarrow> bool" where
  "demo_outcome db \<longleftrightarrow> snd (delete_commit demo_pg ''d1'' 50001 db) = None \<and> snd (rotate_commit demo_pg ''d1'' ''secret-2'' db) = None
     \<and> (case GetDevice demo_pg db ''d1'' of Inl _ \<Rightarrow> False | Inr d \<Rightarrow> d_IngressPort (remove_ingress 50001 d) = 50002)"

lemma demo_outcome: "demo_outcome demo_db2"
  by code_simp

theorem delete_proposal_matches_store_witness:
  "\<exists>current db' d. GetDevice demo_pg demo_db2 ''d1'' = Inr current \<and> delete_commit demo_pg ''d1'' 50001 demo_db2 = (db', None)
     \<and> GetDevice demo_pg db' ''d1'' = Inr d \<and> d_IngressPort (remove_ingress 50001 current) = 50002"
proof -
  obtain current db' where g: "GetDevice demo_pg demo_db2 ''d1'' = Inr current"
    and c: "delete_commit demo_pg ''d1'' 50001 demo_db2 = (db', None)" and p: "d_IngressPort (remove_ingress 50001 current) = 50002"
    using demo_outcome unfolding demo_outcome_def
    by (cases "GetDevice demo_pg demo_db2 ''d1''"; cases "delete_commit demo_pg ''d1'' 50001 demo_db2") auto
  show ?thesis using delete_proposal_matches_store [OF demo_db2_ok demo_reads g c] g c p by blast
qed

section \<open>Rotating\<close>

lemma sort_key_map_keep:
  assumes "\<And>x. f (g x) = f x"
  shows "sort_key f (map g xs) = map g (sort_key f xs)"
proof -
  have "insort_key f (g x) (map g ys) = map g (insort_key f x ys)" for x ys by (induction ys) (simp_all add: assms)
  then show ?thesis by (induction xs) simp_all
qed

lemma rows_after_rotate:
  "device_ingress_rows (rotate_tables e did enc db) did
     = map (\<lambda>r. if ir_is_primary r then r\<lparr>ir_password_cipher := enc\<rparr> else r) (device_ingress_rows db did)"
proof -
  have "filter (\<lambda>r. ir_device_id r = did) (map (\<lambda>r. if ir_device_id r = did \<and> ir_is_primary r then r\<lparr>ir_password_cipher := enc\<rparr> else r) rs)
     = map (\<lambda>r. if ir_is_primary r then r\<lparr>ir_password_cipher := enc\<rparr> else r) (filter (\<lambda>r. ir_device_id r = did) rs)" for rs :: "ingress_row list"
    by (induction rs) auto
  then show ?thesis by (simp add: device_ingress_rows_def rotate_tables_def update_ingresses_def)
qed

lemma rotate_commit_tables:
  assumes "rotate_commit e did pw db = (db', None)"
  obtains enc where "encrypt e 0 pw = Inr enc" "db' = rotate_tables e did enc db"
  using assms unfolding rotate_commit_def UpdateDeviceCredential_def rotate_tables_def
  by (auto simp: Let_def transact_def split: prod.splits sum.splits option.splits)

text \<open>
  C26: when a credential is rotated, the device that the handler sends to the gateways is the device that its commit leaves in the tables, with the new password
  in the device and in its primary ingress and nowhere else, but for the time of the update.
\<close>

theorem rotate_proposal_matches_store:
  assumes c: "aead_ok c" and s: "sealed c db" and rd: "reads c e" and n: "0 < NonceSize c" and e2: "env_ok c e2"
    and cur: "GetDevice e db did = Inr current" and commit: "rotate_commit e2 did password db = (db', None)"
  shows "\<exists>d. GetDevice e db' did = Inr d \<and> rotate_proposal current password = d\<lparr>d_UpdatedAt := d_UpdatedAt current\<rparr>"
proof -
  obtain enc where enc: "encrypt e2 0 password = Inr enc" and db': "db' = rotate_tables e2 did enc db"
    using rotate_commit_tables [OF commit] .
  obtain row pw where row: "gget (db_devices db) did = Some row"
    and current: "current = row_to_device row pw (map (ingress_view e) (sort_key ingress_order (device_ingress_rows db did)))"
    using GetDevice_view [OF cur] .
  have "Cipher_Decrypt c enc = Inr (bytes_of password)" using Cipher_Encrypt_opens(1) [OF c e2] enc by (simp add: encrypt_def)
  then have plain: "plain e enc = password" using rd by (simp add: plain_def decrypt_def reads_def)
  have s': "sealed c db'" using UpdateDeviceCredential_sealed [OF c e2 s, of did password] commit
    by (auto simp: rotate_commit_def split: prod.splits sum.splits)
  have row': "gget (db_devices db') did = Some (row\<lparr>dr_ingress_password_cipher := Some enc, dr_updated_at := pe_now e2\<rparr>)"
    using row by (simp add: db' rotate_tables_def update_ingresses_def gget_update_device)
  obtain pw' where pw': "decrypt_nullable e (Some enc) = Inr pw'"
    and d: "GetDevice e db' did = Inr (row_to_device (row\<lparr>dr_ingress_password_cipher := Some enc, dr_updated_at := pe_now e2\<rparr>) pw'
             (map (ingress_view e) (sort_key ingress_order (device_ingress_rows db' did))))"
    using GetDevice_row [OF rd s' row'] by auto
  have "pw' = password" using decrypt_nullable_plain [OF pw'] rd n plain by (simp add: reads_def)
  moreover have "map (ingress_view e) (sort_key ingress_order (device_ingress_rows db' did))
      = map (\<lambda>i. if di_Primary i then i\<lparr>di_Password := password\<rparr> else i) (map (ingress_view e) (sort_key ingress_order (device_ingress_rows db did)))"
    unfolding db' rows_after_rotate by (subst sort_key_map_keep) (auto simp: ingress_order_def ingress_view_def plain)
  ultimately show ?thesis using d by (simp add: current rotate_proposal_def row_to_device_def)
qed

theorem rotate_proposal_matches_store_witness:
  "\<exists>current db' d. GetDevice demo_pg demo_db2 ''d1'' = Inr current \<and> rotate_commit demo_pg ''d1'' ''secret-2'' demo_db2 = (db', None)
     \<and> GetDevice demo_pg db' ''d1'' = Inr d \<and> d_IngressPassword (d\<lparr>d_UpdatedAt := d_UpdatedAt current\<rparr>) = ''secret-2''"
proof -
  obtain current db' where g: "GetDevice demo_pg demo_db2 ''d1'' = Inr current"
    and c: "rotate_commit demo_pg ''d1'' ''secret-2'' demo_db2 = (db', None)"
    using demo_outcome unfolding demo_outcome_def
    by (cases "GetDevice demo_pg demo_db2 ''d1''"; cases "rotate_commit demo_pg ''d1'' ''secret-2'' demo_db2") auto
  from rotate_proposal_matches_store [OF demo_aead_ok demo_db2_ok(2) demo_reads demo_pg_ok g c]
  obtain d where d: "GetDevice demo_pg db' ''d1'' = Inr d" "rotate_proposal current ''secret-2'' = d\<lparr>d_UpdatedAt := d_UpdatedAt current\<rparr>" by blast
  have "d_IngressPassword (rotate_proposal current ''secret-2'') = ''secret-2''" by (simp add: rotate_proposal_def)
  then show ?thesis using g c d by metis
qed

end
