(* ===== verification/PM_Deploy.thy ===== *)
theory PM_Deploy
  imports PM_Hub
begin

text \<open>
  What the two-phase deployment of \<open>hub.go\<close> guarantees across the control plane and the gateways, whatever
  else happens meanwhile: other requests queueing frames and taking acknowledgements, heartbeats,
  sessions opening and closing, leftovers of earlier deployments that timed out.

  The argument follows one session through a deployment. The locale \<open>two_phase\<close> states what the two frames
  of a deployment have to achieve on the gateway; it is interpreted once for routes and once for devices.
\<close>

section \<open>One session during a deployment\<close>

text \<open>Queues without traffic of the deployment, and queues with nothing but harmless frames.\<close>

definition quiet :: "string \<Rightarrow> frame list \<Rightarrow> bool" where
  "quiet rid q \<longleftrightarrow> (\<forall>f \<in> set q. f_RequestID f \<noteq> rid)"

definition harmless :: "string \<Rightarrow> frame list \<Rightarrow> bool" where
  "harmless rid q \<longleftrightarrow> (\<forall>f \<in> set q. f_RequestID f \<noteq> rid \<and> f_Type f \<in> {TypeInterrupt, TypeSetDraining})"

lemma quiet_simps [simp]:
  "quiet rid []" "quiet rid (f # q) \<longleftrightarrow> f_RequestID f \<noteq> rid \<and> quiet rid q"
  "quiet rid (q @ q') \<longleftrightarrow> quiet rid q \<and> quiet rid q'"
  by (auto simp: quiet_def)

lemma harmless_simps [simp]:
  "harmless rid []"
  "harmless rid (f # q) \<longleftrightarrow> f_RequestID f \<noteq> rid \<and> f_Type f \<in> {TypeInterrupt, TypeSetDraining} \<and> harmless rid q"
  "harmless rid (q @ q') \<longleftrightarrow> harmless rid q \<and> harmless rid q'"
  by (auto simp: harmless_def)

lemma quiet_tl: "quiet rid q \<Longrightarrow> quiet rid (tl q)"
  by (cases q) simp_all

text \<open>
  A frame \<open>fr\<close> has been sent and not yet been acknowledged to the hub: either it is still in the queue, and
  the gateway satisfies \<open>pre\<close>; or it was handled, and its acknowledgement is on the way back, or was
  taken away by another request; an acknowledgement without error promises \<open>post\<close>.
\<close>

definition under_way ::
    "string \<Rightarrow> (frame list \<Rightarrow> bool) \<Rightarrow> (control_client \<Rightarrow> bool) \<Rightarrow> (control_client \<Rightarrow> bool) \<Rightarrow> frame \<Rightarrow> session \<Rightarrow> bool" where
  "under_way rid calm pre post fr s \<longleftrightarrow>
     (\<exists>xs ys. s_send s = xs @ fr # ys \<and> calm xs \<and> harmless rid ys \<and> quiet rid (s_acks s) \<and> pre (s_peer s))
     \<or> harmless rid (s_send s) \<and>
         (quiet rid (s_acks s)
          \<or> (\<exists>as a bs. s_acks s = as @ a # bs \<and> quiet rid as \<and> quiet rid bs \<and> f_RequestID a = rid
               \<and> (f_Error a = [] \<longrightarrow> post (s_peer s))))"

definition settled :: "string \<Rightarrow> (control_client \<Rightarrow> bool) \<Rightarrow> session \<Rightarrow> bool" where
  "settled rid post s \<longleftrightarrow> harmless rid (s_send s) \<and> quiet rid (s_acks s) \<and> post (s_peer s)"

datatype stage = Unsent | SentPrepare | Prepared | SentFinish | Finished | Over

fun stage_of :: "deploy_pc \<Rightarrow> nat \<Rightarrow> stage" where
  "stage_of (Sending PhasePrepare todo) i = (if i \<in> set todo then Unsent else SentPrepare)"
| "stage_of (Waiting PhasePrepare todo) i = (if i \<in> set todo then SentPrepare else Prepared)"
| "stage_of Committing i = Prepared"
| "stage_of (Sending PhaseFinish todo) i = (if i \<in> set todo then Prepared else SentFinish)"
| "stage_of (Waiting PhaseFinish todo) i = (if i \<in> set todo then SentFinish else Finished)"
| "stage_of (Returned None) i = Finished"
| "stage_of (Returned (Some err)) i = Over"

lemma under_way_recv:
  assumes uw: "under_way rid calm pre post fr s" and send: "s_send s = f # rest"
    and id: "f_RequestID fr = rid"
    and txt_ok: "errors_have_text e (s_peer s) f"
    and calm: "\<And>x xs. calm (x # xs) \<Longrightarrow> f_RequestID x \<noteq> rid \<and> calm xs"
    and pre: "\<And>xs. calm (f # xs) \<Longrightarrow> pre (s_peer s) \<Longrightarrow> pre (fst (handle e (s_peer s) f))"
    and step: "pre (s_peer s) \<Longrightarrow> f = fr \<Longrightarrow> snd (handle e (s_peer s) f) = None \<Longrightarrow> post (fst (handle e (s_peer s) f))"
    and post: "f_Type f \<in> {TypeInterrupt, TypeSetDraining} \<Longrightarrow> post (s_peer s) \<Longrightarrow> post (fst (handle e (s_peer s) f))"
  shows "under_way rid calm pre post fr (recv_session e s)"
proof -
  note r = recv_session_Cons [OF send, of e]
  let ?ack = "snd (client_recv e (s_peer s) f)"
  from uw consider
    (head) ys where "f = fr" "rest = ys" "harmless rid ys" "quiet rid (s_acks s)" "pre (s_peer s)"
  | (later) xs ys where "calm (f # xs)" "rest = xs @ fr # ys" "harmless rid ys" "quiet rid (s_acks s)" "pre (s_peer s)"
  | (gone) "harmless rid (f # rest)" "quiet rid (s_acks s)"
  | (returning) as a bs where "harmless rid (f # rest)" "s_acks s = as @ a # bs" "quiet rid as" "quiet rid bs"
      "f_RequestID a = rid" "f_Error a = [] \<longrightarrow> post (s_peer s)"
    unfolding under_way_def send by (auto simp: Cons_eq_append_conv)
  then show ?thesis
  proof cases
    case head
    have "f_Error ?ack = [] \<longrightarrow> post (s_peer (recv_session e s))"
      using step [OF head(5,1)] ack_error [OF txt_ok] r by simp
    then show ?thesis using head id r ack_request [of e "s_peer s" f] unfolding under_way_def
      by (metis quiet_simps(1))
  next
    case (later xs ys)
    have "quiet rid (s_acks (recv_session e s))" "pre (s_peer (recv_session e s))"
      using later calm [OF later(1)] pre [OF later(1,5)] r ack_request [of e "s_peer s" f] by simp_all
    then show ?thesis using later calm [OF later(1)] r unfolding under_way_def by metis
  next
    case gone
    then show ?thesis using r ack_request [of e "s_peer s" f] by (simp add: under_way_def)
  next
    case (returning as a bs)
    have "s_acks (recv_session e s) = as @ a # (bs @ [?ack])" "quiet rid (bs @ [?ack])"
      using returning r ack_request [of e "s_peer s" f] by simp_all
    moreover have "f_Error a = [] \<longrightarrow> post (s_peer (recv_session e s))" using returning post r by simp
    ultimately show ?thesis using returning r unfolding under_way_def by (metis harmless_simps(2))
  qed
qed

lemma settled_recv:
  assumes "settled rid post s" and send: "s_send s = f # rest"
    and "f_Type f \<in> {TypeInterrupt, TypeSetDraining} \<Longrightarrow> post (s_peer s) \<Longrightarrow> post (fst (handle e (s_peer s) f))"
  shows "settled rid post (recv_session e s)"
  using assms recv_session_Cons [OF send, of e] ack_request [of e "s_peer s" f] by (simp add: settled_def)

text \<open>Changes of a session that only shrink its acknowledgements, or queue a harmless frame.\<close>

lemma under_way_take:
  assumes "under_way rid calm pre post fr s" and "s_send s' = s_send s" and "s_peer s' = s_peer s"
    and "s_acks s' = tl (s_acks s)"
  shows "under_way rid calm pre post fr s'"
proof -
  from assms(1) consider
    (queued) xs ys where "s_send s = xs @ fr # ys" "calm xs" "harmless rid ys" "quiet rid (s_acks s)" "pre (s_peer s)"
  | (gone) "harmless rid (s_send s)" "quiet rid (s_acks s)"
  | (answered) as a bs where "harmless rid (s_send s)" "s_acks s = as @ a # bs" "quiet rid as" "quiet rid bs"
      "f_RequestID a = rid" "f_Error a = [] \<longrightarrow> post (s_peer s)"
    unfolding under_way_def by blast
  then show ?thesis
  proof cases
    case queued
    then show ?thesis unfolding under_way_def assms(2-4) using quiet_tl by blast
  next
    case gone
    then show ?thesis unfolding under_way_def assms(2-4) using quiet_tl by blast
  next
    case (answered as a bs)
    show ?thesis
    proof (cases as)
      case Nil
      then show ?thesis unfolding under_way_def assms(2-4) using answered by simp
    next
      case (Cons x xs)
      then have "tl (s_acks s) = xs @ a # bs" "quiet rid xs" using answered by simp_all
      then show ?thesis unfolding under_way_def assms(2-4) using answered by blast
    qed
  qed
qed

lemma under_way_enqueue:
  assumes "under_way rid calm pre post fr s" and "s_send s' = s_send s @ [f]" and "s_peer s' = s_peer s"
    and "s_acks s' = s_acks s" and "harmless rid [f]"
  shows "under_way rid calm pre post fr s'"
  using assms(1) unfolding under_way_def assms(2-4)
proof (elim disjE exE conjE)
  fix xs ys assume a: "s_send s = xs @ fr # ys" "calm xs" "harmless rid ys" "quiet rid (s_acks s)" "pre (s_peer s)"
  then have "s_send s @ [f] = xs @ fr # (ys @ [f])" "harmless rid (ys @ [f])" using assms(5) by simp_all
  with a show "(\<exists>xs ys. s_send s @ [f] = xs @ fr # ys \<and> calm xs \<and> harmless rid ys \<and> quiet rid (s_acks s) \<and> pre (s_peer s))
    \<or> harmless rid (s_send s @ [f]) \<and> (quiet rid (s_acks s) \<or>
        (\<exists>as a bs. s_acks s = as @ a # bs \<and> quiet rid as \<and> quiet rid bs \<and> f_RequestID a = rid
          \<and> (f_Error a = [] \<longrightarrow> post (s_peer s))))" by blast
qed (use assms(5) in auto)

text \<open>The two moments at which a session advances.\<close>

lemma under_way_sent:
  assumes "calm (s_send s)" and "quiet rid (s_acks s)" and "pre (s_peer s)"
    and "s_send s' = s_send s @ [fr]" and "s_peer s' = s_peer s" and "s_acks s' = s_acks s"
  shows "under_way rid calm pre post fr s'"
  unfolding under_way_def assms(4-6)
  by (rule disjI1, rule exI [of _ "s_send s"], rule exI [of _ "[]"]) (simp add: assms(1-3))

lemma under_way_acked:
  assumes "under_way rid calm pre post fr s" and "s_acks s = a # rest" and "f_RequestID a = rid" and "f_Error a = []"
    and "s_send s' = s_send s" and "s_peer s' = s_peer s" and "s_acks s' = rest"
  shows "settled rid post s'"
  using assms(1) unfolding under_way_def assms(2)
proof (elim disjE exE conjE)
  fix as a' bs
  assume b: "harmless rid (s_send s)" "a # rest = as @ a' # bs" "quiet rid as" "quiet rid bs"
    "f_RequestID a' = rid" "f_Error a' = [] \<longrightarrow> post (s_peer s)"
  have "as = []" using b(2,3) assms(3) by (cases as) auto
  then show ?thesis using b assms(4-7) by (simp add: settled_def)
qed (use assms(3) in simp_all)

section \<open>The contract of the two frames\<close>

definition at_stage ::
    "frame \<Rightarrow> frame \<Rightarrow> (control_client \<Rightarrow> bool) \<Rightarrow> (control_client \<Rightarrow> bool) \<Rightarrow> stage \<Rightarrow> session \<Rightarrow> bool" where
  "at_stage prep fin prepared finished st s \<longleftrightarrow>
     (case st of
        Unsent \<Rightarrow> quiet (f_RequestID prep) (s_send s) \<and> quiet (f_RequestID prep) (s_acks s)
      | SentPrepare \<Rightarrow> under_way (f_RequestID prep) (quiet (f_RequestID prep)) (\<lambda>_. True) prepared prep s
      | Prepared \<Rightarrow> settled (f_RequestID prep) prepared s
      | SentFinish \<Rightarrow> under_way (f_RequestID prep) (harmless (f_RequestID prep)) prepared finished fin s
      | Finished \<Rightarrow> settled (f_RequestID prep) finished s
      | Over \<Rightarrow> True)"

locale two_phase =
  fixes k :: disk_env and prep fin :: frame and prepared finished :: "control_client \<Rightarrow> bool"
  assumes same_id: "f_RequestID fin = f_RequestID prep"
    and prepare_works: "client_ok k c \<Longrightarrow> disk_ok (ce_disk e) \<Longrightarrow> same_codec (ce_disk e) k \<Longrightarrow>
          handle e c prep = (c', None) \<Longrightarrow> prepared c'"
    and finish_works: "client_ok k c \<Longrightarrow> disk_ok (ce_disk e) \<Longrightarrow> same_codec (ce_disk e) k \<Longrightarrow>
          prepared c \<Longrightarrow> handle e c fin = (c', None) \<Longrightarrow> finished c'"
    and kept_by_table: "cc_table c' = cc_table c \<Longrightarrow> prepared c \<Longrightarrow> prepared c'"
      "cc_table c' = cc_table c \<Longrightarrow> finished c \<Longrightarrow> finished c'"
begin

abbreviation at :: "stage \<Rightarrow> session \<Rightarrow> bool" where
  "at \<equiv> at_stage prep fin prepared finished"

end

lemma harmless_keeps_table:
  assumes "f_Type f \<in> {TypeInterrupt, TypeSetDraining}"
  shows "cc_table (fst (handle e c f)) = cc_table c"
  using assms by (cases e c f rule: handle_kinds) (auto simp: type_defs Gateway_SetDraining_def)

context two_phase
begin

lemma harmless_keeps:
  "f_Type f \<in> {TypeInterrupt, TypeSetDraining} \<Longrightarrow> prepared c \<Longrightarrow> prepared (fst (handle e c f))"
  "f_Type f \<in> {TypeInterrupt, TypeSetDraining} \<Longrightarrow> finished c \<Longrightarrow> finished (fst (handle e c f))"
  using kept_by_table harmless_keeps_table by blast+

lemma at_recv:
  assumes st: "at st s" and send: "s_send s = f # rest" and txt_ok: "errors_have_text e (s_peer s) f"
    and ok: "client_ok k (s_peer s)" "disk_ok (ce_disk e)" "same_codec (ce_disk e) k"
  shows "at st (recv_session e s)"
proof (cases st)
  case Unsent
  then show ?thesis using st send recv_session_Cons [OF send, of e] ack_request [of e "s_peer s" f]
    by (simp add: at_stage_def)
next
  case SentPrepare
  have "under_way (f_RequestID prep) (quiet (f_RequestID prep)) (\<lambda>_. True) prepared prep (recv_session e s)"
  proof (rule under_way_recv [OF _ send refl txt_ok])
    show "under_way (f_RequestID prep) (quiet (f_RequestID prep)) (\<lambda>_. True) prepared prep s"
      using st SentPrepare by (simp add: at_stage_def)
    show "f = prep \<Longrightarrow> snd (handle e (s_peer s) f) = None \<Longrightarrow> prepared (fst (handle e (s_peer s) f))"
      using prepare_works [OF ok, of "fst (handle e (s_peer s) f)"] by (simp add: prod_eq_iff)
  qed (simp_all add: harmless_keeps)
  then show ?thesis using SentPrepare by (simp add: at_stage_def)
next
  case SentFinish
  have "under_way (f_RequestID prep) (harmless (f_RequestID prep)) prepared finished fin (recv_session e s)"
  proof (rule under_way_recv [OF _ send same_id txt_ok])
    show "under_way (f_RequestID prep) (harmless (f_RequestID prep)) prepared finished fin s"
      using st SentFinish by (simp add: at_stage_def)
    show "prepared (s_peer s) \<Longrightarrow> f = fin \<Longrightarrow> snd (handle e (s_peer s) f) = None \<Longrightarrow> finished (fst (handle e (s_peer s) f))"
      using finish_works [OF ok, of "fst (handle e (s_peer s) f)"] by (simp add: prod_eq_iff)
  qed (auto intro: harmless_keeps)
  then show ?thesis using SentFinish by (simp add: at_stage_def)
next
  case Prepared
  then show ?thesis using st settled_recv [OF _ send] harmless_keeps(1) by (simp add: at_stage_def)
next
  case Finished
  then show ?thesis using st settled_recv [OF _ send] harmless_keeps(2) by (simp add: at_stage_def)
qed (simp add: at_stage_def)

lemma at_take:
  assumes "at st s" and "s_send s' = s_send s" and "s_peer s' = s_peer s" and "s_acks s' = tl (s_acks s)"
  shows "at st s'"
  using assms under_way_take [OF _ assms(2-4)] quiet_tl
  by (cases st) (simp_all add: at_stage_def settled_def)

lemma at_enqueue:
  assumes "at st s" and "s_send s' = s_send s @ [f]" and "s_peer s' = s_peer s" and "s_acks s' = s_acks s"
    and "harmless (f_RequestID prep) [f]"
  shows "at st s'"
  using assms under_way_enqueue [OF _ assms(2-5)]
  by (cases st) (simp_all add: at_stage_def settled_def)

lemma at_peer:
  assumes "at st s" and "s_send s' = s_send s" and "cc_table (s_peer s') = cc_table (s_peer s)" and "s_acks s' = s_acks s"
  shows "at st s'"
proof -
  have "prepared (s_peer s) \<Longrightarrow> prepared (s_peer s')" "finished (s_peer s) \<Longrightarrow> finished (s_peer s')"
    using kept_by_table assms(3) by blast+
  then show ?thesis using assms
    by (cases st) (auto simp: at_stage_def settled_def under_way_def)
qed

end

section \<open>The invariant of a running deployment\<close>

definition todo_of :: "deploy_pc \<Rightarrow> nat list" where
  "todo_of pc = (case pc of Sending _ t \<Rightarrow> t | Waiting _ t \<Rightarrow> t | _ \<Rightarrow> [])"

definition deploy_shape :: "'st hub \<Rightarrow> 'st deployment \<Rightarrow> bool" where
  "deploy_shape h d \<longleftrightarrow> distinct (todo_of (dp_pc d)) \<and> set (todo_of (dp_pc d)) \<subseteq> set (dp_sessions d)
     \<and> distinct (dp_sessions d)
     \<and> (\<forall>i \<in> set (dp_sessions d). i < length (h_all h) \<and> s_started (h_all h ! i))"

definition deploy_tracked ::
    "frame \<Rightarrow> frame \<Rightarrow> (control_client \<Rightarrow> bool) \<Rightarrow> (control_client \<Rightarrow> bool) \<Rightarrow> 'st hub \<Rightarrow> 'st deployment \<Rightarrow> bool" where
  "deploy_tracked prep fin prepared finished h d \<longleftrightarrow> deploy_shape h d \<and> dp_prepare d = prep \<and> dp_finish d = fin
     \<and> (\<forall>i \<in> set (dp_sessions d). at_stage prep fin prepared finished (stage_of (dp_pc d) i) (h_all h ! i))"

context two_phase
begin

abbreviation tracked :: "'st hub \<Rightarrow> 'st deployment \<Rightarrow> bool" where
  "tracked \<equiv> deploy_tracked prep fin prepared finished"

lemma trackedD:
  assumes "tracked h d" and "i \<in> set (dp_sessions d)"
  shows "i < length (h_all h)" "s_started (h_all h ! i)" "at (stage_of (dp_pc d) i) (h_all h ! i)"
  using assms by (auto simp: deploy_tracked_def deploy_shape_def)

lemma tracked_same: "tracked h d \<Longrightarrow> h_all h' = h_all h \<Longrightarrow> tracked h' d"
  by (simp add: deploy_tracked_def deploy_shape_def)

lemma tracked_upd:
  assumes "tracked h d"
    and "\<And>st. i < length (h_all h) \<Longrightarrow> s_started (h_all h ! i) \<Longrightarrow> at st (h_all h ! i) \<Longrightarrow>
          at st (f (h_all h ! i)) \<and> s_started (f (h_all h ! i))"
  shows "tracked (upd_session i f h) d"
proof -
  have "at (stage_of (dp_pc d) j) (h_all (upd_session i f h) ! j) \<and> s_started (h_all (upd_session i f h) ! j)
      \<and> j < length (h_all h)" if "j \<in> set (dp_sessions d)" for j
    using trackedD [OF assms(1) that] assms(2) by (auto simp: upd_session_nth)
  then show ?thesis using assms(1) by (auto simp: deploy_tracked_def deploy_shape_def)
qed

lemma tracked_append:
  "tracked h d \<Longrightarrow> h_all h' = h_all h @ ss \<Longrightarrow> tracked h' d"
  by (auto simp: deploy_tracked_def deploy_shape_def nth_append trans_less_add1)

text \<open>Steps that are not part of the deployment.\<close>

lemma tracked_enqueue:
  "tracked h d \<Longrightarrow> harmless (f_RequestID prep) [f] \<Longrightarrow> tracked (enqueue f i h) d"
  unfolding enqueue_def by (rule tracked_upd) (auto intro: at_enqueue)

lemma tracked_take:
  assumes "tracked h d"
  shows "tracked (take_event i ev h) d"
proof (cases ev)
  case (GotAck a)
  show ?thesis unfolding take_event_def GotAck wait_event.case
    by (rule tracked_upd [OF assms]) (auto intro: at_take)
qed (simp_all add: take_event_def assms)

lemma tracked_close: "tracked h d \<Longrightarrow> tracked (Connect_close h i) d"
  unfolding Connect_close_def Let_def
  by (rule tracked_upd) (auto intro: tracked_same at_peer)

lemma tracked_recv:
  assumes "tracked h d" and "hub_wf k h" and "s_send (h_all h ! i) = f # rest"
    and "errors_have_text e (s_peer (h_all h ! i)) f" and "disk_ok (ce_disk e)" and "same_codec (ce_disk e) k"
    and "i < length (h_all h)"
  shows "tracked (deliver e h i now) d"
  unfolding deliver_upd [OF assms(7)]
  by (rule tracked_upd [OF assms(1)])
    (use at_recv [OF _ assms(3,4) hub_wfD(2) [OF assms(2,7)] assms(5,6)] recv_session_Cons(6) [OF assms(3)] in auto)

lemma other_id_harmless:
  assumes "tracked h d" and "h_deploy h = Some d" and "other_id h rid"
  shows "harmless (f_RequestID prep) [Hub_Interrupt_frame rid did]" "harmless (f_RequestID prep) [Hub_SetDraining_frame rid b]"
  using assms by (auto simp: other_id_def deploy_tracked_def Hub_Interrupt_frame_def Hub_SetDraining_frame_def)

text \<open>Steps of the deployment.\<close>

lemma tracked_start:
  assumes wf: "hub_wf k h" and fresh: "fresh_id h (f_RequestID prep)"
    and h': "start_deployment h what prep fin commit = h'" and d: "h_deploy h' = Some d"
  shows "tracked h' d"
proof -
  have d': "dp_sessions d = readySessions h" "dp_prepare d = prep" "dp_finish d = fin" "h_all h' = h_all h"
    "dp_pc d = (if readySessions h = [] then Returned (Some (ErrMsg ''no ready gateways connected''))
       else Sending PhasePrepare (readySessions h))"
    using h' d by (auto simp: start_deployment_def Let_def begin_phase_def)
  have entry: "i < length (h_all h) \<and> s_id (h_all h ! i) = gid" if "(gid, i) \<in> set (h_sessions h)" for gid i
    using wf that gget_iff_mem [of "h_sessions h"] by (auto simp: hub_wf_def)
  have "inj_on snd (set (h_sessions h))"
    by (rule inj_onI) (metis entry prod.collapse)
  then have "distinct (readySessions h)"
    using wf by (auto simp: readySessions_def hub_wf_def gwf_def distinct_map)
  moreover have "i < length (h_all h) \<and> s_started (h_all h ! i)" if "i \<in> set (readySessions h)" for i
    using that entry hub_wfD(1) [OF wf] by (auto simp: readySessions_def)
  moreover have "quiet (f_RequestID prep) (s_send (h_all h ! i)) \<and> quiet (f_RequestID prep) (s_acks (h_all h ! i))"
    if "i < length (h_all h)" for i
    using fresh nth_mem [OF that] by (auto simp: fresh_id_def quiet_def)
  ultimately show ?thesis
    by (auto simp: deploy_tracked_def deploy_shape_def d' todo_of_def at_stage_def)
qed


lemma tracked_pc:
  assumes "deploy_shape h d" and "dp_prepare d = prep" and "dp_finish d = fin"
    and "distinct (todo_of pc)" and "set (todo_of pc) \<subseteq> set (dp_sessions d)"
    and "\<And>j. j \<in> set (dp_sessions d) \<Longrightarrow> at (stage_of pc j) (h_all h ! j)"
  shows "tracked h (d\<lparr>dp_pc := pc\<rparr>)"
  using assms by (auto simp: deploy_tracked_def deploy_shape_def)

lemma at_sent:
  assumes "at (stage_of (Sending ph (i # rest)) i) s" and "s_send s' = s_send s @ [if ph = PhasePrepare then prep else fin]"
    and "s_peer s' = s_peer s" and "s_acks s' = s_acks s"
  shows "at (if ph = PhasePrepare then SentPrepare else SentFinish) s'"
  using assms by (cases ph) (auto simp: at_stage_def settled_def intro: under_way_sent)

lemma at_acked:
  assumes "at (stage_of (Waiting ph (i # rest)) i) s" and "s_acks s = a # acks" and "f_RequestID a = f_RequestID prep"
    and "f_Error a = []" and "s_send s' = s_send s" and "s_peer s' = s_peer s" and "s_acks s' = acks"
  shows "at (if ph = PhasePrepare then Prepared else Finished) s'"
  using assms under_way_acked [OF _ assms(2-7)] by (cases ph) (simp_all add: at_stage_def)

lemma enqueue_nth:
  assumes "j < length (h_all h)"
  shows "h_all (enqueue f i h) ! j = (if j = i then (h_all h ! j)\<lparr>s_send := s_send (h_all h ! j) @ [f]\<rparr> else h_all h ! j)"
  using assms by (simp add: enqueue_def upd_session_nth)

lemma tracked_send:
  assumes tr: "tracked h d" and pc: "dp_pc d = Sending ph (i # rest)"
  shows "tracked (send_next h d ph i rest) (d\<lparr>dp_pc := after_send d ph rest\<rparr>)"
proof -
  let ?h = "enqueue (phase_frame d ph) i h"
  have fr: "phase_frame d ph = (if ph = PhasePrepare then prep else fin)"
    using tr by (cases ph) (simp_all add: phase_frame_def deploy_tracked_def)
  have i: "i \<in> set (dp_sessions d)" "i \<notin> set rest" and rest: "distinct rest" "set rest \<subseteq> set (dp_sessions d)"
    using tr pc by (auto simp: deploy_tracked_def deploy_shape_def todo_of_def)
  have shape: "deploy_shape ?h d"
    using tr enqueue_nth [of _ h] by (auto simp: deploy_tracked_def deploy_shape_def enqueue_def upd_session_nth)
  have sent: "at (if ph = PhasePrepare then SentPrepare else SentFinish) (h_all ?h ! i)"
    using at_sent [of ph i rest "h_all h ! i"] trackedD [OF tr i(1)] pc by (simp add: enqueue_nth fr)
  have "at (stage_of (after_send d ph rest) j) (h_all ?h ! j)" if j: "j \<in> set (dp_sessions d)" for j
  proof (cases "j = i")
    case True
    then show ?thesis using sent i by (cases ph) (simp_all add: after_send_def)
  next
    case False
    then show ?thesis using trackedD [OF tr j] pc enqueue_nth [of j h] j by (cases ph) (auto simp: after_send_def)
  qed
  moreover have "distinct (todo_of (after_send d ph rest))" "set (todo_of (after_send d ph rest)) \<subseteq> set (dp_sessions d)"
    using rest shape by (auto simp: after_send_def todo_of_def deploy_shape_def)
  ultimately have "tracked ?h (d\<lparr>dp_pc := after_send d ph rest\<rparr>)"
    using tr by (intro tracked_pc [OF shape]) (simp_all add: deploy_tracked_def)
  then show ?thesis by (rule tracked_same) (simp add: send_next_def set_pc_def)
qed

lemma tracked_fail: "tracked h d \<Longrightarrow> tracked h (d\<lparr>dp_pc := Returned (Some err)\<rparr>)"
  by (auto simp: deploy_tracked_def deploy_shape_def todo_of_def at_stage_def)

lemma take_nth:
  assumes "j < length (h_all h)"
  shows "h_all (take_event i (GotAck a) h) ! j
    = (if j = i then (h_all h ! j)\<lparr>s_acks := tl (s_acks (h_all h ! j))\<rparr> else h_all h ! j)"
  using assms by (simp add: take_event_def upd_session_nth)

lemma tracked_wait:
  assumes tr: "tracked h d" and pc: "dp_pc d = Waiting ph (i # rest)" and poss: "event_possible (h_all h ! i) ev"
    and d': "h_deploy (wait_next h d ph i rest ev) = Some d'"
  shows "tracked (wait_next h d ph i rest ev) d'"
proof -
  let ?h = "take_event i ev h"
  have same: "h_all (wait_next h d ph i rest ev) = h_all ?h"
    using wait_next_sessions [of i ev h d ph rest] by (simp add: same_sessions_def)
  have tk: "tracked ?h d" by (rule tracked_take [OF tr])
  have id: "f_RequestID (phase_frame d ph) = f_RequestID prep"
    using tr same_id by (cases ph) (simp_all add: phase_frame_def deploy_tracked_def)
  have i: "i \<in> set (dp_sessions d)" "i \<notin> set rest" and rest: "distinct rest" "set rest \<subseteq> set (dp_sessions d)"
    using tr pc by (auto simp: deploy_tracked_def deploy_shape_def todo_of_def)
  have d'': "d' = d\<lparr>dp_pc := case wait_verdict (phase_frame d ph) (s_id (h_all h ! i)) ev of
      Again \<Rightarrow> Waiting ph (i # rest) | Next \<Rightarrow> after_wait ph rest | Fail err \<Rightarrow> Returned (Some (phase_error d ph err))\<rparr>"
    using d' by (simp add: wait_next_def Let_def set_pc_def)
  have "tracked ?h d'"
  proof (cases "wait_verdict (phase_frame d ph) (s_id (h_all h ! i)) ev")
    case Again
    have "d\<lparr>dp_pc := Waiting ph (i # rest)\<rparr> = d" by (simp add: pc [symmetric])
    then show ?thesis using tk Again d'' by simp
  next
    case (Fail err)
    then show ?thesis using tracked_fail [OF tk] d'' by simp
  next
    case Next
    then obtain a where a: "ev = GotAck a" "f_RequestID a = f_RequestID prep" "f_Error a = []"
      using id by (auto simp: wait_verdict_def split: wait_event.splits if_splits)
    then obtain acks where acks: "s_acks (h_all h ! i) = a # acks"
      using poss by (cases "s_acks (h_all h ! i)") (simp_all add: event_possible_def)
    have acked: "at (if ph = PhasePrepare then Prepared else Finished) (h_all ?h ! i)"
      using at_acked [of ph i rest "h_all h ! i" a acks] trackedD [OF tr i(1)] pc a acks by (simp add: take_nth)
    have "at (stage_of (after_wait ph rest) j) (h_all ?h ! j)" if j: "j \<in> set (dp_sessions d)" for j
    proof (cases "j = i")
      case True
      then show ?thesis using acked i by (cases ph) (simp_all add: after_wait_def)
    next
      case False
      then show ?thesis using trackedD [OF tk j] pc by (cases ph) (auto simp: after_wait_def)
    qed
    moreover have "distinct (todo_of (after_wait ph rest))" "set (todo_of (after_wait ph rest)) \<subseteq> set (dp_sessions d)"
      using rest by (cases ph; simp add: after_wait_def todo_of_def)+
    ultimately have "tracked ?h (d\<lparr>dp_pc := after_wait ph rest\<rparr>)"
      using tk by (intro tracked_pc) (simp_all add: deploy_tracked_def)
    then show ?thesis using Next d'' by simp
  qed
  then show ?thesis by (rule tracked_same) (simp add: same)
qed

lemma tracked_commit:
  assumes tr: "tracked h d" and pc: "dp_pc d = Committing" and d': "h_deploy (run_commit h d) = Some d'"
  shows "tracked (run_commit h d) d'"
proof -
  have same: "h_all (run_commit h d) = h_all h" using same_sessions_simps(5) [of h d] by (simp add: same_sessions_def)
  obtain st r where c: "dp_commit d (h_store h) = (st, r)" by fastforce
  have "tracked h d'"
  proof (cases r)
    case (Some err)
    then show ?thesis using tracked_fail [OF tr] d' c by (auto simp: run_commit_def set_pc_def)
  next
    case None
    then have "d' = (d\<lparr>dp_committed := True\<rparr>)\<lparr>dp_pc := begin_phase d PhaseFinish\<rparr>"
      using d' c by (simp add: run_commit_def set_pc_def)
    then show ?thesis using tr pc
      by (auto simp: begin_phase_def deploy_tracked_def deploy_shape_def todo_of_def at_stage_def)
  qed
  then show ?thesis by (rule tracked_same) (simp add: same)
qed


lemma tracked_snapshot:
  assumes "tracked h d" and "i < length (h_all h)" and "\<not> s_started (h_all h ! i)"
  shows "tracked (Connect_snapshot h i rid listed) d"
proof (cases listed)
  case (Inr routes)
  show ?thesis unfolding Connect_snapshot_def Inr sum.case
    by (rule tracked_upd [OF assms(1)]) (use assms(3) in simp)
qed (simp add: Connect_snapshot_def tracked_close assms)

lemma tracked_step:
  assumes wf: "hub_wf k h" and "hub_step k h h'"
    and old: "\<And>d. h_deploy h = Some d \<Longrightarrow> dp_prepare d = prep \<Longrightarrow> dp_finish d = fin \<Longrightarrow> tracked h d"
    and new: "h_deploy h' = Some d'" "dp_prepare d' = prep" "dp_finish d' = fin"
  shows "tracked h' d'"
  using assms(2)
proof cases
  case (register f peer)
  then obtain s where h': "h_all h' = h_all h @ [s]" and "h_deploy h' = h_deploy h"
    by (auto simp: Connect_register_def split: if_splits)
  then have "tracked h d'" using old new by simp
  then show ?thesis by (rule tracked_append [OF _ h'])
next
  case (snapshot i rid listed)
  have "h_deploy h' = h_deploy h"
    by (simp add: snapshot(1) Connect_snapshot_def Connect_close_def Let_def split: sum.splits)
  then show ?thesis using snapshot old new tracked_snapshot by simp
next
  case (close i)
  have "h_deploy h' = h_deploy h" by (simp add: close(1) Connect_close_def Let_def)
  then show ?thesis using close(1) old new tracked_close by simp
next
  case (heartbeat i t now)
  obtain b gs where h': "h' = (upd_session i (\<lambda>s. s\<lparr>s_ready := b\<rparr>) h)\<lparr>h_gateways := gs\<rparr>"
    using heartbeat(1) by (simp add: Connect_recv_def Let_def heartbeat_frame_def type_defs)
  then have "tracked h d'" using old new by simp
  then have "tracked (upd_session i (\<lambda>s. s\<lparr>s_ready := b\<rparr>) h) d'" by (rule tracked_upd) (auto intro: at_peer)
  then show ?thesis by (rule tracked_same) (simp add: h')
next
  case (handle_frame i f rest e now)
  then have i: "i < length (h_all h)" by (simp add: live_def)
  have "h_deploy h' = h_deploy h" by (simp add: handle_frame(1) deliver_upd [OF i])
  then show ?thesis using handle_frame old new tracked_recv [OF _ wf] i by simp
next
  case (peer_background i g')
  then have "tracked h d'" using old new by simp
  then show ?thesis unfolding peer_background(1)
    by (rule tracked_upd) (use peer_background(3) in \<open>auto simp: same_listening_def intro: at_peer\<close>)
next
  case (interrupt_send i rid did)
  have d: "h_deploy h = Some d'" using new(1) interrupt_send(1) by (simp add: enqueue_def)
  then show ?thesis using interrupt_send old new tracked_enqueue other_id_harmless(1) by metis
next
  case (draining_send i rid b)
  have d: "h_deploy h = Some d'" using new(1) draining_send(1) by (simp add: enqueue_def)
  then show ?thesis using draining_send old new tracked_enqueue other_id_harmless(2) by metis
next
  case (draining_finish i)
  then have "tracked h d'" using old new by (simp add: Hub_SetDraining_finish_def)
  then show ?thesis unfolding draining_finish Hub_SetDraining_finish_def by (rule tracked_upd) (auto intro: at_peer)
next
  case (other_ack i a rest)
  then have "tracked h d'" using old new by (simp add: take_event_def)
  then show ?thesis unfolding other_ack(1) by (rule tracked_take)
next
  case (deploy_route rid r commit)
  have "dp_prepare d' = route_frame TypePrepare rid r" "dp_finish d' = route_frame TypeActivate rid r"
    using new(1) deploy_route(1) by (auto simp: DeployRoute_def start_deployment_def Let_def)
  then have p: "prep = route_frame TypePrepare rid r" "fin = route_frame TypeActivate rid r" using new by simp_all
  show ?thesis using tracked_start [OF wf _ _ new(1)] deploy_route p
    by (simp add: DeployRoute_def) (simp add: route_frame_def)
next
  case (deploy_device rid dv commit)
  have "dp_prepare d' = device_frame TypeDevicePrepare rid dv" "dp_finish d' = device_frame TypeDeviceUpdate rid dv"
    using new(1) deploy_device(1) by (auto simp: DeployDevice_def start_deployment_def Let_def)
  then have p: "prep = device_frame TypeDevicePrepare rid dv" "fin = device_frame TypeDeviceUpdate rid dv" using new by simp_all
  show ?thesis using tracked_start [OF wf _ _ new(1)] deploy_device p
    by (simp add: DeployDevice_def) (simp add: device_frame_def)
next
  case (send d ph i rest)
  have "d' = d\<lparr>dp_pc := after_send d ph rest\<rparr>" using new(1) send(1) by (simp add: send_next_def set_pc_def)
  then show ?thesis using send old new tracked_send by simp
next
  case (send_cancel d ph todo err)
  have d': "d' = d\<lparr>dp_pc := Returned (Some (phase_error d ph err))\<rparr>"
    using new(1) send_cancel(1) by (simp add: send_cancelled_def set_pc_def)
  then have "tracked h d'" using tracked_fail [of h d] old send_cancel(2) new by simp
  then show ?thesis by (rule tracked_same) (simp add: send_cancel(1) send_cancelled_def set_pc_def)
next
  case (wait d ph i rest ev)
  have "dp_prepare d = dp_prepare d'" "dp_finish d = dp_finish d'"
    using new(1) wait(1) by (auto simp: wait_next_def Let_def set_pc_def)
  then show ?thesis using wait old new tracked_wait by metis
next
  case (commit d)
  have "dp_prepare d = dp_prepare d'" "dp_finish d = dp_finish d'"
    using new(1) commit(1) by (auto simp: run_commit_def set_pc_def split: prod.splits option.splits)
  then show ?thesis using commit old new tracked_commit by metis
qed

end

section \<open>Deployments of routes and of devices\<close>

definition route_pending :: "device_route \<Rightarrow> control_client \<Rightarrow> bool" where
  "route_pending r c \<longleftrightarrow> gget (t_pending (cc_table c)) (r_DeviceID r) = Some r"

definition route_active :: "device_route \<Rightarrow> control_client \<Rightarrow> bool" where
  "route_active r c \<longleftrightarrow> Table_ByDevice (cc_table c) (r_DeviceID r) = Some (r\<lparr>r_Status := RouteActive\<rparr>)"

definition device_current :: "device \<Rightarrow> control_client \<Rightarrow> bool" where
  "device_current d c \<longleftrightarrow> (\<forall>rt. Table_ByDevice (cc_table c) (d_ID d) = Some rt \<longrightarrow>
     r_DeviceUsername rt = d_Username d \<and> r_IngressPort rt = d_IngressPort d \<and> r_IngressMethod rt = d_IngressMethod d
     \<and> r_IngressPassword rt = d_IngressPassword d \<and> r_Ingresses rt = d_Ingresses d)"

interpretation route_phases: two_phase k "route_frame TypePrepare rid r" "route_frame TypeActivate rid r"
    "route_pending r" "route_active r" for k rid r
proof unfold_locales
  fix c e c' assume "handle e c (route_frame TypePrepare rid r) = (c', None)"
  then have "handle_prepare e c r = (c', None)" by (simp add: handle_def route_frame_def type_defs)
  then show "route_pending r c'"
    by (auto simp: handle_prepare_def route_pending_def Prepare_cases split: prod.splits option.splits if_splits)
next
  fix c e c'
  assume ok: "client_ok k c" "disk_ok (ce_disk e)" "same_codec (ce_disk e) k" and p: "route_pending r c"
    and "handle e c (route_frame TypeActivate rid r) = (c', None)"
  then have "apply_table_change e c (Table_Activate (cc_table c) r) = (c', None)"
    by (simp add: handle_def route_frame_def type_defs)
  from handle_activate_ok [OF ok(1) this ok(2,3)] have "cc_table c' = fst (Table_Activate (cc_table c) r)" by simp
  then show "route_active r c'"
    using p by (simp add: route_active_def route_pending_def Table_ByDevice_def Activate_active)
qed (simp_all add: route_frame_def route_pending_def route_active_def)

interpretation device_phases: two_phase k "device_frame TypeDevicePrepare rid d" "device_frame TypeDeviceUpdate rid d"
    "\<lambda>_. True" "device_current d" for k rid d
proof unfold_locales
  fix c e c'
  assume ok: "client_ok k c" "disk_ok (ce_disk e)" "same_codec (ce_disk e) k"
    and "handle e c (device_frame TypeDeviceUpdate rid d) = (c', None)"
  then have "apply_table_change e c (Table_UpdateDevice (cc_table c) d) = (c', None)"
    by (simp add: handle_def device_frame_def type_defs)
  from handle_update_ok [OF ok(1) this ok(2,3)] have "cc_table c' = fst (Table_UpdateDevice (cc_table c) d)" by simp
  then show "device_current d c'"
    by (auto simp: device_current_def Table_ByDevice_def UpdateDevice_active)
qed (simp_all add: device_frame_def device_current_def)

section \<open>Commit before activation\<close>

definition finish_phase :: "deploy_pc \<Rightarrow> bool" where
  "finish_phase pc \<longleftrightarrow> (case pc of Sending ph _ \<Rightarrow> ph = PhaseFinish | Waiting ph _ \<Rightarrow> ph = PhaseFinish
     | Returned r \<Rightarrow> r = None | Committing \<Rightarrow> False)"

definition commit_first :: "'st hub \<Rightarrow> bool" where
  "commit_first h \<longleftrightarrow> (\<forall>d. h_deploy h = Some d \<longrightarrow>
     f_RequestID (dp_finish d) = f_RequestID (dp_prepare d) \<and> dp_prepare d \<noteq> dp_finish d
     \<and> (finish_phase (dp_pc d) \<longrightarrow> dp_committed d)
     \<and> (\<forall>s \<in> set (h_all h). dp_finish d \<in> set (s_send s) \<longrightarrow> dp_committed d))"

text \<open>Steps that leave the deployment alone and queue at most frames of other requests.\<close>

definition only_others :: "string \<Rightarrow> session list \<Rightarrow> session list \<Rightarrow> bool" where
  "only_others rid ss ss' \<longleftrightarrow> (\<forall>s' \<in> set ss'. \<forall>f \<in> set (s_send s').
     f_RequestID f = rid \<longrightarrow> (\<exists>s \<in> set ss. f \<in> set (s_send s)))"

lemma only_others_upd:
  assumes "\<And>s f. f \<in> set (s_send (g s)) \<Longrightarrow> f_RequestID f = rid \<Longrightarrow> f \<in> set (s_send s)"
  shows "only_others rid (h_all h) (h_all (upd_session i g h))"
  unfolding only_others_def
proof (intro ballI impI)
  fix s' f assume s': "s' \<in> set (h_all (upd_session i g h))" and f: "f \<in> set (s_send s')" "f_RequestID f = rid"
  obtain j where j: "j < length (h_all h)" "s' = h_all (upd_session i g h) ! j"
    using s' by (auto simp: in_set_conv_nth)
  then have "f \<in> set (s_send (h_all h ! j))" using assms f by (simp add: upd_session_nth split: if_splits)
  then show "\<exists>s\<in>set (h_all h). f \<in> set (s_send s)" using j nth_mem by blast
qed

lemma commit_first_others:
  assumes "commit_first h" and "h_deploy h' = h_deploy h"
    and "\<And>d. h_deploy h = Some d \<Longrightarrow> only_others (f_RequestID (dp_prepare d)) (h_all h) (h_all h')"
  shows "commit_first h'"
  using assms unfolding commit_first_def only_others_def by metis

lemma commit_first_pc:
  assumes "commit_first h" and "only_others (f_RequestID (dp_prepare d)) (h_all h) (h_all h')"
    and "h_deploy h = Some d" and "h_deploy h' = Some (d\<lparr>dp_pc := pc\<rparr>)"
    and "finish_phase pc \<Longrightarrow> finish_phase (dp_pc d)"
  shows "commit_first h'"
  using assms unfolding commit_first_def only_others_def by (simp, metis)

lemma only_others_refl: "only_others rid ss ss"
  by (auto simp: only_others_def)

lemma only_others_take: "only_others rid (h_all h) (h_all (take_event i ev h))"
  unfolding take_event_def by (cases ev) (auto simp: only_others_refl intro!: only_others_upd)

lemma only_others_close: "only_others rid (h_all h) (h_all (Connect_close h i))"
proof -
  have "only_others rid (h_all h1) (h_all (upd_session i (\<lambda>s. s\<lparr>s_done := True\<rparr>) h1))" for h1 :: "'a hub"
    by (rule only_others_upd) simp
  from this [of "if gget (h_sessions h) (s_id (h_all h ! i)) = Some i
      then h\<lparr>h_sessions := gdel (s_id (h_all h ! i)) (h_sessions h)\<rparr> else h"]
  show ?thesis by (simp add: Connect_close_def Let_def split: if_splits)
qed

lemma commit_first_start:
  assumes "fresh_id h rid" and "f_RequestID prep = rid" and "f_RequestID fin = rid" and "prep \<noteq> fin"
  shows "commit_first (start_deployment h what prep fin commit)"
  using assms by (auto simp: commit_first_def start_deployment_def Let_def begin_phase_def finish_phase_def fresh_id_def)

lemma commit_first_send:
  assumes cf: "commit_first h" and d: "h_deploy h = Some d" and pc: "dp_pc d = Sending ph (i # rest)"
  shows "commit_first (send_next h d ph i rest)"
proof (cases ph)
  case PhaseFinish
  then have "dp_committed d" using cf d pc by (simp add: commit_first_def finish_phase_def)
  then show ?thesis using cf d by (simp add: commit_first_def send_next_def set_pc_def)
next
  case PhasePrepare
  have "dp_committed d" if s: "s \<in> set (h_all (enqueue (dp_prepare d) i h))" and f: "dp_finish d \<in> set (s_send s)" for s
  proof -
    obtain j where "j < length (h_all h)" "s = h_all (enqueue (dp_prepare d) i h) ! j"
      using s by (auto simp: in_set_conv_nth enqueue_def)
    then have "dp_finish d \<in> set (s_send (h_all h ! j)) \<and> j < length (h_all h)"
      using f cf d by (auto simp: enqueue_def upd_session_nth commit_first_def split: if_splits)
    then show ?thesis using cf d nth_mem by (metis commit_first_def)
  qed
  then show ?thesis using cf d PhasePrepare
    by (auto simp: commit_first_def send_next_def set_pc_def phase_frame_def after_send_def finish_phase_def)
qed

lemma commit_first_wait:
  assumes cf: "commit_first h" and d: "h_deploy h = Some d" and pc: "dp_pc d = Waiting ph (i # rest)"
  shows "commit_first (wait_next h d ph i rest ev)"
proof -
  let ?h = "wait_next h d ph i rest ev"
  have "h_all ?h = h_all (take_event i ev h)" using wait_next_sessions [of i ev h d ph rest] by (simp add: same_sessions_def)
  then have oo: "only_others (f_RequestID (dp_prepare d)) (h_all h) (h_all ?h)" by (simp add: only_others_take)
  define pc' where "pc' = (case wait_verdict (phase_frame d ph) (s_id (h_all h ! i)) ev of
      Again \<Rightarrow> Waiting ph (i # rest) | Next \<Rightarrow> after_wait ph rest | Fail err \<Rightarrow> Returned (Some (phase_error d ph err)))"
  have pc': "h_deploy ?h = Some (d\<lparr>dp_pc := pc'\<rparr>)" "finish_phase pc' \<Longrightarrow> ph = PhaseFinish"
    by (simp_all add: pc'_def wait_next_def Let_def set_pc_def)
      (cases ph; auto simp: after_wait_def finish_phase_def split: verdict.splits if_splits)
  show ?thesis by (rule commit_first_pc [OF cf oo d pc'(1)]) (use pc'(2) pc in \<open>simp add: finish_phase_def\<close>)
qed

lemma commit_first_step:
  assumes cf: "commit_first h" and "hub_step k h h'"
  shows "commit_first h'"
  using assms(2)
proof cases
  case (register f peer)
  then show ?thesis using cf by (auto simp: Connect_register_def commit_first_def split: if_splits)
next
  case (snapshot i rid listed)
  show ?thesis
  proof (rule commit_first_others [OF cf])
    show "h_deploy h' = h_deploy h"
      by (simp add: snapshot(1) Connect_snapshot_def Connect_close_def Let_def split: sum.splits)
    fix d assume "h_deploy h = Some d"
    then have "rid \<noteq> f_RequestID (dp_prepare d)" using snapshot(4) by (auto simp: other_id_def)
    then show "only_others (f_RequestID (dp_prepare d)) (h_all h) (h_all h')"
      by (cases listed) (auto simp: snapshot(1) Connect_snapshot_def only_others_close intro!: only_others_upd)
  qed
next
  case (close i)
  have "h_deploy h' = h_deploy h" by (simp add: close(1) Connect_close_def Let_def)
  then show ?thesis using commit_first_others [OF cf] only_others_close close(1) by blast
next
  case (heartbeat i t now)
  obtain b gs where h': "h' = (upd_session i (\<lambda>s. s\<lparr>s_ready := b\<rparr>) h)\<lparr>h_gateways := gs\<rparr>"
    using heartbeat(1) by (simp add: Connect_recv_def Let_def heartbeat_frame_def type_defs)
  show ?thesis by (rule commit_first_others [OF cf]) (auto simp: h' intro!: only_others_upd)
next
  case (handle_frame i f rest e now)
  then have i: "i < length (h_all h)" by (simp add: live_def)
  show ?thesis by (rule commit_first_others [OF cf])
    (auto simp: handle_frame(1) deliver_upd [OF i] recv_session_def split: list.splits intro!: only_others_upd)
next
  case (peer_background i g')
  show ?thesis by (rule commit_first_others [OF cf]) (auto simp: peer_background(1) intro!: only_others_upd)
next
  case (interrupt_send i rid did)
  show ?thesis by (rule commit_first_others [OF cf])
    (use interrupt_send(3) in \<open>auto simp: interrupt_send(1) enqueue_def Hub_Interrupt_frame_def other_id_def intro!: only_others_upd\<close>)
next
  case (draining_send i rid b)
  show ?thesis by (rule commit_first_others [OF cf])
    (use draining_send(3) in \<open>auto simp: draining_send(1) enqueue_def Hub_SetDraining_frame_def other_id_def intro!: only_others_upd\<close>)
next
  case (draining_finish i)
  show ?thesis by (rule commit_first_others [OF cf])
    (auto simp: draining_finish(1) Hub_SetDraining_finish_def intro!: only_others_upd)
next
  case (other_ack i a rest)
  show ?thesis by (rule commit_first_others [OF cf]) (simp_all add: other_ack(1) only_others_take, simp add: take_event_def)
next
  case (deploy_route rid r commit)
  then show ?thesis unfolding DeployRoute_def by (auto simp: route_frame_def type_defs zero_frame_def intro!: commit_first_start)
next
  case (deploy_device rid dv commit)
  then show ?thesis unfolding DeployDevice_def by (auto simp: device_frame_def type_defs zero_frame_def intro!: commit_first_start)
next
  case (send d ph i rest)
  then show ?thesis using commit_first_send [OF cf] by blast
next
  case (send_cancel d ph todo err)
  show ?thesis
    by (rule commit_first_pc [OF cf _ send_cancel(2), of _ "Returned (Some (phase_error d ph err))"])
      (simp_all add: send_cancel(1) send_cancelled_def set_pc_def only_others_refl finish_phase_def)
next
  case (wait d ph i rest ev)
  then show ?thesis using commit_first_wait [OF cf] by blast
next
  case (commit d)
  then show ?thesis using cf
    by (auto simp: run_commit_def set_pc_def commit_first_def finish_phase_def split: prod.splits option.splits)
qed

section \<open>What a deployment guarantees\<close>

definition hub_inv :: "disk_env \<Rightarrow> 'st hub \<Rightarrow> bool" where
  "hub_inv k h \<longleftrightarrow> hub_wf k h \<and> commit_first h
     \<and> (\<forall>prep fin prepared finished d. two_phase k prep fin prepared finished \<longrightarrow>
          h_deploy h = Some d \<longrightarrow> dp_prepare d = prep \<longrightarrow> dp_finish d = fin \<longrightarrow>
          deploy_tracked prep fin prepared finished h d)"

interpretation hub_inv: invariant_of "\<lambda>h. \<exists>st. h = NewHub st" "hub_step k" "hub_inv k" for k
proof unfold_locales
  show "\<And>h. \<exists>st. h = NewHub st \<Longrightarrow> hub_inv k h"
    by (auto simp: hub_inv_def NewHub_def hub_wf_def commit_first_def)
  fix h h' assume "hub_inv k h" and step: "hub_step k h h'"
  then show "hub_inv k h'"
    unfolding hub_inv_def using hub_wf_step [OF _ step] commit_first_step [OF _ step]
      two_phase.tracked_step [OF _ _ step] by blast
qed

lemma reach_tracked:
  assumes "reach (\<lambda>h. \<exists>st. h = NewHub st) (hub_step k) h" and "h_deploy h = Some d"
    and "two_phase k (dp_prepare d) (dp_finish d) prepared finished"
  shows "deploy_tracked (dp_prepare d) (dp_finish d) prepared finished h d"
  using hub_inv.reach_inv [OF assms(1)] assms(2,3) by (simp add: hub_inv_def)

lemma reach_peer_ok:
  assumes "reach (\<lambda>h. \<exists>st. h = NewHub st) (hub_step k) h" and "i < length (h_all h)"
  shows "client_ok k (s_peer (h_all h ! i))"
  using hub_inv.reach_inv [OF assms(1)] assms(2) hub_wfD(2) by (auto simp: hub_inv_def)



text \<open>
  C4: no gateway is ever asked to activate what the database has not committed: while the second frame of a
  deployment is queued for any gateway, or the deployment is in its second phase, its commit has succeeded.
\<close>

theorem activate_only_after_commit:
  assumes "reach (\<lambda>h. \<exists>st. h = NewHub st) (hub_step k) h" and "h_deploy h = Some d"
    and "(\<exists>s \<in> set (h_all h). dp_finish d \<in> set (s_send s)) \<or> finish_phase (dp_pc d)"
  shows "dp_committed d"
  using hub_inv.reach_inv [OF assms(1)] assms(2,3) by (auto simp: hub_inv_def commit_first_def)

section \<open>Concrete runs\<close>

text \<open>
  A scheduler that picks steps of the system; an operation that is not possible does nothing. It works for any store, given
  the routes a new session is sent, the world the gateways live in and the commit of the deployments.
\<close>

datatype sched =
    Register string
  | SendSnapshot nat string
  | Deliver nat
  | Beat nat
  | QueueDraining string string bool
  | QueueInterrupt nat string string
  | DrainDone nat
  | DropAck nat
  | Deploy string device_route
  | SendNext
  | WaitAck
  | WaitTimeout
  | CommitNow

record 'st sched_env =
  se_client :: client_env
  se_routes :: "device_route list"
  se_commit :: "'st \<Rightarrow> 'st \<times> go_error option"

definition running_code :: "'st hub \<Rightarrow> bool" where
  "running_code h = (case h_deploy h of None \<Rightarrow> False | Some d \<Rightarrow> (case dp_pc d of Returned _ \<Rightarrow> False | _ \<Rightarrow> True))"

definition no_frame_with :: "'st hub \<Rightarrow> string \<Rightarrow> bool" where
  "no_frame_with h rid = list_all (\<lambda>s. list_all (\<lambda>f. f_RequestID f \<noteq> rid) (s_send s @ s_acks s)) (h_all h)"

definition not_current_id :: "'st hub \<Rightarrow> string \<Rightarrow> bool" where
  "not_current_id h rid = (case h_deploy h of None \<Rightarrow> True | Some d \<Rightarrow> f_RequestID (dp_prepare d) \<noteq> rid)"

fun run_op :: "'st sched_env \<Rightarrow> 'st hub \<Rightarrow> sched \<Rightarrow> 'st hub" where
  "run_op e h (Register gid) =
     (case Connect_register h (zero_frame\<lparr>f_Type := TypeRegister, f_GatewayID := gid\<rparr>) demo_client of
        Inr h' \<Rightarrow> h' | Inl _ \<Rightarrow> h)"
| "run_op e h (SendSnapshot i rid) =
     (if i < length (h_all h) \<and> \<not> s_started (h_all h ! i) \<and> not_current_id h rid
      then Connect_snapshot h i rid (Inr (se_routes e)) else h)"
| "run_op e h (Deliver i) =
     (if live h i \<and> s_send (h_all h ! i) \<noteq> []
         \<and> snd (handle (se_client e) (s_peer (h_all h ! i)) (hd (s_send (h_all h ! i)))) = None
      then deliver (se_client e) h i 0 else h)"
| "run_op e h (Beat i) =
     (if live h i then Connect_recv h i (heartbeat_frame (s_peer (h_all h ! i)) 0) 0 else h)"
| "run_op e h (QueueDraining gid rid b) =
     (case Hub_SetDraining_target h gid of
        Inl _ \<Rightarrow> h
      | Inr i \<Rightarrow> if i < length (h_all h) \<and> not_current_id h rid then enqueue (Hub_SetDraining_frame rid b) i h else h)"
| "run_op e h (QueueInterrupt i rid did) =
     (if i < length (h_all h) \<and> i \<in> set (readySessions h) \<and> not_current_id h rid then enqueue (Hub_Interrupt_frame rid did) i h else h)"
| "run_op e h (DrainDone i) = Hub_SetDraining_finish h i"
| "run_op e h (DropAck i) =
     (case s_acks (h_all h ! i) of [] \<Rightarrow> h | a # _ \<Rightarrow> take_event i (GotAck a) h)"
| "run_op e h (Deploy rid r) =
     (if \<not> running_code h \<and> no_frame_with h rid then DeployRoute h rid r (se_commit e) else h)"
| "run_op e h SendNext =
     (case h_deploy h of None \<Rightarrow> h | Some d \<Rightarrow>
        (case dp_pc d of Sending ph (i # rest) \<Rightarrow> send_next h d ph i rest | _ \<Rightarrow> h))"
| "run_op e h WaitAck =
     (case h_deploy h of None \<Rightarrow> h | Some d \<Rightarrow>
        (case dp_pc d of
           Waiting ph (i # rest) \<Rightarrow>
             (case s_acks (h_all h ! i) of [] \<Rightarrow> h | a # _ \<Rightarrow> wait_next h d ph i rest (GotAck a))
         | _ \<Rightarrow> h))"
| "run_op e h WaitTimeout =
     (case h_deploy h of None \<Rightarrow> h | Some d \<Rightarrow>
        (case dp_pc d of Waiting ph (i # rest) \<Rightarrow> wait_next h d ph i rest DeadlineFired | _ \<Rightarrow> h))"
| "run_op e h CommitNow =
     (case h_deploy h of None \<Rightarrow> h | Some d \<Rightarrow> (case dp_pc d of Committing \<Rightarrow> run_commit h d | _ \<Rightarrow> h))"

definition run_from :: "'st sched_env \<Rightarrow> 'st \<Rightarrow> sched list \<Rightarrow> 'st hub" where
  "run_from e st ops = foldl (run_op e) (NewHub st) ops"

lemma sched_guards:
  "running_code h = running h" "no_frame_with h rid = fresh_id h rid" "not_current_id h rid = other_id h rid"
  by (auto simp: running_code_def running_def no_frame_with_def fresh_id_def not_current_id_def other_id_def
      list_all_iff split: option.splits deploy_pc.splits)

lemma run_op_step:
  assumes "disk_ok (ce_disk (se_client e))" and "same_codec (ce_disk (se_client e)) k"
  shows "run_op e h op = h \<or> hub_step k h (run_op e h op)"
proof (cases op)
  case (Register gid)
  have "client_ok k demo_client" by (rule client_inv.inv_init [OF demo_client_init])
  then show ?thesis using Register by (auto intro: hub_step.register split: sum.splits)
next
  case (SendSnapshot i rid)
  then show ?thesis by (auto simp: sched_guards intro: hub_step.snapshot)
next
  case (Deliver i)
  have "hub_step k h (deliver (se_client e) h i 0)" if "live h i" "s_send (h_all h ! i) \<noteq> []"
    "snd (handle (se_client e) (s_peer (h_all h ! i)) (hd (s_send (h_all h ! i)))) = None"
  proof (rule hub_step.handle_frame [OF that(1)])
    show "s_send (h_all h ! i) = hd (s_send (h_all h ! i)) # tl (s_send (h_all h ! i))" using that by simp
    show "errors_have_text (se_client e) (s_peer (h_all h ! i)) (hd (s_send (h_all h ! i)))"
      using that by (simp add: errors_have_text_def)
  qed (use assms in simp_all)
  then show ?thesis using Deliver by auto
next
  case (Beat i)
  then show ?thesis by (auto intro: hub_step.heartbeat)
next
  case (QueueDraining gid rid b)
  then show ?thesis by (auto simp: sched_guards intro: hub_step.draining_send split: sum.splits)
next
  case (QueueInterrupt i rid did)
  then show ?thesis by (auto simp: sched_guards intro: hub_step.interrupt_send)
next
  case (DrainDone i)
  then show ?thesis by (auto intro: hub_step.draining_finish)
next
  case (DropAck i)
  then show ?thesis by (auto intro: hub_step.other_ack split: list.splits)
next
  case (Deploy rid r)
  then show ?thesis by (auto simp: sched_guards intro: hub_step.deploy_route)
next
  case SendNext
  then show ?thesis by (auto intro: hub_step.send split: option.splits deploy_pc.splits list.splits)
next
  case WaitAck
  then show ?thesis
    by (auto simp: event_possible_def intro: hub_step.wait split: option.splits deploy_pc.splits list.splits)
next
  case WaitTimeout
  then show ?thesis
    by (auto simp: event_possible_def intro: hub_step.wait split: option.splits deploy_pc.splits list.splits)
next
  case CommitNow
  then show ?thesis by (auto intro: hub_step.commit split: option.splits deploy_pc.splits)
qed

lemma run_from_reach:
  assumes "disk_ok (ce_disk (se_client e))" and "same_codec (ce_disk (se_client e)) k"
  shows "reach (\<lambda>h. h = NewHub st) (hub_step k) (run_from e st ops)"
proof (induction ops rule: rev_induct)
  case Nil
  then show ?case by (auto simp: run_from_def intro: reach_init)
next
  case (snoc op ops)
  then show ?case using run_op_step [OF assms, of "run_from e st ops" op] reach_step by (fastforce simp: run_from_def)
qed

text \<open>A store that is only the flag whether \<open>commit\<close> has been called.\<close>

definition demo_commit :: "bool \<Rightarrow> bool \<times> go_error option" where
  "demo_commit st = (True, None)"

definition run_ops :: "sched list \<Rightarrow> bool hub" where
  "run_ops ops = run_from \<lparr>se_client = demo_env, se_routes = [demo_route], se_commit = demo_commit\<rparr> False ops"

lemma run_ops_reach: "reach (\<lambda>h. \<exists>st. h = NewHub st) (hub_step route_disk) (run_ops ops)"
  unfolding run_ops_def
  by (rule reach_weaken [OF run_from_reach]) (auto simp: demo_env_def route_disk_ok same_codec_def)

text \<open>One gateway connects, applies its first snapshot, becomes ready and receives a newer route.\<close>

definition connected :: "sched list" where
  "connected = [Register ''a'', SendSnapshot 0 ''1'', Deliver 0, Beat 0]"

definition prepared_run :: "sched list" where
  "prepared_run = connected @ [Deploy ''2'' newer_route, SendNext, Deliver 0, WaitAck, WaitAck]"

definition activating_run :: "sched list" where
  "activating_run = prepared_run @ [CommitNow, SendNext]"

definition deployed_run :: "sched list" where
  "deployed_run = activating_run @ [Deliver 0, WaitAck]"

definition deploy_of :: "sched list \<Rightarrow> bool deployment" where
  "deploy_of ops = the (h_deploy (run_ops ops))"



theorem activate_only_after_commit_witness:
  "let h = run_ops activating_run; d = deploy_of activating_run in
   reach (\<lambda>h. \<exists>st. h = NewHub st) (hub_step route_disk) h \<and> h_deploy h = Some d
   \<and> dp_finish d \<in> set (s_send (h_all h ! 0)) \<and> 0 < length (h_all h) \<and> dp_committed d"
proof -
  let ?h = "run_ops activating_run"
  let ?d = "deploy_of activating_run"
  have "h_deploy ?h \<noteq> None" by code_simp
  then have d: "h_deploy ?h = Some ?d" by (simp add: deploy_of_def)
  have f: "dp_finish ?d \<in> set (s_send (h_all ?h ! 0))" by code_simp
  have l: "0 < length (h_all ?h)" by code_simp
  have "(\<exists>s \<in> set (h_all ?h). dp_finish ?d \<in> set (s_send s)) \<or> finish_phase (dp_pc ?d)"
    using f nth_mem [OF l] by blast
  from activate_only_after_commit [OF run_ops_reach d this] show ?thesis
    using run_ops_reach [of activating_run] d f l by metis
qed

section \<open>What a deployment does not guarantee\<close>

text \<open>
  C21: a deployment that returns success need not have reached every connected gateway. Only sessions
  that are ready when it starts take part; one that is draining at that moment is skipped, nothing
  makes up for it later, and when it is undrained it reports READY and serves the superseded route.
\<close>

definition undrained_run :: "sched list" where
  "undrained_run = [Register ''a'', SendSnapshot 0 ''1'', Deliver 0, Beat 0,
     Register ''b'', SendSnapshot 1 ''2'', Deliver 1, Beat 1,
     QueueDraining ''b'' ''3'' True, Deliver 1, DrainDone 1,
     Deploy ''4'' newer_route, SendNext, Deliver 0, WaitAck, WaitAck, CommitNow, SendNext, Deliver 0, WaitAck,
     QueueDraining ''b'' ''5'' False, Deliver 1, DrainDone 1, Beat 1]"


text \<open>
  C22: an error from \<open>DeployRoute\<close> does not mean that the old route is still current. When a gateway misses the
  deadline of the second phase the call fails, although the database has activated the new route and the
  gateway may have, too.
\<close>

definition late_ack_run :: "sched list" where
  "late_ack_run = activating_run @ [WaitTimeout, Deliver 0]"


end
