(* ===== verification/PM_Requests.thy ===== *)
theory PM_Requests
  imports PM_Proposals PM_Deploy
begin

text \<open>
  Whole requests, from the handler through the store and the hub to the gateways.
\<close>

section \<open>Two requests for the same device\<close>

definition demo_api :: "byte \<Rightarrow> api_env" where
  "demo_api b = \<lparr>ae_randomInt = (\<lambda>k n. 0), ae_token = [b], ae_rand = (\<lambda>n. Inr (replicate n b)), ae_now = 9000,
     ae_serverConfig = (\<lambda>m p. None)\<rparr>"

definition demo_put :: "string \<Rightarrow> put_route_request" where
  "demo_put host = \<lparr>rq_Host = host, rq_Port = 1080, rq_Username = ''u'', rq_Password = ''p'', rq_ExpiresAt = None, rq_ExpectedVersion = 0\<rparr>"

definition put_a :: "db \<times> (response + device_route)" where
  "put_a = putRoute_begin (demo_api 1) (\<lambda>k. demo_pg) demo_db ''d1'' (Inr (demo_put ''a.example''))"

definition put_b :: "db \<times> (response + device_route)" where
  "put_b = putRoute_begin (demo_api 2) (\<lambda>k. demo_pg) (fst put_a) ''d1'' (Inr (demo_put ''b.example''))"

definition demo_put_route :: "string \<Rightarrow> string \<Rightarrow> device_route" where
  "demo_put_route cid host = zero_route\<lparr>r_DeviceID := ''d1'', r_DeviceUsername := ''d1'', r_IngressPort := 50001,
     r_IngressMethod := ''aes-256-gcm'', r_IngressPassword := ''secret-1'', r_Ingresses := [\<lparr>di_Port = 50001, di_Method = ''aes-256-gcm'',
       di_Password = ''secret-1'', di_Primary = True, di_CreatedAt = 3000\<rparr>], r_Version := 1, r_Status := RoutePending, r_UpdatedAt := 9000,
     r_Credential := zero_credential\<lparr>pc_ID := cid, pc_Host := host, pc_Port := 1080, pc_Username := ''u'', pc_Password := ''p'', pc_CreatedAt := 9000\<rparr>\<rparr>"

definition route_a :: device_route where "route_a = demo_put_route ''proxy-AQ'' ''a.example''"
definition route_b :: device_route where "route_b = demo_put_route ''proxy-Ag'' ''b.example''"

lemma put_a: "snd put_a = Inr route_a"
  by code_simp

lemma put_b: "snd put_b = Inr route_b"
  by code_simp

definition race_disk :: disk_env where
  "race_disk = demo_disk\<lparr>
     de_Marshal := (\<lambda>rs. if rs = [] then Inr [7] else if rs = [route_a\<lparr>r_Status := RouteActive\<rparr>] then Inr [8] else Inl (ErrLib ''unsupported'')),
     de_Unmarshal := (\<lambda>raw. if raw = [7] then Inr [] else Inr [route_a\<lparr>r_Status := RouteActive\<rparr>])\<rparr>"

definition race_env :: "db sched_env" where
  "race_env = \<lparr>se_client = \<lparr>ce_net = calm_env, ce_disk = race_disk\<rparr>, se_routes = [], se_commit = deployRoute_commit demo_pg route_a\<rparr>"

definition race_run :: "db hub" where
  "race_run = run_from race_env (fst put_b) [Register ''g'', SendSnapshot 0 ''1'', Deliver 0, Beat 0, Deploy ''2'' route_a, SendNext, Deliver 0,
     WaitAck, WaitAck, CommitNow, SendNext, Deliver 0, WaitAck]"

lemma race_disk_ok: "disk_ok race_disk"
proof -
  have "wire_route (route_a\<lparr>r_Status := RouteActive\<rparr>) = route_a\<lparr>r_Status := RouteActive\<rparr>"
    by (simp add: wire_route_def route_a_def demo_put_route_def zero_defs)
  then show ?thesis using demo_disk_ok by (simp add: disk_ok_def race_disk_def)
qed

lemma race_reach: "reach (\<lambda>h. h = NewHub (fst put_b)) (hub_step race_disk) race_run"
  unfolding race_run_def by (rule run_from_reach) (simp_all add: race_env_def race_disk_ok same_codec_def)

text \<open>What the run leaves, evaluated once.\<close>

definition race_outcome :: "db hub \<Rightarrow> bool" where
  "race_outcome h \<longleftrightarrow> h_deploy h \<noteq> None \<and> dp_pc (the (h_deploy h)) = Returned None
     \<and> dp_prepare (the (h_deploy h)) = route_frame TypePrepare ''2'' route_a \<and> dp_finish (the (h_deploy h)) = route_frame TypeActivate ''2'' route_a
     \<and> Table_ByDevice (cc_table (s_peer (h_all h ! 0))) ''d1'' = Some (route_a\<lparr>r_Status := RouteActive\<rparr>)
     \<and> (case GetRoute demo_pg (h_store h) ''d1'' of Inl _ \<Rightarrow> False
        | Inr r \<Rightarrow> r_Version r = r_Version route_a \<and> pc_Host (r_Credential r) = ''b.example'')"

lemma race_outcome: "race_outcome race_run"
  by code_simp


section \<open>Creating a device\<close>

text \<open>A device with one ingress, as the tables give it back.\<close>

definition stored_device :: "device \<Rightarrow> device" where
  "stored_device d = d\<lparr>d_Ingresses := [\<lparr>di_Port = d_IngressPort d, di_Method = d_IngressMethod d, di_Password = d_IngressPassword d,
       di_Primary = True, di_CreatedAt = pg_time (d_CreatedAt d)\<rparr>],
     d_CreatedAt := pg_time (d_CreatedAt d), d_UpdatedAt := pg_time (d_UpdatedAt d)\<rparr>"

lemma encrypt_plain: "aead_ok c \<Longrightarrow> env_ok c e \<Longrightarrow> encrypt e n p = Inr b \<Longrightarrow> reads c e' \<Longrightarrow> plain e' b = p"
  using Cipher_Encrypt_opens(1) [of c e n "bytes_of p" b] by (simp add: encrypt_def plain_def decrypt_def reads_def)

lemma no_rows_of_new_device:
  assumes "db_ok db" and "gget (db_devices db) did = None"
  shows "device_ingress_rows db did = []"
  using assms by (auto simp: db_ok_def ingresses_ok_def device_ingress_rows_def filter_empty_conv)

lemma CreateDevice_reads_back:
  assumes c: "aead_ok c" and e: "env_ok c e" and ok: "db_ok db" and s: "sealed c db" and rd: "reads c e'" and n: "0 < NonceSize c"
    and d: "d_Ingresses d = []" "d_IngressPort d \<noteq> 0" "d_IngressPassword d \<noteq> []"
    and run: "CreateDevice e db d = (db', None)"
  shows "GetDevice e' db' (d_ID d) = Inr (stored_device d)"
proof -
  let ?i = "\<lparr>di_Port = d_IngressPort d, di_Method = d_IngressMethod d, di_Password = d_IngressPassword d, di_Primary = True,
      di_CreatedAt = d_CreatedAt d\<rparr>"
  have eff: "Device_EffectiveIngresses d = [?i]" using d by (simp add: Device_EffectiveIngresses_def)
  from run obtain b db1 where b: "encrypt e 0 (d_IngressPassword d) = Inr b"
    and i: "insert_device db (device_to_row d (Some b)) = Inr db1" and ins: "insert_ingresses e 2 (d_ID d) [?i] db1 = Inr db'"
    using d(3) by (auto elim!: CreateDevice_success simp: eff)
  from ins obtain b2 where b2: "encrypt e 2 (d_IngressPassword d) = Inr b2" and r: "insert_ingress db1 (ingress_to_row (d_ID d) ?i b2) = Inr db'"
    by auto
  have none: "gget (db_devices db) (d_ID d) = None" and db1: "db1 = db\<lparr>db_devices := gput (d_ID d) (device_to_row d (Some b)) (db_devices db)\<rparr>"
    using i by (auto simp: insert_device_def device_to_row_def list_ex_iff map_of_eq_None_iff split: if_splits)
  have db': "db' = db1\<lparr>db_ingresses := db_ingresses db1 @ [ingress_to_row (d_ID d) ?i b2]\<rparr>"
    using r by (simp add: insert_ingress_def split: if_splits)
  have row: "gget (db_devices db') (d_ID d) = Some (device_to_row d (Some b))" by (simp add: db' db1)
  have rows: "device_ingress_rows db' (d_ID d) = [ingress_to_row (d_ID d) ?i b2]"
    using no_rows_of_new_device [OF ok none] by (simp add: db' db1 device_ingress_rows_def ingress_to_row_def)
  have s': "sealed c db'" using CreateDevice_sealed [OF c e s, of d] run by simp
  obtain pw where pw: "decrypt_nullable e' (Some b) = Inr pw"
    and g: "GetDevice e' db' (d_ID d) = Inr (row_to_device (device_to_row d (Some b)) pw
        (map (ingress_view e') (sort_key ingress_order (device_ingress_rows db' (d_ID d)))))"
    using GetDevice_row [OF rd s' row] by (auto simp: device_to_row_def)
  have "pw = d_IngressPassword d"
    using decrypt_nullable_plain [OF pw] encrypt_plain [OF c e b rd] rd n by (simp add: reads_def)
  then show ?thesis using encrypt_plain [OF c e b2 rd] d(2)
    by (simp add: g rows ingress_view_def ingress_to_row_def row_to_device_def device_to_row_def stored_device_def)
qed

lemma create_attempts_result:
  "create_attempts a ae pe n k db d err = (db', d', r) \<Longrightarrow>
     (case r of
        Some _ \<Rightarrow> db' = db
      | None \<Rightarrow> (n = 0 \<and> err = None)
          \<or> (\<exists>j. d' = d\<lparr>d_IngressPort := api_ingressPortStart a + ae_randomInt ae j (api_ingressPortEnd a - api_ingressPortStart a + 1)\<rparr>
               \<and> CreateDevice (pe j) db d' = (db', None)))"
proof (induction n arbitrary: k d err)
  case (Suc n)
  let ?d = "d\<lparr>d_IngressPort := api_ingressPortStart a + ae_randomInt ae k (api_ingressPortEnd a - api_ingressPortStart a + 1)\<rparr>"
  obtain db1 r1 where c: "CreateDevice (pe k) db ?d = (db1, r1)" by fastforce
  show ?case
  proof (cases r1)
    case None
    then show ?thesis using Suc.prems c by (auto simp: Let_def)
  next
    case (Some e)
    then have db1: "db1 = db" using c CreateDevice_failure by blast
    show ?thesis
    proof (cases "errors_is e ErrConflict")
      case True
      then have "create_attempts a ae pe n (Suc k) db ?d (Some e) = (db', d', r)" using Suc.prems c Some db1 by (simp add: Let_def)
      from Suc.IH [OF this] show ?thesis by (auto split: option.splits)
    next
      case False
      then show ?thesis using Suc.prems c Some db1 by (auto simp: Let_def)
    qed
  qed
qed (auto split: option.splits)

lemma audit_keeps: "\<exists>l. audit e db action resource details = db\<lparr>db_audit := l\<rparr>"
proof (cases "pe_io e 0")
  case None
  then show ?thesis by (auto simp: audit_def AppendAudit_def transact_def with_error_def stmt_def)
next
  case (Some err)
  then show ?thesis
    by (intro exI [of _ "db_audit db"]) (simp add: audit_def AppendAudit_def transact_def with_error_def stmt_def)
qed

lemma GetDevice_audit: "GetDevice e' (audit e db action resource details) did = GetDevice e' db did"
proof -
  obtain l where "audit e db action resource details = db\<lparr>db_audit := l\<rparr>" using audit_keeps by blast
  then show ?thesis
    by (simp add: GetDevice_def GetDevice_at_def select_device_def loadDeviceIngresses_def device_ingress_rows_def)
qed

lemma answer_status [simp]:
  "status (writeError st m) = st" "status (writeJSON st v) = st" "status (writeStoreError err) \<noteq> 201"
  by (simp_all add: writeError_def writeJSON_def writeStoreError_def)

lemma choose_credentials_valid:
  "choose_credentials ae m pw = Inr p \<Longrightarrow> SS_Validate (ae_serverConfig ae) m p = None"
  "choose_credentials ae m pw = Inl resp \<Longrightarrow> status resp = 400"
  by (auto simp: choose_credentials_def split: sum.splits option.splits if_splits)

text \<open>The steps of a creation that is answered with 201.\<close>

lemma createDevice_201:
  assumes "createDevice a ae pe db request = (db', resp)" and "status resp = 201"
  obtains req did meth password d j db1 where "request = Inr req" "validDeviceID did" "cd_ID req \<noteq> [] \<longrightarrow> did = cd_ID req"
    "SS_Validate (ae_serverConfig ae) meth password = None" "CreateDevice (pe j) db d = (db1, None)"
    "\<exists>port. d = (new_device ae did meth password)\<lparr>d_IngressPort := port\<rparr>
       \<and> (if cd_ListenPort req \<noteq> 0 then port = cd_ListenPort req
          else port = api_ingressPortStart a + ae_randomInt ae j (api_ingressPortEnd a - api_ingressPortStart a + 1))"
    "db' = audit (pe 64) db1 ''device.create'' did []"
proof -
  obtain req where req: "request = Inr req" using assms by (cases request) (auto simp: createDevice_def)
  define did where "did = (if cd_ID req = [] then ''device-'' @ randomToken (ae_token ae) else cd_ID req)"
  define meth where "meth = (if cd_ShadowsocksMethod req = [] then LegacyAES256GCM else cd_ShadowsocksMethod req)"
  have v: "validDeviceID did" using assms by (auto simp: createDevice_def req did_def Let_def split: if_splits)
  obtain password where pw: "choose_credentials ae meth (cd_ShadowsocksPassword req) = Inr password"
    using assms v choose_credentials_valid(2)
    by (cases "choose_credentials ae meth (cd_ShadowsocksPassword req)") (auto simp: createDevice_def req did_def meth_def Let_def)
  let ?d = "new_device ae did meth password"
  show thesis
  proof (cases "cd_ListenPort req = 0")
    case False
    obtain db1 r where c: "CreateDevice (pe 0) db (?d\<lparr>d_IngressPort := cd_ListenPort req\<rparr>) = (db1, r)" by fastforce
    have "r = None" "db' = audit (pe 64) db1 ''device.create'' did []"
      using assms v pw False c by (auto simp: createDevice_def req did_def [symmetric] meth_def [symmetric] Let_def split: if_splits option.splits)
    then show thesis using that [OF req v] choose_credentials_valid(1) [OF pw] c False did_def by auto
  next
    case True
    obtain db1 d r where c: "create_attempts a ae pe 64 0 db ?d None = (db1, d, r)" by (metis prod_cases3)
    have "r = None" "db' = audit (pe 64) db1 ''device.create'' did []"
      using assms v pw True c by (auto simp: createDevice_def req did_def [symmetric] meth_def [symmetric] Let_def split: if_splits option.splits)
    then show thesis using that [OF req v] choose_credentials_valid(1) [OF pw] create_attempts_result [OF c] True did_def by auto
  qed
qed

lemma createDevice_refused:
  assumes "createDevice a ae pe db request = (db', resp)" and "status resp \<noteq> 201"
  shows "db' = db"
proof (cases request)
  case (Inl err)
  then show ?thesis using assms by (simp add: createDevice_def)
next
  case (Inr req)
  show ?thesis using assms CreateDevice_failure create_attempts_result
    by (fastforce simp: createDevice_def Inr Let_def split: if_splits sum.splits prod.splits option.splits)
qed

text \<open>
  C28: a request to create a device either is answered with 201, and then the device is in the tables with a valid id and credentials, on the port that was asked for or one of
  the configured range, and can be read back; or it is refused and the tables are as before.
\<close>

theorem create_device_all_or_nothing:
  assumes "aead_ok c" and "\<forall>k. env_ok c (pe k)" and "db_ok db" and "sealed c db" and "reads c e" and "0 < NonceSize c"
    and "0 < api_ingressPortStart a" and "api_ingressPortStart a \<le> api_ingressPortEnd a"
    and "\<forall>k n. 0 < n \<longrightarrow> 0 \<le> ae_randomInt ae k n \<and> ae_randomInt ae k n < n"
    and "createDevice a ae pe db request = (db', resp)"
  shows "(status resp \<noteq> 201 \<longrightarrow> db' = db)
    \<and> (status resp = 201 \<longrightarrow> (\<exists>req did d. request = Inr req \<and> GetDevice e db' did = Inr d
         \<and> d_ID d = did \<and> validDeviceID did \<and> (cd_ID req \<noteq> [] \<longrightarrow> did = cd_ID req)
         \<and> SS_Validate (ae_serverConfig ae) (d_IngressMethod d) (d_IngressPassword d) = None
         \<and> (if cd_ListenPort req \<noteq> 0 then d_IngressPort d = cd_ListenPort req
            else api_ingressPortStart a \<le> d_IngressPort d \<and> d_IngressPort d \<le> api_ingressPortEnd a)))"
proof (intro conjI impI)
  assume "status resp \<noteq> 201"
  then show "db' = db" using createDevice_refused assms(10) by blast
next
  assume "status resp = 201"
  with assms(10) obtain req did meth password d j db1 where req: "request = Inr req"
    and did: "validDeviceID did" "cd_ID req \<noteq> [] \<longrightarrow> did = cd_ID req"
    and valid: "SS_Validate (ae_serverConfig ae) meth password = None" and create: "CreateDevice (pe j) db d = (db1, None)"
    and port: "\<exists>port. d = (new_device ae did meth password)\<lparr>d_IngressPort := port\<rparr>
       \<and> (if cd_ListenPort req \<noteq> 0 then port = cd_ListenPort req
          else port = api_ingressPortStart a + ae_randomInt ae j (api_ingressPortEnd a - api_ingressPortStart a + 1))"
    and db': "db' = audit (pe 64) db1 ''device.create'' did []"
    by (rule createDevice_201)
  obtain port where d: "d = (new_device ae did meth password)\<lparr>d_IngressPort := port\<rparr>"
    and range: "if cd_ListenPort req \<noteq> 0 then port = cd_ListenPort req else api_ingressPortStart a \<le> port \<and> port \<le> api_ingressPortEnd a"
    using port spec [OF spec [OF assms(9), of j], of "api_ingressPortEnd a - api_ingressPortStart a + 1"] assms(8) by (auto split: if_splits)
  have "port \<noteq> 0" using range assms(7) by (auto split: if_splits)
  moreover have "password \<noteq> []" using Validate_NoneD [OF valid] by simp
  ultimately have "GetDevice e db1 (d_ID d) = Inr (stored_device d)"
    using assms create by (intro CreateDevice_reads_back) (simp_all add: d new_device_def zero_device_def)
  then have "GetDevice e db' did = Inr (stored_device d)" by (simp add: db' GetDevice_audit d new_device_def)
  then show "\<exists>req did d. request = Inr req \<and> GetDevice e db' did = Inr d \<and> d_ID d = did \<and> validDeviceID did \<and> (cd_ID req \<noteq> [] \<longrightarrow> did = cd_ID req)
      \<and> SS_Validate (ae_serverConfig ae) (d_IngressMethod d) (d_IngressPassword d) = None
      \<and> (if cd_ListenPort req \<noteq> 0 then d_IngressPort d = cd_ListenPort req
         else api_ingressPortStart a \<le> d_IngressPort d \<and> d_IngressPort d \<le> api_ingressPortEnd a)"
    using req did valid range by (intro exI [of _ req] exI [of _ did] exI [of _ "stored_device d"]) (simp add: stored_device_def d new_device_def)
qed

theorem create_device_all_or_nothing_witness:
  "\<exists>db' resp did d. createDevice (NewAPI ''t'' ''h'') (demo_api 1) (\<lambda>k. demo_pg) demo_db
       (Inr \<lparr>cd_ID = ''d7'', cd_ShadowsocksMethod = [], cd_ShadowsocksPassword = [], cd_ListenPort = 0\<rparr>) = (db', resp)
     \<and> status resp = 201 \<and> GetDevice demo_pg db' did = Inr d \<and> d_ID d = ''d7'' \<and> 50000 \<le> d_IngressPort d"
proof -
  let ?req = "\<lparr>cd_ID = ''d7'', cd_ShadowsocksMethod = [], cd_ShadowsocksPassword = [], cd_ListenPort = 0\<rparr>"
  let ?run = "createDevice (NewAPI ''t'' ''h'') (demo_api 1) (\<lambda>k. demo_pg) demo_db (Inr ?req)"
  have st: "status (snd ?run) = 201" by code_simp
  have run: "?run = (fst ?run, snd ?run)" by simp
  have env: "\<forall>k :: nat. env_ok demo_aead demo_pg" using demo_pg_ok by simp
  have ports: "0 < api_ingressPortStart (NewAPI ''t'' ''h'')" "api_ingressPortStart (NewAPI ''t'' ''h'') \<le> api_ingressPortEnd (NewAPI ''t'' ''h'')"
    by (simp_all add: NewAPI_def)
  have draw: "\<forall>k n. 0 < n \<longrightarrow> 0 \<le> ae_randomInt (demo_api 1) k n \<and> ae_randomInt (demo_api 1) k n < n" by (simp add: demo_api_def)
  show ?thesis
    using create_device_all_or_nothing [OF demo_aead_ok env demo_db_ok demo_reads ports draw run] st
    by (intro exI [of _ "fst ?run"] exI [of _ "snd ?run"]) (auto simp: NewAPI_def)
qed

section \<open>Putting a route\<close>

definition put_route :: "api_env \<Rightarrow> string \<Rightarrow> device \<Rightarrow> put_route_request \<Rightarrow> device_route" where
  "put_route ae did d req = pending_route ae did d (rq_ExpectedVersion req)
     (zero_credential\<lparr>pc_ID := ''proxy-'' @ randomToken (ae_token ae), pc_Host := rq_Host req, pc_Port := rq_Port req,
        pc_Username := rq_Username req, pc_Password := rq_Password req, pc_ExpiresAt := rq_ExpiresAt req, pc_CreatedAt := ae_now ae\<rparr>)"

definition valid_put :: "put_route_request \<Rightarrow> bool" where
  "valid_put req \<longleftrightarrow> rq_Host req \<noteq> [] \<and> 1 \<le> rq_Port req \<and> rq_Port req \<le> 65535 \<and> 0 \<le> rq_ExpectedVersion req"

lemma GetDevice_missing: "reads c e \<Longrightarrow> gget (db_devices db) did = None \<Longrightarrow> GetDevice e db did = Inl ErrNotFound"
  by (simp add: GetDevice_def GetDevice_at_def select_device_def stmt_def reads_def attempt_def with_error_def mapErr_def)

lemma putRoute_begin_valid:
  assumes "valid_put req" and "GetDevice (pe 0) db did = Inr d"
  shows "putRoute_begin ae pe db did (Inr req) = deployRoute_begin (pe 1) db (put_route ae did d req) (rq_ExpectedVersion req)"
  using assms by (simp add: putRoute_begin_def valid_put_def put_route_def)



end
