(* ===== verification/PM_Overlap.thy ===== *)
theory PM_Overlap
  imports PM_Requests
begin

text \<open>
  Two requests that add an ingress to one device and overlap. \<open>addIngress\<close> reads the device before it waits for its turn to deploy, so
  the second request deploys a device that does not have the ingress of the first.
\<close>

section \<open>The two requests\<close>

definition overlap_password :: "int \<Rightarrow> string" where
  "overlap_password port = (if port = 50002 then ''secret-2'' else ''secret-3'')"

definition overlap_request :: "int \<Rightarrow> go_error + add_ingress_request" where
  "overlap_request port = Inr \<lparr>ar_Method = ''aes-256-gcm'', ar_Password = overlap_password port, ar_ListenPort = port\<rparr>"

definition overlap_begin :: "int \<Rightarrow> response + device_ingress \<times> device" where
  "overlap_begin port = add_begin (NewAPI ''t'' ''h'') (demo_api 1) (\<lambda>k. demo_pg) demo_db ''d1'' (overlap_request port)"

definition overlap_ingress :: "int \<Rightarrow> device_ingress" where
  "overlap_ingress port = \<lparr>di_Port = port, di_Method = ''aes-256-gcm'', di_Password = overlap_password port, di_Primary = False, di_CreatedAt = 9000\<rparr>"

definition overlap_device :: "int \<Rightarrow> device" where
  "overlap_device port = demo_device\<lparr>d_Ingresses := [\<lparr>di_Port = 50001, di_Method = ''aes-256-gcm'', di_Password = ''secret-1'', di_Primary = True, di_CreatedAt = 3000\<rparr>,
     overlap_ingress port]\<rparr>"

lemma overlap_begin: "overlap_begin 50002 = Inr (overlap_ingress 50002, overlap_device 50002)" "overlap_begin 50003 = Inr (overlap_ingress 50003, overlap_device 50003)"
  by code_simp code_simp

section \<open>The run\<close>

definition overlap_route :: device_route where
  "overlap_route = route_a\<lparr>r_Status := RouteActive\<rparr>"

definition overlap_saved :: "device_route list \<Rightarrow> byte option" where
  "overlap_saved rs = (if rs = [overlap_route] then Some 7 else if rs = [overlap_route\<lparr>r_Ingresses := d_Ingresses (overlap_device 50002)\<rparr>] then Some 8
     else if rs = [overlap_route\<lparr>r_Ingresses := d_Ingresses (overlap_device 50003)\<rparr>] then Some 9 else None)"

definition overlap_disk :: disk_env where
  "overlap_disk = demo_disk\<lparr>
     de_Marshal := (\<lambda>rs. case overlap_saved rs of None \<Rightarrow> Inl (ErrLib ''unsupported'') | Some b \<Rightarrow> Inr [b]),
     de_Unmarshal := (\<lambda>raw. Inr [if raw = [7] then overlap_route else overlap_route\<lparr>r_Ingresses := d_Ingresses (overlap_device (if raw = [8] then 50002 else 50003))\<rparr>])\<rparr>"

definition overlap_env :: "db sched_env" where
  "overlap_env = \<lparr>se_client = \<lparr>ce_net = calm_env, ce_disk = overlap_disk\<rparr>, se_routes = [overlap_route], se_commit = (\<lambda>db. (db, None))\<rparr>"

definition two_phases :: "sched list" where
  "two_phases = [SendNext, Deliver 0, WaitAck, CommitNow, SendNext, Deliver 0, WaitAck]"

definition overlap_connected :: "db hub" where
  "overlap_connected = run_from overlap_env demo_db [Register ''g'', SendSnapshot 0 ''1'', Deliver 0, Beat 0, DropAck 0]"

definition overlap_add :: "string \<Rightarrow> int \<Rightarrow> db hub \<Rightarrow> db hub" where
  "overlap_add rid port h = foldl (run_op overlap_env) (DeployDevice h rid (overlap_device port) (add_commit demo_pg ''d1'' (overlap_ingress port))) two_phases"

definition overlap_first :: "db hub" where
  "overlap_first = overlap_add ''2'' 50002 overlap_connected"

definition overlap_second :: "db hub" where
  "overlap_second = overlap_add ''3'' 50003 overlap_first"

definition overlap_ports :: "db hub \<Rightarrow> int list \<times> int list" where
  "overlap_ports h = (case GetDevice demo_pg (h_store h) ''d1'' of Inl _ \<Rightarrow> [] | Inr d \<Rightarrow> map di_Port (d_Ingresses d),
     map fst (g_listeners (cc_Gateway (s_peer (h_all h ! 0)))))"

lemma overlap_disk_ok: "disk_ok overlap_disk"
proof -
  have "wire_route overlap_route = overlap_route" "wire_route (overlap_route\<lparr>r_Ingresses := xs\<rparr>) = overlap_route\<lparr>r_Ingresses := xs\<rparr>" for xs
    by (simp_all add: wire_route_def overlap_route_def route_a_def demo_put_route_def zero_defs)
  then show ?thesis using demo_disk_ok by (auto simp: disk_ok_def overlap_disk_def overlap_saved_def split: option.splits if_splits)
qed

definition overlap_idle :: "string \<Rightarrow> db hub \<Rightarrow> bool" where
  "overlap_idle rid h \<longleftrightarrow> \<not> running_code h \<and> no_frame_with h rid"

lemma overlap_continue: "(hub_step overlap_disk)\<^sup>*\<^sup>* h (foldl (run_op overlap_env) h ops)"
proof (induction ops rule: rev_induct)
  case (snoc op ops)
  have "disk_ok (ce_disk (se_client overlap_env))" "same_codec (ce_disk (se_client overlap_env)) overlap_disk"
    by (simp_all add: overlap_env_def overlap_disk_ok same_codec_def)
  then show ?case using run_op_step [of overlap_env overlap_disk "foldl (run_op overlap_env) h ops" op] snoc.IH by (fastforce intro: rtranclp.rtrancl_into_rtrancl)
qed simp

lemma overlap_deploy:
  assumes "overlap_idle rid h"
  shows "(hub_step overlap_disk)\<^sup>*\<^sup>* h (foldl (run_op overlap_env) (DeployDevice h rid d commit) ops)"
proof (rule converse_rtranclp_into_rtranclp)
  show "hub_step overlap_disk h (DeployDevice h rid d commit)"
    using assms by (intro hub_step.deploy_device) (simp_all add: overlap_idle_def sched_guards)
qed (rule overlap_continue)

text \<open>What the run leaves, evaluated once.\<close>

definition overlap_served :: "device \<Rightarrow> db hub \<Rightarrow> bool" where
  "overlap_served dv h \<longleftrightarrow> (case h_deploy h of None \<Rightarrow> False | Some d \<Rightarrow> dp_pc d = Returned None \<and> f_Device (dp_finish d) = Some dv)"

definition overlap_check2 :: "db hub \<Rightarrow> bool" where
  "overlap_check2 h \<longleftrightarrow> overlap_served (overlap_device 50003) h \<and> overlap_ports h = ([50001, 50002, 50003], [50001, 50003])"

definition overlap_check1 :: "db hub \<Rightarrow> bool" where
  "overlap_check1 h \<longleftrightarrow> overlap_served (overlap_device 50002) h \<and> overlap_idle ''3'' h \<and> overlap_check2 (overlap_add ''3'' 50003 h)"

definition overlap_check :: "db hub \<Rightarrow> bool" where
  "overlap_check h \<longleftrightarrow> overlap_idle ''2'' h \<and> overlap_check1 (overlap_add ''2'' 50002 h)"

lemma overlap_check: "overlap_check overlap_connected"
  by code_simp

lemma overlap_facts:
  "overlap_idle ''2'' overlap_connected" "overlap_served (overlap_device 50002) overlap_first" "overlap_idle ''3'' overlap_first"
  "overlap_served (overlap_device 50003) overlap_second" "overlap_ports overlap_second = ([50001, 50002, 50003], [50001, 50003])"
  using overlap_check unfolding overlap_check_def overlap_check1_def overlap_check2_def overlap_first_def overlap_second_def by blast+

lemma reach_rtranclp: "step\<^sup>*\<^sup>* s t \<Longrightarrow> reach init step s \<Longrightarrow> reach init step t"
  by (induction rule: rtranclp_induct) (auto intro: reach_step)

lemma overlap_reach:
  "reach (\<lambda>h. h = NewHub demo_db) (hub_step overlap_disk) overlap_first" "(hub_step overlap_disk)\<^sup>*\<^sup>* overlap_first overlap_second"
proof -
  have "reach (\<lambda>h. h = NewHub demo_db) (hub_step overlap_disk) overlap_connected"
    unfolding overlap_connected_def by (rule run_from_reach) (simp_all add: overlap_env_def overlap_disk_ok same_codec_def)
  then show "reach (\<lambda>h. h = NewHub demo_db) (hub_step overlap_disk) overlap_first"
    unfolding overlap_first_def overlap_add_def by (rule reach_rtranclp [OF overlap_deploy [OF overlap_facts(1)]])
  show "(hub_step overlap_disk)\<^sup>*\<^sup>* overlap_first overlap_second"
    unfolding overlap_second_def overlap_add_def by (rule overlap_deploy [OF overlap_facts(3)])
qed


end
