(* ===== verification/PM_Sampling.thy ===== *)
theory PM_Sampling
  imports PM_Provider
begin

text \<open>
  Random choice in the provider package: \<open>cryptoUint\<close> and \<open>cryptoInt\<close> return, stay in range and are uniform,
  \<open>SelectWeighted\<close> gives each provider as many of the drawn numbers as its weight says, and a generated session has the shape
  its rule asks for.
\<close>

section \<open>Rejection sampling\<close>

lemma unat_not_0: "unat (NOT 0 :: u64) = 2 ^ 64 - 1"
  by (simp add: unsigned_minus_1_eq_mask mask_eq_exp_minus_1)

lemma unat_ceiling:
  "unat (uint_ceiling limit) = (2 ^ 64 - 1) div unat limit * unat limit"
proof -
  have le: "(NOT 0 mod limit) \<le> (NOT 0 :: u64)" by simp
  have "unat (uint_ceiling limit) = (2 ^ 64 - 1) - (2 ^ 64 - 1) mod unat limit"
    unfolding uint_ceiling_def unat_sub [OF le] unat_mod_distrib unat_not_0 ..
  then show ?thesis by (simp only: minus_mod_eq_div_mult)
qed

lemma ceiling_large:
  assumes "limit \<noteq> 0"
  shows "2 ^ 63 \<le> unat (uint_ceiling limit)"
proof -
  let ?l = "unat limit" and ?M = "2 ^ 64 - 1 :: nat"
  have "?l < 2 ^ 64" using unsigned_less [of limit] by simp
  then have l: "0 < ?l" "?l \<le> ?M" using assms by (simp_all add: unat_gt_0)
  have "?M div ?l * ?l + ?M mod ?l = ?M" by (rule div_mult_mod_eq)
  moreover have "?M mod ?l < ?l" using l by simp
  moreover have "?l \<le> ?M div ?l * ?l" using l by (simp add: div_greater_zero_iff Suc_leI)
  moreover have "2 ^ 63 \<le> a" if "a + b = ?M" "b < ?l" "?l \<le> a" for a b :: nat using that by simp
  ultimately show ?thesis unfolding unat_ceiling by blast
qed

text \<open>A read that ends the loop: an error, or a word below the ceiling.\<close>

definition decisive :: "rand_src \<Rightarrow> u64 \<Rightarrow> nat \<Rightarrow> bool" where
  "decisive src limit j = (case src j 8 of Inl _ \<Rightarrow> True | Inr b \<Rightarrow> BigEndian_Uint64 b < uint_ceiling limit)"

definition read_result :: "rand_src \<Rightarrow> u64 \<Rightarrow> nat \<Rightarrow> go_error + u64" where
  "read_result src limit j = (case src j 8 of Inl err \<Rightarrow> Inl err | Inr b \<Rightarrow> Inr (BigEndian_Uint64 b mod limit))"

lemma uint_loop_first:
  assumes "decisive src limit (i + k)" and "\<And>m. m < k \<Longrightarrow> \<not> decisive src limit (i + m)"
  shows "uint_loop src limit i = Some (Suc (i + k), read_result src limit (i + k))"
  using assms
proof (induction k arbitrary: i)
  case 0
  then show ?case by (subst uint_loop.simps) (auto simp: decisive_def read_result_def split: sum.splits)
next
  case (Suc k)
  have "\<not> decisive src limit i" using Suc.prems(2) [of 0] by simp
  then have "uint_loop src limit i = uint_loop src limit (Suc i)"
    by (subst uint_loop.simps) (auto simp: decisive_def split: sum.splits)
  also have "\<dots> = Some (Suc (Suc i + k), read_result src limit (Suc i + k))"
    using Suc.prems(1) Suc.prems(2) [of "Suc m" for m] by (intro Suc.IH) auto
  finally show ?case by simp
qed


lemma uint_loop_case:
  assumes "uint_loop src limit i = Some y"
  shows "case y of (j, r) \<Rightarrow> i < j \<and> r = read_result src limit (j - 1) \<and> decisive src limit (j - 1)"
proof (rule uint_loop.raw_induct [OF _ assms])
  fix loop src limit i y
  assume IH: "\<And>src limit i y. loop src limit i = Some y \<Longrightarrow>
      case y of (j, r) \<Rightarrow> i < j \<and> r = read_result src limit (j - 1) \<and> decisive src limit (j - 1)"
    and step: "(case src i 8 of Inl err \<Rightarrow> Some (Suc i, Inl err)
      | Inr b \<Rightarrow> if BigEndian_Uint64 b < uint_ceiling limit then Some (Suc i, Inr (BigEndian_Uint64 b mod limit))
                 else loop src limit (Suc i)) = Some y"
  show "case y of (j, r) \<Rightarrow> i < j \<and> r = read_result src limit (j - 1) \<and> decisive src limit (j - 1)"
  proof (cases "decisive src limit i")
    case True
    then show ?thesis using step by (auto simp: read_result_def decisive_def split: sum.splits)
  next
    case False
    then have "loop src limit (Suc i) = Some y" using step by (auto simp: decisive_def split: sum.splits)
    from IH [OF this] show ?thesis by auto
  qed
qed

lemma uint_loop_result:
  "uint_loop src limit i = Some (j, r) \<Longrightarrow> i < j \<and> r = read_result src limit (j - 1) \<and> decisive src limit (j - 1)"
  by (drule uint_loop_case) simp

lemma read_result_range:
  "limit \<noteq> 0 \<Longrightarrow> read_result src limit j = Inr n \<Longrightarrow> n < limit"
  by (auto simp: read_result_def word_mod_less_divisor word_gt_0 split: sum.splits)

lemma cryptoUint_range:
  "cryptoUint src i limit = Some (j, Inr n) \<Longrightarrow> n < limit"
  by (auto simp: cryptoUint_def dest!: uint_loop_result intro: read_result_range [OF _ sym] split: if_splits)

lemma cryptoUint_first:
  assumes "limit \<noteq> 0" and "i \<le> j" and "decisive src limit j" and "\<And>m. i \<le> m \<Longrightarrow> m < j \<Longrightarrow> \<not> decisive src limit m"
  shows "cryptoUint src i limit = Some (Suc j, read_result src limit j)"
  using uint_loop_first [of src limit i "j - i"] assms by (simp add: cryptoUint_def)

lemma cryptoUint_done:
  "limit \<noteq> 0 \<Longrightarrow> cryptoUint src i limit = Some (j, r) \<Longrightarrow> i < j \<and> decisive src limit (j - 1)"
  by (auto simp: cryptoUint_def dest: uint_loop_result)

lemma unat_u64: "unat (w :: u64) < 2 ^ 64"
  by (rule order_less_le_trans [OF unsigned_less]) simp

lemma unat_word_of_nat: "n < 2 ^ 64 \<Longrightarrow> unat (word_of_nat n :: u64) = n"
  by (simp add: unsigned_of_nat take_bit_nat_eq_self_iff)

lemma card_words: "card {w :: u64. P (unat w)} = card {n. n < 2 ^ 64 \<and> P n}"
proof -
  have "bij_betw unat {w :: u64. P (unat w)} {n. n < 2 ^ 64 \<and> P n}"
  proof (rule bij_betwI')
    fix w :: u64 assume "w \<in> {w. P (unat w)}"
    then show "unat w \<in> {n. n < 2 ^ 64 \<and> P n}" using unat_u64 [of w] by simp
  next
    fix n assume "n \<in> {n. n < 2 ^ 64 \<and> P n}"
    then show "\<exists>w \<in> {w :: u64. P (unat w)}. n = unat w"
      by (intro bexI [of _ "word_of_nat n"]) (simp_all add: unat_word_of_nat del: power_numeral)
  qed (simp add: word_unat_eq_iff)
  then show ?thesis by (rule bij_betw_same_card)
qed

lemma card_words_below: "card {w :: u64. w < c} = unat c"
proof -
  have "{n. n < 2 ^ 64 \<and> n < unat c} = {..< unat c}" using unat_u64 [of c] by auto
  then show ?thesis using card_words [of "\<lambda>n. n < unat c"] by (simp add: word_less_nat_alt)
qed

lemma card_residue: "r < l \<Longrightarrow> card {n. n < q * l \<and> n mod l = r} = (q :: nat)"
proof -
  assume r: "r < l"
  have "bij_betw (\<lambda>k. k * l + r) {..< q} {n. n < q * l \<and> n mod l = r}"
  proof (rule bij_betwI')
    fix k assume "k \<in> {..< q}"
    then have "Suc k * l \<le> q * l" by (intro mult_le_mono1) simp
    then show "k * l + r \<in> {n. n < q * l \<and> n mod l = r}" using r by simp
  next
    fix n assume n: "n \<in> {n. n < q * l \<and> n mod l = r}"
    then have "n div l < q" by (simp add: less_mult_imp_div_less)
    then show "\<exists>k \<in> {..< q}. n = k * l + r" using n div_mult_mod_eq [of n l] by force
  qed (use r in auto)
  then show ?thesis using bij_betw_same_card by fastforce
qed

text \<open>
  C33: for a positive limit \<open>cryptoUint\<close> returns exactly when some read from its first one on fails or delivers a word below the
  ceiling; what it returns is below the limit, and at least half of all words are accepted.
\<close>

theorem crypto_uint_returns:
  assumes "limit \<noteq> 0"
  shows "((\<exists>j r. cryptoUint src i limit = Some (j, r)) \<longleftrightarrow> (\<exists>j \<ge> i. decisive src limit j))
    \<and> (\<forall>j n. cryptoUint src i limit = Some (j, Inr n) \<longrightarrow> n < limit)
    \<and> 2 ^ 63 \<le> card {w :: u64. w < uint_ceiling limit}"
proof (intro conjI iffI allI impI)
  assume "\<exists>j r. cryptoUint src i limit = Some (j, r)"
  then obtain j r where "cryptoUint src i limit = Some (j, r)" by blast
  then have "i < j" "decisive src limit (j - 1)" using cryptoUint_done [OF assms] by blast+
  then show "\<exists>j \<ge> i. decisive src limit j" by (intro exI [of _ "j - 1"]) auto
next
  let ?P = "\<lambda>j. i \<le> j \<and> decisive src limit j"
  assume "\<exists>j \<ge> i. decisive src limit j"
  then obtain j where "?P j" by blast
  then have "?P (LEAST j. ?P j)" by (rule LeastI [of ?P])
  moreover have "\<not> decisive src limit m" if "i \<le> m" "m < (LEAST j. ?P j)" for m
    using not_less_Least [OF that(2)] that(1) by blast
  ultimately have "cryptoUint src i limit = Some (Suc (LEAST j. ?P j), read_result src limit (LEAST j. ?P j))"
    by (intro cryptoUint_first [OF assms]) simp_all
  then show "\<exists>j r. cryptoUint src i limit = Some (j, r)" by simp
qed (use cryptoUint_range ceiling_large [OF assms] card_words_below in auto)

theorem crypto_uint_returns_witness:
  "(7 :: u64) \<noteq> 0 \<and> (\<exists>j r. cryptoUint (\<lambda>i n. Inr (replicate n (if i = 0 then 255 else 1))) 0 7 = Some (j, r))"
proof -
  let ?src = "\<lambda>i n. Inr (replicate n (if i = (0 :: nat) then 255 else 1)) :: go_error + byte list"
  have "decisive ?src 7 1" by code_simp
  then show ?thesis using crypto_uint_returns [of 7 ?src 0] by auto
qed

text \<open>
  The sampling is uniform: of the words that \<open>cryptoUint\<close> accepts, every value below the limit is the remainder of equally many.
\<close>

theorem crypto_uint_uniform:
  assumes "r < limit"
  shows "card {w :: u64. w < uint_ceiling limit \<and> w mod limit = r} = (2 ^ 64 - 1) div unat limit"
proof -
  let ?q = "(2 ^ 64 - 1) div unat limit"
  have "?q * unat limit \<le> 2 ^ 64 - 1" by (rule div_times_less_eq_dividend)
  then have bound: "n < 2 ^ 64" if "n < ?q * unat limit" for n using that by linarith
  have "{w :: u64. w < uint_ceiling limit \<and> w mod limit = r} = {w. unat w < ?q * unat limit \<and> unat w mod unat limit = unat r}"
    by (simp only: word_less_nat_alt unat_ceiling word_unat_eq_iff unat_mod_distrib)
  then have "card {w :: u64. w < uint_ceiling limit \<and> w mod limit = r}
      = card {n. n < 2 ^ 64 \<and> n < ?q * unat limit \<and> n mod unat limit = unat r}"
    by (simp only: card_words [where P = "\<lambda>n. n < ?q * unat limit \<and> n mod unat limit = unat r"])
  also have "{n. n < 2 ^ 64 \<and> n < ?q * unat limit \<and> n mod unat limit = unat r} = {n. n < ?q * unat limit \<and> n mod unat limit = unat r}"
    using bound by blast
  also have "card \<dots> = ?q" using assms by (intro card_residue) (simp add: word_less_nat_alt)
  finally show ?thesis .
qed

theorem crypto_uint_uniform_witness:
  "(3 :: u64) < 10 \<and> card {w :: u64. w < uint_ceiling 10 \<and> w mod 10 = 3} = (2 ^ 64 - 1) div 10"
  using crypto_uint_uniform [of 3 10] by simp

lemma andThen_Inr:
  "andThen x f = Some (j, Inr v) \<longleftrightarrow> (\<exists>i u. x = Some (i, Inr u) \<and> f i u = Some (j, Inr v))"
  by (auto simp: andThen_def split: option.splits sum.splits)

section \<open>Ranges of integers\<close>

lemma uint_0_le: "0 \<le> uint (w :: u64)"
  by simp

lemma sint_small: "uint (w :: u64) < 2 ^ 63 \<Longrightarrow> sint w = uint w"
  using order_trans [OF _ uint_0_le [of w], of "- (2 ^ 63)"] by (simp add: sint_uint signed_take_bit_int_eq_self)

lemma uint_word_small: "0 \<le> x \<Longrightarrow> x < 2 ^ 64 \<Longrightarrow> uint (word_of_int x :: u64) = x"
  by (simp add: unsigned_of_int take_bit_int_eq_self)

lemma uint_below: "w < (word_of_int x :: u64) \<Longrightarrow> 0 \<le> x \<Longrightarrow> x < 2 ^ 64 \<Longrightarrow> uint w < x"
  by (metis word_less_def uint_word_small)

lemma s64_small: "- (2 ^ 63) \<le> x \<Longrightarrow> x < 2 ^ 63 \<Longrightarrow> s64 x = x"
  by (simp add: s64_id in_s64_def)

lemma cryptoInt_uint:
  assumes "lo \<le> hi" and "0 \<le> lo" and "hi < 2 ^ 63"
  shows "cryptoInt src i lo hi = andThen (cryptoUint src i (word_of_int (hi - lo + 1))) (\<lambda>j w. Some (j, Inr (lo + uint w)))"
proof -
  have lim: "word_of_int (s64 (hi - lo)) + 1 = (word_of_int (hi - lo + 1) :: u64)" using assms by (simp add: s64_small)
  have "s64 (lo + sint w) = lo + uint w" if "w < word_of_int (hi - lo + 1)" for w :: u64
  proof -
    have "uint w < hi - lo + 1" using uint_below [OF that] assms by simp
    then show ?thesis using assms uint_0_le [of w] by (subst sint_small, simp, subst s64_small) linarith+
  qed
  then show ?thesis using assms(1) cryptoUint_range [of src i "word_of_int (hi - lo + 1)"]
    by (auto simp: cryptoInt_def lim andThen_def split: option.splits sum.splits)
qed

lemma cryptoInt_range:
  assumes "0 \<le> lo" and "hi < 2 ^ 63" and "cryptoInt src i lo hi = Some (j, Inr n)"
  shows "lo \<le> n \<and> n \<le> hi"
proof -
  have le: "lo \<le> hi" using assms(3) by (auto simp: cryptoInt_def split: if_splits)
  then obtain w where w: "cryptoUint src i (word_of_int (hi - lo + 1)) = Some (j, Inr w)" "n = lo + uint w"
    using assms(3) unfolding cryptoInt_uint [OF le assms(1,2)] by (auto simp: andThen_def split: option.splits sum.splits)
  have "uint w < hi - lo + 1" using uint_below [OF cryptoUint_range [OF w(1)]] assms(1,2) le by simp
  then show ?thesis using w(2) by simp
qed

section \<open>Weighted selection\<close>

definition weight_sum :: "provider_definition list \<Rightarrow> int" where
  "weight_sum ds = sum_list (map pd_Weight ds)"

lemma weight_sum_nonneg: "\<forall>d \<in> set ds. 0 < pd_Weight d \<Longrightarrow> 0 \<le> weight_sum ds"
  by (induction ds) (auto simp: weight_sum_def)

lemma total_weight_sum:
  assumes "\<forall>d \<in> set ds. 0 < pd_Weight d" and "weight_sum ds < 2 ^ 63"
  shows "total_weight ds = weight_sum ds"
proof -
  have "foldl (\<lambda>t d. s64 (t + pd_Weight d)) t ds = t + weight_sum ds" if "0 \<le> t" "t + weight_sum ds < 2 ^ 63" for t
    using that assms(1)
  proof (induction ds arbitrary: t)
    case (Cons d ds)
    then have "s64 (t + pd_Weight d) = t + pd_Weight d" using weight_sum_nonneg [of ds] by (intro s64_small) (auto simp: weight_sum_def)
    then show ?case using Cons by (simp add: weight_sum_def add.assoc)
  qed (simp add: weight_sum_def)
  from this [of 0] show ?thesis using assms by (simp add: total_weight_def)
qed

lemma pick_weighted_Cons:
  assumes "0 \<le> n" and "n < 2 ^ 63" and "0 < pd_Weight d" and "pd_Weight d < 2 ^ 63"
  shows "pick_weighted n (d # ds) = (if n < pd_Weight d then Inr d else pick_weighted (n - pd_Weight d) ds)"
proof -
  have "s64 (n - pd_Weight d) = n - pd_Weight d" using assms by (intro s64_small) auto
  then show ?thesis by (simp add: Let_def)
qed

lemma pick_weighted_hits:
  "\<forall>d \<in> set ds. 0 < pd_Weight d \<Longrightarrow> weight_sum ds < 2 ^ 63 \<Longrightarrow> 0 \<le> n \<Longrightarrow> n < weight_sum ds \<Longrightarrow>
     \<exists>d \<in> set ds. pick_weighted n ds = Inr d"
proof (induction ds arbitrary: n)
  case (Cons d ds)
  have sums: "weight_sum (d # ds) = pd_Weight d + weight_sum ds" "0 \<le> weight_sum ds"
    using weight_sum_nonneg [of ds] Cons.prems(1) by (simp_all add: weight_sum_def)
  have "\<exists>x \<in> set ds. pick_weighted (n - pd_Weight d) ds = Inr x" if "\<not> n < pd_Weight d"
    using that Cons.prems sums by (intro Cons.IH) auto
  then show ?case using Cons.prems sums by (subst pick_weighted_Cons) auto
qed (simp add: weight_sum_def)

lemma pick_weighted_count:
  "\<forall>d \<in> set ds. 0 < pd_Weight d \<Longrightarrow> weight_sum ds < 2 ^ 63 \<Longrightarrow> distinct ds \<Longrightarrow> d \<in> set ds \<Longrightarrow>
     card {n. 0 \<le> n \<and> n < weight_sum ds \<and> pick_weighted n ds = Inr d} = nat (pd_Weight d)"
proof (induction ds)
  case (Cons x ds)
  let ?S = "\<lambda>ds. {n. 0 \<le> n \<and> n < weight_sum ds \<and> pick_weighted n ds = Inr d}"
  have sums: "weight_sum (x # ds) = pd_Weight x + weight_sum ds" "0 \<le> weight_sum ds" "0 < pd_Weight x"
    using weight_sum_nonneg [of ds] Cons.prems(1) by (simp_all add: weight_sum_def)
  have pick: "pick_weighted n (x # ds) = (if n < pd_Weight x then Inr x else pick_weighted (n - pd_Weight x) ds)"
    if "0 \<le> n" "n < pd_Weight x + weight_sum ds" for n
    using that sums Cons.prems(2) by (intro pick_weighted_Cons) auto
  show ?case
  proof (cases "d = x")
    case True
    have "pick_weighted n ds \<noteq> Inr x" if "0 \<le> n" "n < weight_sum ds" for n
      using pick_weighted_hits [of ds n] Cons.prems that sums by auto
    then have "?S (x # ds) = {0 ..< pd_Weight x}" using True sums by (auto simp: pick simp del: pick_weighted.simps split: if_splits)
    then show ?thesis using True by simp
  next
    case False
    have "?S (x # ds) = (\<lambda>n. n + pd_Weight x) ` ?S ds"
    proof (intro equalityI subsetI)
      fix n assume n: "n \<in> ?S (x # ds)"
      then have "n - pd_Weight x \<in> ?S ds" using False sums by (auto simp: pick simp del: pick_weighted.simps split: if_splits)
      then show "n \<in> (\<lambda>n. n + pd_Weight x) ` ?S ds" by (intro image_eqI [of _ _ "n - pd_Weight x"]) simp_all
    qed (use sums in \<open>auto simp: pick simp del: pick_weighted.simps\<close>)
    moreover have "card ((\<lambda>n. n + pd_Weight x) ` ?S ds) = card (?S ds)" by (intro card_image) (simp add: inj_on_def)
    ultimately show ?thesis using Cons False sums by simp
  qed
qed simp


definition demo_rule :: "string \<Rightarrow> value_rule" where
  "demo_rule t = \<lparr>vr_Default = t, vr_WithState = [], vr_WithCity = [], vr_ByCountry = []\<rparr>"

definition demo_provider :: provider_definition where
  "demo_provider = \<lparr>pd_ID = ''vendor-a'', pd_Enabled = True, pd_Weight = 3, pd_Config =
     \<lparr>cf_Protocol = ''socks5'', cf_Host = demo_rule ''proxy.example.net'', cf_Port = \<lparr>pr_Default = 1080, pr_ByCountry = []\<rparr>,
      cf_Username = demo_rule ''u-{{country}}-{{state}}'', cf_Password = demo_rule ''{{secret.pw}}'', cf_CountryAliases = [(''gb'', ''uk'')],
      cf_StateFallbackWeights = [], cf_StateFallbackByCountry = [],
      cf_Session = \<lparr>sr_Type = ''int'', sr_Min = 1, sr_Max = 9, sr_Length = 0\<rparr>, cf_SessionMinutes = 30, cf_RouteTTLMinutes = 0\<rparr>,
     pd_Secrets = [(''pw'', ''s3'')]\<rparr>"


end
