(* ===== verification/PM_Generate.thy ===== *)
theory PM_Generate
  imports PM_Sampling
begin

text \<open>
  Generated endpoints: what \<open>Generate\<close> guarantees of its result, the shape of a session, and that \<open>render\<close> computes the
  value of a template token by token.
\<close>

section \<open>Templates\<close>

definition brace_free :: "string \<Rightarrow> bool" where
  "brace_free s \<longleftrightarrow> (\<forall>c \<in> set s. \<not> is_brace c)"

lemma brace_free_simps [simp]:
  "brace_free []" "brace_free (c # s) \<longleftrightarrow> \<not> is_brace c \<and> brace_free s" "brace_free (s @ t) \<longleftrightarrow> brace_free s \<and> brace_free t"
  by (auto simp: brace_free_def)

lemma brace_free_concat: "(\<And>x. x \<in> set xs \<Longrightarrow> brace_free (f x)) \<Longrightarrow> brace_free (concat (map f xs))"
  by (auto simp: brace_free_def)

definition expr :: "string \<Rightarrow> string" where
  "expr name = ''{{'' @ name @ ''}}''"

lemma prefix_name_close:
  assumes "brace_free k" and "brace_free n" and "prefix (k @ ''}}'') (n @ ''}}'' @ rest)"
  shows "k = n"
  using assms
proof (induction k arbitrary: n)
  case Nil
  then show ?case by (cases n) (auto simp: is_brace_def)
next
  case (Cons c k)
  then show ?case by (cases n) (auto simp: is_brace_def)
qed

lemma ReplaceAll_hit: "old \<noteq> [] \<Longrightarrow> ReplaceAll old v (old @ rest) = v @ ReplaceAll old v rest"
  by (cases old) simp_all

lemma ReplaceAll_skip: "brace_free s \<Longrightarrow> ReplaceAll (expr k) v (s @ rest) = s @ ReplaceAll (expr k) v rest"
  by (induction s) (auto simp: expr_def is_brace_def)

lemma ReplaceAll_close: "ReplaceAll (expr k) v (''}}'' @ rest) = ''}}'' @ ReplaceAll (expr k) v rest"
  by (simp add: expr_def)

lemma ReplaceAll_miss:
  assumes "brace_free k" and "brace_free n" and "n \<noteq> k"
  shows "ReplaceAll (expr k) v (expr n @ rest) = expr n @ ReplaceAll (expr k) v rest"
proof -
  have "\<not> prefix (k @ ''}}'') (n @ ''}}'' @ rest)" using prefix_name_close [of k n rest] assms by blast
  moreover have "\<not> prefix (expr k) (''{'' @ n @ ''}}'' @ rest)"
    using assms(2) by (cases n) (auto simp: expr_def is_brace_def)
  ultimately have "ReplaceAll (expr k) v (expr n @ rest) = ''{{'' @ ReplaceAll (expr k) v (n @ ''}}'' @ rest)"
    by (simp add: expr_def)
  then show ?thesis using ReplaceAll_skip [OF assms(2)] ReplaceAll_close by (simp add: expr_def)
qed

text \<open>The pieces of a template, what they stand for, and the text after the variables of \<open>K\<close> have been replaced.\<close>

datatype token = Lit string | Var string | Secret string

fun token_text :: "token \<Rightarrow> string" where
  "token_text (Lit s) = s"
| "token_text (Var k) = expr k"
| "token_text (Secret n) = expr (''secret.'' @ n)"

fun token_value :: "(string, string) gomap \<Rightarrow> (string, string) gomap \<Rightarrow> token \<Rightarrow> string" where
  "token_value vars secrets (Lit s) = s"
| "token_value vars secrets (Var k) = gget_str vars k"
| "token_value vars secrets (Secret n) = gget_str secrets n"

fun token_ok :: "(string, string) gomap \<Rightarrow> (string, string) gomap \<Rightarrow> token \<Rightarrow> bool" where
  "token_ok vars secrets (Lit s) = brace_free s"
| "token_ok vars secrets (Var k) = (gget vars k \<noteq> None \<and> brace_free k \<and> brace_free (gget_str vars k))"
| "token_ok vars secrets (Secret n) = (gget secrets n \<noteq> None \<and> n \<noteq> [] \<and> list_all is_name_char n
     \<and> gget vars (''secret.'' @ n) = None \<and> brace_free (gget_str secrets n))"

fun partial_text :: "(string, string) gomap \<Rightarrow> string set \<Rightarrow> token \<Rightarrow> string" where
  "partial_text vars K (Var k) = (if k \<in> K then gget_str vars k else expr k)"
| "partial_text vars K t = token_text t"

lemma name_char_no_brace: "is_name_char c \<Longrightarrow> \<not> is_brace c"
  by (auto simp: is_name_char_def is_brace_def is_lower_alnum_def is_upper_def Let_def)

lemma name_brace_free: "list_all is_name_char n \<Longrightarrow> brace_free n"
  by (auto simp: brace_free_def list_all_iff name_char_no_brace)

lemma replace_one_var:
  assumes "\<forall>t \<in> set ts. token_ok vars secrets t" and "gget vars k \<noteq> None" and "brace_free k"
  shows "ReplaceAll (expr k) (gget_str vars k) (concat (map (partial_text vars K) ts)) = concat (map (partial_text vars (insert k K)) ts)"
  using assms(1)
proof (induction ts)
  case (Cons t ts)
  have IH: "ReplaceAll (expr k) (gget_str vars k) (concat (map (partial_text vars K) ts)) = concat (map (partial_text vars (insert k K)) ts)"
    using Cons by simp
  show ?case
  proof (cases t)
    case (Lit s)
    then show ?thesis using Cons.prems IH by (simp add: ReplaceAll_skip)
  next
    case (Var x)
    have "expr k \<noteq> []" by (simp add: expr_def)
    then show ?thesis using Cons.prems IH assms(3) Var
      by (auto simp: ReplaceAll_skip ReplaceAll_hit ReplaceAll_miss)
  next
    case (Secret n)
    have "''secret.'' @ n \<noteq> k" "brace_free (''secret.'' @ n)"
      using Cons.prems Secret assms(2) name_brace_free by (auto simp: is_brace_def)
    then show ?thesis using Secret IH ReplaceAll_miss [OF assms(3), of "''secret.'' @ n"] by (simp del: append.simps)
  qed
qed simp

lemma replace_vars_tokens:
  assumes ok: "\<forall>t \<in> set ts. token_ok vars secrets t" and "\<forall>k \<in> set ks. gget vars k \<noteq> None \<and> brace_free k"
  shows "fold (\<lambda>key out. ReplaceAll (''{{'' @ key @ ''}}'') (gget_str vars key) out) ks (concat (map (partial_text vars K) ts))
     = concat (map (partial_text vars (set ks \<union> K)) ts)"
  using assms(2)
proof (induction ks arbitrary: K)
  case (Cons k ks)
  then show ?case using replace_one_var [OF ok, of k K] Cons.IH [of "insert k K"] by (simp add: expr_def del: append.simps)
qed simp

lemma partial_none: "concat (map (partial_text vars {}) ts) = concat (map token_text ts)"
proof -
  have "partial_text vars {} t = token_text t" for t by (cases t) simp_all
  then show ?thesis by (simp cong: map_cong)
qed

text \<open>After the variables, the text of a token: its value, or the secret expression.\<close>

fun var_value :: "(string, string) gomap \<Rightarrow> token \<Rightarrow> string" where
  "var_value vars (Var k) = gget_str vars k"
| "var_value vars t = token_text t"

lemma replace_vars_text:
  assumes "\<forall>t \<in> set ts. token_ok vars secrets t" and "\<forall>k \<in> fst ` set vars. brace_free k"
  shows "replace_vars vars (concat (map token_text ts)) = concat (map (var_value vars) ts)"
proof -
  have "\<forall>k \<in> set (sort (map fst vars)). gget vars k \<noteq> None \<and> brace_free k"
    using assms(2) by (auto simp: map_of_eq_None_iff image_iff)
  then have "replace_vars vars (concat (map token_text ts)) = concat (map (partial_text vars (fst ` set vars)) ts)"
    using replace_vars_tokens [OF assms(1), of "sort (map fst vars)" "{}"] by (simp add: replace_vars_def partial_none)
  moreover have "partial_text vars (fst ` set vars) t = var_value vars t" if "t \<in> set ts" for t
  proof -
    have "token_ok vars secrets t" using assms(1) that by blast
    then show ?thesis by (cases t) (auto dest: map_of_SomeD intro: rev_image_eqI)
  qed
  ultimately show ?thesis by (metis (no_types, lifting) map_eq_conv)
qed

lemma match_secret_no_brace: "\<not> is_brace c \<Longrightarrow> match_secret (c # s) = None"
  by (auto simp: match_secret_def secret_open_def is_brace_def)

lemma match_secret_hit:
  assumes "n \<noteq> []" and "list_all is_name_char n"
  shows "match_secret (expr (''secret.'' @ n) @ rest) = Some (n, rest)"
proof -
  have close: "\<not> is_name_char CHR ''}''" by (simp add: is_name_char_def is_lower_alnum_def is_upper_def)
  have "takeWhile is_name_char (n @ ''}}'' @ rest) = n" "dropWhile is_name_char (n @ ''}}'' @ rest) = ''}}'' @ rest"
    using assms(2) close by (auto simp: list_all_iff takeWhile_append2 dropWhile_append2)
  then show ?thesis using assms(1)
    by (simp add: match_secret_def secret_open_def brace_close_def expr_def Let_def)
qed

lemma replace_secrets_skip:
  "brace_free s \<Longrightarrow> replace_secrets secrets m (s @ rest) = (case replace_secrets secrets m rest of (out, m') \<Rightarrow> (s @ out, m'))"
  by (induction s) (auto simp: match_secret_no_brace split: prod.splits)

lemma replace_secrets_hit:
  assumes "n \<noteq> []" and "list_all is_name_char n" and "gget secrets n = Some v"
  shows "replace_secrets secrets m (expr (''secret.'' @ n) @ rest) = (case replace_secrets secrets m rest of (out, m') \<Rightarrow> (v @ out, m'))"
proof -
  obtain c cs where e: "expr (''secret.'' @ n) @ rest = c # cs" by (simp add: expr_def)
  show ?thesis using match_secret_hit [OF assms(1,2), of rest] assms(3) unfolding e by (simp split: prod.splits)
qed

lemma replace_secrets_text:
  "\<forall>t \<in> set ts. token_ok vars secrets t \<Longrightarrow>
     replace_secrets secrets m (concat (map (var_value vars) ts)) = (concat (map (token_value vars secrets) ts), m)"
proof (induction ts)
  case (Cons t ts)
  then show ?case
    by (cases t) (auto simp: replace_secrets_skip replace_secrets_hit gget_str_def simp del: append.simps)
qed simp

lemma find_any_brace_free: "brace_free s \<Longrightarrow> find_any s = []"
  by (induction s) (auto simp: match_any_def is_brace_def)

text \<open>
  C34: \<open>render\<close> computes the value of a template token by token: text stays, a variable becomes its value and a secret
  expression the secret, when no text, value or name of a variable contains a brace.
\<close>

theorem render_by_tokens:
  assumes "\<forall>t \<in> set ts. token_ok vars secrets t" and "\<forall>k \<in> fst ` set vars. brace_free k"
  shows "render (concat (map token_text ts)) vars secrets = Inr (concat (map (token_value vars secrets) ts))"
proof -
  have "brace_free (token_value vars secrets t)" if "t \<in> set ts" for t
    using assms(1) that by (cases t) auto
  then have "find_any (concat (map (token_value vars secrets) ts)) = []"
    by (intro find_any_brace_free brace_free_concat)
  then show ?thesis using replace_vars_text [OF assms] replace_secrets_text [OF assms(1)] by (simp add: render_def)
qed

theorem render_by_tokens_witness:
  "token_ok [(''session'', ''7'')] [(''pw'', ''s3'')] (Var ''session'') \<and> token_ok [(''session'', ''7'')] [(''pw'', ''s3'')] (Secret ''pw'')
   \<and> render ''{{secret.pw}}-{{session}}'' [(''session'', ''7'')] [(''pw'', ''s3'')] = Inr ''s3-7''"
proof -
  let ?ts = "[Secret ''pw'', Lit ''-'', Var ''session'']"
  have ok: "\<forall>t \<in> set ?ts. token_ok [(''session'', ''7'')] [(''pw'', ''s3'')] t"
    and keys: "\<forall>k \<in> fst ` set [(''session'', ''7'')]. brace_free k"
    by (simp_all add: is_brace_def is_name_char_def is_lower_alnum_def is_upper_def gget_str_def)
  show ?thesis using render_by_tokens [OF ok keys] ok by (simp add: expr_def gget_str_def)
qed

definition generated_username :: "(nat \<times> (go_error + endpoint)) option \<Rightarrow> string" where
  "generated_username r = (case r of Some (j, Inr ep) \<Rightarrow> ep_Username ep | _ \<Rightarrow> [])"

lemma generated_usernameD:
  "generated_username r = c # u \<Longrightarrow> \<exists>j ep. r = Some (j, Inr ep) \<and> ep_Username ep = c # u"
  by (auto simp: generated_username_def split: option.splits sum.splits)


section \<open>Endpoints\<close>

text \<open>\<open>find_any\<close> finds nothing exactly when no expression is left anywhere.\<close>

definition has_expression :: "string \<Rightarrow> bool" where
  "has_expression s \<longleftrightarrow> (\<exists>a name b. s = a @ expr name @ b \<and> name \<noteq> [] \<and> brace_free name)"

lemma match_any_expr: "name \<noteq> [] \<Longrightarrow> brace_free name \<Longrightarrow> match_any (expr name @ b) = Some (expr name)"
proof -
  assume n: "name \<noteq> []" "brace_free name"
  have close: "is_brace CHR ''}''" by (simp add: is_brace_def)
  have "takeWhile (\<lambda>c. \<not> is_brace c) (name @ ''}}'' @ b) = name" "dropWhile (\<lambda>c. \<not> is_brace c) (name @ ''}}'' @ b) = ''}}'' @ b"
    using n(2) close by (auto simp: brace_free_def takeWhile_append2 dropWhile_append2)
  then show ?thesis using n(1) by (simp add: match_any_def expr_def brace_close_def Let_def)
qed

lemma find_any_append: "name \<noteq> [] \<Longrightarrow> brace_free name \<Longrightarrow> find_any (a @ expr name @ b) \<noteq> []"
proof (induction a)
  case Nil
  obtain c cs where "expr name @ b = c # cs" by (simp add: expr_def)
  then show ?case using match_any_expr [OF Nil, of b] by (simp add: expr_def)
next
  case (Cons c a)
  then show ?case by (auto simp: match_any_def Let_def split: option.splits if_splits)
qed

lemma find_any_none: "find_any s = [] \<Longrightarrow> \<not> has_expression s"
  using find_any_append by (auto simp: has_expression_def)

lemma render_no_expression: "render t vars secrets = Inr out \<Longrightarrow> \<not> has_expression out"
  by (auto simp: render_def find_any_none split: prod.splits if_splits)

lemma selectPort_range:
  assumes "validatePortRule rule = None" and "selectPort src i rule country = Some (j, Inr port)"
  shows "1 \<le> port \<and> port \<le> 65535"
proof (cases "gget (pr_ByCountry rule) country")
  case None
  then show ?thesis using assms by (auto simp: selectPort_def validatePortRule_def split: if_splits option.splits)
next
  case (Some v)
  have "find (\<lambda>kv. \<not> valid_range kv) (pr_ByCountry rule) = None"
    using assms(1) by (auto simp: validatePortRule_def split: if_splits option.splits)
  then have "valid_range (country, v)" using map_of_SomeD [OF Some] by (auto simp: find_None_iff)
  then have "1 \<le> pg_From v" "pg_To v \<le> 65535" by (simp_all add: valid_range_def)
  moreover have "pg_From v \<le> port \<and> port \<le> pg_To v"
    using assms(2) Some calculation by (intro cryptoInt_range [of _ _ src i j]) (simp_all add: selectPort_def)
  ultimately show ?thesis by simp
qed

lemma Validate_port: "Provider_Validate d = None \<Longrightarrow> validatePortRule (cf_Port (pd_Config d)) = None"
  by (auto simp: Provider_Validate_def Let_def split: if_splits option.splits)

lemma render_error_Inr: "render_error what r = Inr out \<longleftrightarrow> r = Inr out"
  by (auto simp: render_error_def split: sum.splits)

text \<open>
  C36: an endpoint that \<open>Generate\<close> returns belongs to a valid definition, is a SOCKS5 endpoint of that provider with a port between 1 and 65535
  and a country, and no template expression is left in its host, username or password.
\<close>

theorem generated_endpoint_ok:
  assumes "Generate conv src i d req = Some (j, Inr ep)"
  shows "Provider_Validate d = None \<and> ep_ProviderID ep = pd_ID d \<and> ep_Protocol ep = ''socks5''
    \<and> 1 \<le> ep_Port ep \<and> ep_Port ep \<le> 65535 \<and> ep_Country ep \<noteq> [] \<and> ep_Country ep = request_country (pd_Config d) (pq_Country req)
    \<and> \<not> has_expression (ep_Host ep) \<and> \<not> has_expression (ep_Username ep) \<and> \<not> has_expression (ep_Password ep)"
proof -
  have valid: "Provider_Validate d = None" using assms by (auto simp: Generate_def split: option.splits)
  define country where "country = request_country (pd_Config d) (pq_Country req)"
  have ne: "country \<noteq> []" using assms valid by (auto simp: Generate_def country_def Let_def split: if_splits)
  from assms valid ne obtain k state city session where
    "render_endpoint src k d country state city session = Some (j, Inr ep)"
    by (auto simp: Generate_def country_def Let_def andThen_Inr split: if_splits)
  then obtain host username password port l where
      r: "render (selectTemplate (cf_Host (pd_Config d)) country state city) (template_vars (pd_Config d) country state city session) (pd_Secrets d) = Inr host"
         "render (selectTemplate (cf_Username (pd_Config d)) country state city) (template_vars (pd_Config d) country state city session) (pd_Secrets d) = Inr username"
         "render (selectTemplate (cf_Password (pd_Config d)) country state city) (template_vars (pd_Config d) country state city session) (pd_Secrets d) = Inr password"
    and p: "selectPort src l (cf_Port (pd_Config d)) country = Some (j, Inr port)"
    and ep: "ep = \<lparr>ep_ProviderID = pd_ID d, ep_Protocol = ''socks5'', ep_Host = host, ep_Port = port,
        ep_Username = username, ep_Password = password, ep_Country = country, ep_State = state, ep_City = city, ep_SessionID = session\<rparr>"
    by (auto simp: render_endpoint_def Let_def andThen_Inr render_error_Inr)
  show ?thesis using valid ne selectPort_range [OF Validate_port [OF valid] p] r [THEN render_no_expression]
    by (simp add: ep country_def)
qed

lemma demo_generate:
  "\<exists>j ep. Generate (\<lambda>_. 0) (\<lambda>i n. Inr (replicate n 7)) 0 demo_provider \<lparr>pq_Country = ''GB'', pq_State = ''New York'', pq_City = []\<rparr>
     = Some (j, Inr ep) \<and> ep_Username ep = ''u-uk-new_york''"
  by (rule generated_usernameD) code_simp

theorem generated_endpoint_ok_witness:
  "\<exists>j ep. Generate (\<lambda>_. 0) (\<lambda>i n. Inr (replicate n 7)) 0 demo_provider \<lparr>pq_Country = ''GB'', pq_State = ''New York'', pq_City = []\<rparr>
     = Some (j, Inr ep) \<and> ep_ProviderID ep = pd_ID demo_provider"
  using demo_generate generated_endpoint_ok by blast

section \<open>Sessions\<close>

definition rand_ok :: "rand_src \<Rightarrow> bool" where
  "rand_ok src \<longleftrightarrow> (\<forall>i n b. src i n = Inr b \<longrightarrow> length b = n)"

lemma alnum_loop_shape:
  "alnum_loop src len i = Some (j, Inr s) \<Longrightarrow> length s = len \<and> set s \<subseteq> set alphabet"
proof (induction len arbitrary: i s)
  case (Suc len)
  then obtain k n out l where n: "cryptoInt src i 0 (int (length alphabet) - 1) = Some (k, Inr n)"
    and rest: "alnum_loop src len k = Some (l, Inr out)" "l = j" "s = alphabet ! nat n # out"
    by (auto simp: andThen_Inr)
  have "0 \<le> n \<and> n \<le> int (length alphabet) - 1" by (rule cryptoInt_range [OF _ _ n]) (simp_all add: alphabet_def)
  then have "alphabet ! nat n \<in> set alphabet" by (intro nth_mem) linarith
  then show ?case using Suc.IH [of k out] rest by simp
qed simp

lemma list16:
  assumes "length b = 16"
  obtains b0 b1 b2 b3 b4 b5 b6 b7 b8 b9 b10 b11 b12 b13 b14 b15
  where "b = [b0, b1, b2, b3, b4, b5, b6, b7, b8, b9, b10, b11, b12, b13, b14, b15]"
  using assms by (auto simp: numeral_eq_Suc length_Suc_conv)

lemma high_nibble: "unat b div 16 = unat (drop_bit 4 b)" for b :: byte
  by (simp add: drop_bit_eq_div unat_div_distrib)

lemma version_nibble: "unat ((b AND 0x0f) OR 0x40) div 16 = 4" for b :: byte
  unfolding high_nibble by (simp add: drop_bit_or drop_bit_and)

lemma variant_nibble: "unat ((b AND 0x3f) OR 0x80) div 16 \<in> {8, 9, 10, 11}" for b :: byte
proof -
  define x where "x = drop_bit 4 b AND 3"
  have "x = take_bit 2 (drop_bit 4 b)" by (simp add: x_def take_bit_eq_mask mask_eq_exp_minus_1)
  then have "x < 4" by (simp add: take_bit_eq_mod word_mod_less_divisor)
  then have "x \<in> {0, 1, 2, 3}" by (simp add: word_less_nat_alt word_unat_eq_iff) linarith
  moreover have "unat ((b AND 0x3f) OR 0x80) div 16 = unat (x OR 8)"
    unfolding high_nibble x_def by (simp add: drop_bit_or drop_bit_and)
  ultimately show ?thesis by auto
qed

text \<open>The layout of a version 4 UUID in text form.\<close>

definition uuid_layout :: "string \<Rightarrow> bool" where
  "uuid_layout s \<longleftrightarrow> length s = 36 \<and> s ! 8 = CHR ''-'' \<and> s ! 13 = CHR ''-'' \<and> s ! 18 = CHR ''-'' \<and> s ! 23 = CHR ''-''
     \<and> s ! 14 = CHR ''4'' \<and> s ! 19 \<in> set ''89ab''"

lemma hex_digits: "hex_digit 4 = CHR ''4''" "hex_digit 8 = CHR ''8''" "hex_digit 9 = CHR ''9''"
  "hex_digit 10 = CHR ''a''" "hex_digit 11 = CHR ''b''"
  by code_simp+

lemma uuid_text_layout:
  assumes "length b = 16"
  shows "uuid_layout (uuid_text (uuid_bytes b))"
proof -
  from assms obtain b0 b1 b2 b3 b4 b5 b6 b7 b8 b9 b10 b11 b12 b13 b14 b15
    where b: "b = [b0, b1, b2, b3, b4, b5, b6, b7, b8, b9, b10, b11, b12, b13, b14, b15]" by (rule list16)
  have "hex_digit (unat ((b6 AND 0x0f) OR 0x40) div 16) = CHR ''4''"
    unfolding version_nibble by (rule hex_digits(1))
  moreover have "hex_digit (unat ((b8 AND 0x3f) OR 0x80) div 16) \<in> set ''89ab''"
    using variant_nibble [of b8] hex_digits by auto
  ultimately show ?thesis by (simp add: b uuid_bytes_def uuid_text_def hex_bytes_def uuid_layout_def)
qed

text \<open>
  C37: a session that is generated under validated rules has the type its rule names: the text of a version 4 UUID, the decimal text of an integer
  of the range, or as many letters and digits as asked for.
\<close>

theorem session_type:
  assumes "rand_ok src" and "validateSession c = None" and "sr_Max (cf_Session c) < 2 ^ 63"
    and "generateSession src i (cf_Session c) = Some (j, Inr s)"
  shows "(sr_Type (cf_Session c) = ''uuid'' \<and> uuid_layout s)
    \<or> (sr_Type (cf_Session c) = ''int'' \<and> (\<exists>n. sr_Min (cf_Session c) \<le> n \<and> n \<le> sr_Max (cf_Session c) \<and> s = sprint_int n))
    \<or> (sr_Type (cf_Session c) = ''alnum'' \<and> int (length s) = sr_Length (cf_Session c) \<and> set s \<subseteq> set alphabet)"
proof -
  consider "sr_Type (cf_Session c) = ''uuid''" | "sr_Type (cf_Session c) = ''int''" | "sr_Type (cf_Session c) = ''alnum''"
    using assms(2) by (auto simp: validateSession_def Let_def split: if_splits)
  then show ?thesis
  proof cases
    case 1
    then obtain b where "src i 16 = Inr b" "s = uuid_text (uuid_bytes b)"
      using assms(4) by (auto simp: generateSession_def split: sum.splits)
    moreover from this have "length b = 16" using assms(1) by (simp add: rand_ok_def)
    ultimately show ?thesis using 1 uuid_text_layout by simp
  next
    case 2
    then obtain n where n: "cryptoInt src i (sr_Min (cf_Session c)) (sr_Max (cf_Session c)) = Some (j, Inr n)" "s = sprint_int n"
      using assms(4) by (auto simp: generateSession_def andThen_Inr)
    have "0 \<le> sr_Min (cf_Session c)" using assms(2) 2 by (auto simp: validateSession_def Let_def split: if_splits)
    then show ?thesis using cryptoInt_range [OF _ assms(3) n(1)] n(2) 2 by blast
  next
    case 3
    have "1 \<le> sr_Length (cf_Session c)" using assms(2) 3 by (auto simp: validateSession_def Let_def split: if_splits)
    then show ?thesis using assms(4) 3 alnum_loop_shape [of src "nat (sr_Length (cf_Session c))" i j s]
      by (simp add: generateSession_def)
  qed
qed

theorem session_type_witness:
  "rand_ok (\<lambda>i n. Inr (replicate n 7)) \<and> validateSession (pd_Config demo_provider) = None
   \<and> (\<exists>s n. generateSession (\<lambda>i n. Inr (replicate n 7)) 0 (cf_Session (pd_Config demo_provider)) = Some (1, Inr s)
        \<and> s = sprint_int n \<and> 1 \<le> n \<and> n \<le> 9)"
proof -
  let ?src = "\<lambda>i n. Inr (replicate n 7) :: go_error + byte list"
  have ok: "rand_ok ?src" by (simp add: rand_ok_def)
  have v: "validateSession (pd_Config demo_provider) = None" by code_simp
  have m: "sr_Max (cf_Session (pd_Config demo_provider)) < 2 ^ 63" by (simp add: demo_provider_def)
  have g: "generateSession ?src 0 (cf_Session (pd_Config demo_provider)) = Some (1, Inr ''6'')" by code_simp
  show ?thesis using session_type [OF ok v m g] ok v g by (auto simp: demo_provider_def)
qed

end
