(* ===== verification/PM_Upstream.thy ===== *)
theory PM_Upstream
  imports PM_Socks5 "HOL-Library.Sublist"
begin

text \<open>
  What \<open>DialSOCKS5\<close> promises: the messages it writes mean what was asked for when they are read as RFC 1928 and RFC 1929 say, it consumes
  exactly the replies and leaves the rest of the stream to the relay, and against a server that follows the two documents it succeeds
  exactly when the credentials are the server's.
\<close>

section \<open>The messages as a server reads them\<close>

datatype destination =
    DestV4 "byte list"
  | DestName string
  | DestV6 "byte list"

text \<open>A string after its length byte, and what follows it.\<close>

fun take_string :: "byte list \<Rightarrow> (string \<times> byte list) option" where
  "take_string [] = None"
| "take_string (n # bs) = (if length bs < unat n then None else Some (string_of (take (unat n) bs), drop (unat n) bs))"

fun take_destination :: "byte list \<Rightarrow> (destination \<times> byte list) option" where
  "take_destination [] = None"
| "take_destination (atyp # bs) =
     (if atyp = 1 then (if length bs < 4 then None else Some (DestV4 (take 4 bs), drop 4 bs))
      else if atyp = 3 then map_option (\<lambda>(s, rest). (DestName s, rest)) (take_string bs)
      else if atyp = 4 then (if length bs < 16 then None else Some (DestV6 (take 16 bs), drop 16 bs))
      else None)"

text \<open>A CONNECT request and a username and password message.\<close>

definition decode_request :: "byte list \<Rightarrow> (destination \<times> int) option" where
  "decode_request bs =
     (if take 3 bs \<noteq> [5, 1, 0] then None
      else case take_destination (drop 3 bs) of
        Some (dest, [hi, lo]) \<Rightarrow> Some (dest, 256 * uint hi + uint lo)
      | _ \<Rightarrow> None)"

definition decode_auth :: "byte list \<Rightarrow> (string \<times> string) option" where
  "decode_auth bs =
     (if take 1 bs \<noteq> [1] then None
      else case take_string (drop 1 bs) of
        None \<Rightarrow> None
      | Some (u, rest) \<Rightarrow> (case take_string rest of Some (p, []) \<Rightarrow> Some (u, p) | _ \<Rightarrow> None))"

text \<open>A reply that grants the request: version, code 0, an address of its type and a port.\<close>

definition granted :: "byte list \<Rightarrow> bool" where
  "granted bs \<longleftrightarrow> take 2 bs = [5, 0] \<and> (case take_destination (drop 3 bs) of Some (dest, port) \<Rightarrow> length port = 2 | None \<Rightarrow> False)"

text \<open>Where a host is meant to lead to.\<close>

definition destination_of :: "string \<Rightarrow> destination" where
  "destination_of host =
     (case net_ParseIP host of
        None \<Rightarrow> DestName host
      | Some ip \<Rightarrow> (case IP_To4 ip of Some v4 \<Rightarrow> DestV4 v4 | None \<Rightarrow> DestV6 ip))"

lemma take_string_bytes: "length s \<le> 255 \<Longrightarrow> take_string (len_byte s # bytes_of s @ rest) = Some (s, rest)"
  by (simp add: len_byte_def unat_of_nat)

lemma take_destination_bytes:
  assumes "dest_bytes host = Inr bs"
  shows "take_destination (bs @ rest) = Some (destination_of host, rest)"
proof (cases "net_ParseIP host")
  case None
  then have "length host \<le> 255" "bs = 3 # len_byte host # bytes_of host" using assms by (auto simp: dest_bytes_def split: if_splits)
  then show ?thesis using None take_string_bytes [of host rest] by (simp add: destination_of_def)
next
  case (Some ip)
  then show ?thesis using assms ParseIP_length [OF Some]
    by (auto simp: dest_bytes_def destination_of_def IP_To4_def split: if_splits)
qed

lemma uint_port_bytes:
  assumes "0 \<le> port" and "port < 65536"
  shows "256 * uint (word_of_int (port div 256) :: byte) + uint (word_of_int port :: byte) = port"
proof -
  have "port div 256 mod 256 = port div 256" using assms by (intro mod_pos_pos_trivial) auto
  then show ?thesis by (simp add: uint_word_of_int)
qed

lemma decode_connect_request:
  assumes "connect_request target = Inr req"
  shows "\<exists>host port. parse_target target = Inr (host, port) \<and> decode_request req = Some (destination_of host, port)"
proof -
  obtain host port dest where t: "parse_target target = Inr (host, port)" "dest_bytes host = Inr dest"
    and req: "req = [5, 1, 0] @ dest @ PutUint16 port" using assms by (auto simp: connect_request_def)
  have "0 \<le> port" "port < 65536" using t(1) by (auto simp: parse_target_def split: sum.splits option.splits if_splits)
  then show ?thesis using t take_destination_bytes [OF t(2), of "PutUint16 port"]
    by (simp add: req decode_request_def PutUint16_def uint_port_bytes)
qed

lemma decode_auth_message:
  "length (sc_Username cfg) \<le> 255 \<Longrightarrow> length (sc_Password cfg) \<le> 255
     \<Longrightarrow> decode_auth (auth_message cfg) = Some (sc_Username cfg, sc_Password cfg)"
  using take_string_bytes [of "sc_Username cfg" "len_byte (sc_Password cfg) # bytes_of (sc_Password cfg)"]
    take_string_bytes [of "sc_Password cfg" "[]"]
  by (simp add: decode_auth_def auth_message_def)

section \<open>What the client consumes\<close>

text \<open>All that the peer has sent after the writes \<open>ws\<close>, and a connection of which \<open>c\<close> has been read.\<close>

definition sent :: "socks_env \<Rightarrow> byte list list \<Rightarrow> byte list" where
  "sent e ws = concat (map (se_peer e) (prefixes ws))"

definition consumed :: "socks_env \<Rightarrow> byte list list \<Rightarrow> byte list \<Rightarrow> socks_conn \<Rightarrow> bool" where
  "consumed e ws c k \<longleftrightarrow> k_writes k = ws \<and> sent e ws = c @ k_in k"

lemma sent_snoc: "sent e (ws @ [w]) = sent e ws @ se_peer e (ws @ [w])"
  by (simp add: sent_def prefixes_snoc)

lemma consumed_write: "conn_Write e b k = Inr k' \<Longrightarrow> consumed e ws c k \<Longrightarrow> consumed e (ws @ [b]) c k'"
  by (auto simp: conn_Write_def consumed_def sent_snoc Let_def split: option.splits)

lemma consumed_read: "read_full e n k = Inr (b, k') \<Longrightarrow> consumed e ws c k \<Longrightarrow> consumed e ws (c @ b) k' \<and> length b = n"
  by (auto simp: read_full_def consumed_def split: if_splits)

lemma two_bytes: "length b = 2 \<Longrightarrow> b = [b ! 0, b ! 1]"
  by (auto simp: numeral_2_eq_2 length_Suc_conv)

lemma consumed_method:
  assumes "negotiate_method e cfg k = Inr k'" and "consumed e ws c k"
  shows "consumed e (ws @ [greeting cfg]) (c @ [5, auth_method cfg]) k'"
proof -
  obtain k1 b where w: "conn_Write e (greeting cfg) k = Inr k1" and r: "read_full e 2 k1 = Inr (b, k')" and b: "b ! 0 = 5" "b ! 1 = auth_method cfg"
    using assms(1) by (auto simp: negotiate_method_def split: if_splits)
  then show ?thesis using consumed_read [OF r consumed_write [OF w assms(2)]] two_bytes [of b] by metis
qed

text \<open>What authentication writes and reads.\<close>

definition auth_writes :: "socks5_config \<Rightarrow> byte list list" where
  "auth_writes cfg = (if needs_auth cfg then [auth_message cfg] else [])"

definition auth_replies :: "socks5_config \<Rightarrow> byte list" where
  "auth_replies cfg = (if needs_auth cfg then [1, 0] else [])"

lemma consumed_auth:
  assumes "authenticate e cfg k = Inr k'" and "consumed e ws c k"
  shows "consumed e (ws @ auth_writes cfg) (c @ auth_replies cfg) k'
    \<and> (needs_auth cfg \<longrightarrow> decode_auth (auth_message cfg) = Some (sc_Username cfg, sc_Password cfg))"
proof (cases "needs_auth cfg")
  case True
  then obtain k1 b where w: "conn_Write e (auth_message cfg) k = Inr k1" and r: "read_full e 2 k1 = Inr (b, k')" and b: "b ! 0 = 1" "b ! 1 = 0"
    and len: "length (sc_Username cfg) \<le> 255" "length (sc_Password cfg) \<le> 255"
    using assms(1) by (auto simp: authenticate_def split: if_splits)
  have "b = [1, 0]" using consumed_read [OF r consumed_write [OF w assms(2)]] two_bytes [of b] b by metis
  then show ?thesis using True consumed_read [OF r consumed_write [OF w assms(2)]] decode_auth_message [OF len]
    by (simp add: auth_writes_def auth_replies_def)
qed (use assms in \<open>simp add: authenticate_def auth_writes_def auth_replies_def\<close>)

lemma consumed_reply:
  assumes "read_reply e k = Inr k'" and "consumed e ws c k"
  shows "\<exists>reply. granted reply \<and> consumed e ws (c @ reply) k'"
proof -
  obtain h k1 n k2 d where h: "read_full e 4 k = Inr (h, k1)" "h ! 0 = 5" "h ! 1 = 0" and n: "address_length e (h ! 3) k1 = Inr (n, k2)"
    and d: "read_full e (n + 2) k2 = Inr (d, k')" using assms(1) by (auto simp: read_reply_def split: if_splits)
  have c1: "consumed e ws (c @ h) k1" "length h = 4" using consumed_read [OF h(1) assms(2)] by auto
  then obtain r t where h4: "h = [5, 0, r, t]" using h(2,3) by (auto simp: numeral_eq_Suc length_Suc_conv)
  obtain l where l: "consumed e ws (c @ h @ l) k2"
    and atyp: "(h ! 3 = 1 \<and> n = 4 \<and> l = []) \<or> (h ! 3 = 4 \<and> n = 16 \<and> l = []) \<or> (h ! 3 = 3 \<and> l = [word_of_nat n] \<and> n < 256)"
  proof (cases "h ! 3 = 3")
    case True
    then obtain b where b: "read_full e 1 k1 = Inr (b, k2)" "n = unat (b ! 0)" using n by (auto simp: address_length_def)
    have "length b = 1" using consumed_read [OF b(1) c1(1)] by simp
    then have "b = [word_of_nat n]" "n < 256" using b(2) unsigned_less [of "b ! 0"] by (auto simp: length_Suc_conv)
    then show ?thesis using that [of b] True consumed_read [OF b(1) c1(1)] by simp
  next
    case False
    then show ?thesis using that [of "[]"] n c1(1) by (auto simp: address_length_def split: if_splits)
  qed
  have c3: "consumed e ws (c @ h @ l @ d) k'" "length d = n + 2" using consumed_read [OF d l] by auto
  obtain p q where pq: "drop n d = [p, q]" using c3(2) two_bytes [of "drop n d"] by force
  have "granted (h @ l @ d)" using atyp c3(2) pq by (auto simp: h4 granted_def unat_of_nat)
  then show ?thesis using c3(1) by blast
qed

lemma handshake_consumes:
  assumes "handshake e cfg target k = Inr k'" and "consumed e [] [] k"
  shows "\<exists>req reply. connect_request target = Inr req \<and> granted reply
    \<and> consumed e ([greeting cfg] @ auth_writes cfg @ [req]) ([5, auth_method cfg] @ auth_replies cfg @ reply) k'
    \<and> (needs_auth cfg \<longrightarrow> decode_auth (auth_message cfg) = Some (sc_Username cfg, sc_Password cfg))"
proof -
  obtain k1 k2 req k3 where k1: "negotiate_method e cfg k = Inr k1" and k2: "authenticate e cfg k1 = Inr k2"
    and req: "connect_request target = Inr req" and k3: "conn_Write e req k2 = Inr k3" and k': "read_reply e k3 = Inr k'"
    using assms(1) by (auto simp: handshake_def)
  note c2 = consumed_auth [OF k2 consumed_method [OF k1 assms(2)]]
  from consumed_reply [OF k' consumed_write [OF k3 c2 [THEN conjunct1]]] show ?thesis using req c2 by auto
qed

text \<open>
  C9: a connection that \<open>DialSOCKS5\<close> returns was negotiated as asked: the peer was sent the greeting, the credentials of the configuration when it has any, and a request that
  reads as a CONNECT to exactly the target; the peer accepted the method and the credentials and granted the request; and the first byte that the relay
  reads is the first one after those replies. Otherwise the connection is closed, unless the last call of \<open>SetDeadline\<close> failed.
\<close>

theorem socks5_dial_exact:
  "(\<forall>k. DialSOCKS5 e cfg target = DialOK k \<longrightarrow>
      (\<exists>auth req host port_text port reply.
         k_writes k = [[5, 1, auth_method cfg]] @ auth @ [req]
       \<and> (if needs_auth cfg then \<exists>a. auth = [a] \<and> decode_auth a = Some (sc_Username cfg, sc_Password cfg) else auth = [])
       \<and> net_SplitHostPort target = Inr (host, port_text) \<and> Atoi port_text = Some port \<and> 1 \<le> port \<and> port \<le> 65535
       \<and> decode_request req = Some (destination_of host, port) \<and> granted reply
       \<and> sent e (k_writes k) = [5, auth_method cfg] @ auth_replies cfg @ reply @ k_in k))
   \<and> (\<forall>err k. DialSOCKS5 e cfg target = DialLeaked err k \<longrightarrow> se_SetDeadline e 1 = Some err)"
proof (intro conjI allI impI)
  fix k assume "DialSOCKS5 e cfg target = DialOK k"
  then have h: "handshake e cfg target \<lparr>k_writes = [], k_in = se_peer e []\<rparr> = Inr k"
    by (auto simp: DialSOCKS5_def split: option.splits sum.splits)
  have "consumed e [] [] \<lparr>k_writes = [], k_in = se_peer e []\<rparr>" by (simp add: consumed_def sent_def)
  from handshake_consumes [OF h this] obtain req reply where req: "connect_request target = Inr req" and g: "granted reply"
    and c: "consumed e ([greeting cfg] @ auth_writes cfg @ [req]) ([5, auth_method cfg] @ auth_replies cfg @ reply) k"
    and a: "needs_auth cfg \<longrightarrow> decode_auth (auth_message cfg) = Some (sc_Username cfg, sc_Password cfg)" by blast
  obtain host port where t: "parse_target target = Inr (host, port)" and d: "decode_request req = Some (destination_of host, port)"
    using decode_connect_request [OF req] by blast
  obtain port_text where p: "net_SplitHostPort target = Inr (host, port_text)" "Atoi port_text = Some port" "1 \<le> port" "port \<le> 65535"
    using t by (auto simp: parse_target_def split: sum.splits option.splits if_splits)
  show "\<exists>auth req host port_text port reply.
         k_writes k = [[5, 1, auth_method cfg]] @ auth @ [req]
       \<and> (if needs_auth cfg then \<exists>a. auth = [a] \<and> decode_auth a = Some (sc_Username cfg, sc_Password cfg) else auth = [])
       \<and> net_SplitHostPort target = Inr (host, port_text) \<and> Atoi port_text = Some port \<and> 1 \<le> port \<and> port \<le> 65535
       \<and> decode_request req = Some (destination_of host, port) \<and> granted reply
       \<and> sent e (k_writes k) = [5, auth_method cfg] @ auth_replies cfg @ reply @ k_in k"
    by (rule exI [of _ "auth_writes cfg"], rule exI [of _ req], rule exI [of _ host], rule exI [of _ port_text], rule exI [of _ port], rule exI [of _ reply])
      (use c a p d g in \<open>auto simp: consumed_def greeting_def auth_writes_def\<close>)
next
  fix err k assume "DialSOCKS5 e cfg target = DialLeaked err k"
  then show "se_SetDeadline e 1 = Some err" by (auto simp: DialSOCKS5_def split: option.splits sum.splits)
qed

section \<open>A server that follows the documents\<close>

text \<open>
  The server knows the credentials it wants, if any. It answers a greeting with the method it takes from the offered ones, a message with credentials with its verdict, and
  a request it can read with \<open>reply\<close> and the first bytes of the target, \<open>payload\<close>.
\<close>

definition pick_method :: "(string \<times> string) option \<Rightarrow> byte list \<Rightarrow> byte" where
  "pick_method creds g =
     (let wanted = (if creds = None then 0 else 2) in
      if take 1 g = [5] \<and> length g = 2 + unat (g ! 1) \<and> wanted \<in> set (drop 2 g) then wanted else 255)"

definition serve_request :: "byte list \<Rightarrow> byte list \<Rightarrow> byte list \<Rightarrow> byte list" where
  "serve_request reply payload r = (if decode_request r = None then [] else reply @ payload)"

fun rfc_server :: "(string \<times> string) option \<Rightarrow> byte list \<Rightarrow> byte list \<Rightarrow> byte list list \<Rightarrow> byte list" where
  "rfc_server creds reply payload [g] = [5, pick_method creds g]"
| "rfc_server None reply payload [g, r] = serve_request reply payload r"
| "rfc_server (Some c) reply payload [g, a] = [1, if decode_auth a = Some c then 0 else 1]"
| "rfc_server (Some c) reply payload [g, a, r] = (if decode_auth a = Some c then serve_request reply payload r else [])"
| "rfc_server creds reply payload ws = []"

lemma read_full_append: "length b = n \<Longrightarrow> k_in k = b @ rest \<Longrightarrow> read_full e n k = Inr (b, k\<lparr>k_in := rest\<rparr>)"
  by (simp add: read_full_def)

lemma grantedE:
  assumes "granted reply"
  obtains r t l d where "reply = [5, 0, r, t] @ l @ d" "(t = 1 \<and> l = [] \<and> length d = 6) \<or> (t = 4 \<and> l = [] \<and> length d = 18)
    \<or> (t = 3 \<and> (\<exists>n. l = [n] \<and> length d = unat n + 2))"
proof -
  obtain dest port where d: "take_destination (drop 3 reply) = Some (dest, port)" "length port = 2" and p: "take 2 reply = [5, 0]"
    using assms by (auto simp: granted_def split: option.splits)
  obtain t bs where t: "drop 3 reply = t # bs" using d by (cases "drop 3 reply") auto
  then have "3 < length reply" by (metis drop_eq_Nil list.distinct(1) not_le)
  then have r: "reply = [5, 0, reply ! 2, t] @ bs"
    using p t id_take_nth_drop [of 2 reply] by (simp add: eval_nat_numeral)
  show ?thesis
  proof (cases "t = 3")
    case True
    then obtain n bs' where "bs = n # bs'" using d t by (cases bs) auto
    then show ?thesis using that [of "reply ! 2" t "[n]" bs'] r d t True by (auto simp: dest!: arg_cong [of _ _ length] split: if_splits)
  next
    case False
    then show ?thesis using that [of "reply ! 2" t "[]" bs] r d t by (auto dest!: arg_cong [of _ _ length] split: if_splits)
  qed
qed

lemma read_reply_granted:
  assumes "granted reply" and "k_in k = reply @ payload"
  shows "read_reply e k = Inr (k\<lparr>k_in := payload\<rparr>)"
proof -
  obtain r t l d where reply: "reply = [5, 0, r, t] @ l @ d" and t: "(t = 1 \<and> l = [] \<and> length d = 6) \<or> (t = 4 \<and> l = [] \<and> length d = 18)
    \<or> (t = 3 \<and> (\<exists>n. l = [n] \<and> length d = unat n + 2))" using assms(1) by (rule grantedE)
  have h: "read_full e 4 k = Inr ([5, 0, r, t], k\<lparr>k_in := l @ d @ payload\<rparr>)"
    using assms(2) by (intro read_full_append) (simp_all add: reply)
  have a: "address_length e t (k\<lparr>k_in := l @ d @ payload\<rparr>) = Inr (length d - 2, k\<lparr>k_in := d @ payload\<rparr>)"
    using t by (auto simp: address_length_def attempt_def read_full_def)
  have "length d = length d - 2 + 2" using t by auto
  then have "read_full e (length d - 2 + 2) (k\<lparr>k_in := d @ payload\<rparr>) = Inr (d, k\<lparr>k_in := payload\<rparr>)"
    using read_full_append [of d "length d - 2 + 2" "k\<lparr>k_in := d @ payload\<rparr>" payload e] by fastforce
  then show ?thesis using h a by (simp add: read_reply_def attempt_def)
qed

definition quiet_net :: "socks_env \<Rightarrow> string \<Rightarrow> bool" where
  "quiet_net e addr \<longleftrightarrow> se_dial e addr = None \<and> first_deadline e = None \<and> se_SetDeadline e 1 = None \<and> (\<forall>n. se_write e n = None)"

definition wanted :: "socks5_config \<Rightarrow> (string \<times> string) option" where
  "wanted cfg = (if needs_auth cfg then Some (sc_Username cfg, sc_Password cfg) else None)"

lemma quiet_write: "quiet_net e addr \<Longrightarrow> conn_Write e b k = Inr (k\<lparr>k_writes := k_writes k @ [b], k_in := k_in k @ se_peer e (k_writes k @ [b])\<rparr>)"
  by (simp add: quiet_net_def conn_Write_def Let_def)

lemma pick_greeting: "pick_method creds (greeting cfg) = (if (creds = None) = (\<not> needs_auth cfg) then auth_method cfg else 255)"
  by (auto simp: pick_method_def greeting_def auth_method_def Let_def)

lemma method_agreed:
  assumes "quiet_net e addr" and "se_peer e = rfc_server creds reply payload"
  shows "negotiate_method e cfg \<lparr>k_writes = [], k_in = []\<rparr> =
    (if (creds = None) = (\<not> needs_auth cfg) then Inr \<lparr>k_writes = [greeting cfg], k_in = []\<rparr>
     else Inl (ErrMsg ''SOCKS5 authentication method rejected''))"
  by (simp add: negotiate_method_def quiet_write [OF assms(1)] assms(2) attempt_def read_full_def pick_greeting auth_method_def)

lemma auth_agreed:
  assumes "quiet_net e addr" and "se_peer e = rfc_server creds reply payload" and "(creds = None) = (\<not> needs_auth cfg)"
    and "length (sc_Username cfg) \<le> 255" and "length (sc_Password cfg) \<le> 255"
  shows "authenticate e cfg \<lparr>k_writes = [g], k_in = []\<rparr> =
    (if creds = wanted cfg then Inr \<lparr>k_writes = g # auth_writes cfg, k_in = []\<rparr> else Inl (ErrMsg ''SOCKS5 username/password rejected''))"
proof (cases creds)
  case (Some c)
  then show ?thesis
    using assms(3-5) decode_auth_message [OF assms(4,5)]
    by (auto simp: authenticate_def quiet_write [OF assms(1)] assms(2) attempt_def read_full_def wanted_def auth_writes_def)
qed (use assms in \<open>simp add: authenticate_def wanted_def auth_writes_def\<close>)

lemma dial_agreed:
  assumes net: "quiet_net e (sc_Address cfg)" and peer: "se_peer e = rfc_server (wanted cfg) reply payload" and ok: "granted reply"
    and req: "connect_request target = Inr req" and len: "length (sc_Username cfg) \<le> 255" "length (sc_Password cfg) \<le> 255"
  shows "DialSOCKS5 e cfg target = DialOK \<lparr>k_writes = [greeting cfg] @ auth_writes cfg @ [req], k_in = payload\<rparr>"
proof -
  have dec: "decode_request req \<noteq> None" using decode_connect_request [OF req] by fastforce
  have "se_peer e (greeting cfg # auth_writes cfg @ [req]) = reply @ payload"
    using dec decode_auth_message [OF len] by (auto simp: peer auth_writes_def wanted_def serve_request_def)
  then have "handshake e cfg target \<lparr>k_writes = [], k_in = []\<rparr> = Inr \<lparr>k_writes = [greeting cfg] @ auth_writes cfg @ [req], k_in = payload\<rparr>"
    using read_reply_granted [OF ok, of "\<lparr>k_writes = [greeting cfg] @ auth_writes cfg @ [req], k_in = reply @ payload\<rparr>" payload e]
    by (simp add: handshake_def method_agreed [OF net peer] auth_agreed [OF net peer _ len] attempt_def req quiet_write [OF net] wanted_def)
  then show ?thesis using net by (simp add: DialSOCKS5_def quiet_net_def peer)
qed

text \<open>
  C30: against a server that follows RFC 1928 and RFC 1929, on a network without failures and for a target and credentials that the protocol can carry, \<open>DialSOCKS5\<close> succeeds exactly
  when the configuration has the credentials that the server wants, none for a server that wants none, and the relay then starts with the first byte of the target.
\<close>

theorem socks5_server_agreement:
  assumes net: "quiet_net e (sc_Address cfg)" and peer: "se_peer e = rfc_server creds reply payload" and ok: "granted reply"
    and target: "parse_target target = Inr (host, port)" "net_ParseIP host = None \<longrightarrow> length host \<le> 255"
    and len: "length (sc_Username cfg) \<le> 255" "length (sc_Password cfg) \<le> 255"
  shows "(creds = wanted cfg \<longrightarrow> (\<exists>k. DialSOCKS5 e cfg target = DialOK k \<and> k_in k = payload))
    \<and> (creds \<noteq> wanted cfg \<longrightarrow> (\<exists>err. DialSOCKS5 e cfg target = DialClosed err))"
proof (intro conjI impI)
  assume "creds = wanted cfg"
  obtain dest where "dest_bytes host = Inr dest" using target(2) by (cases "net_ParseIP host") (auto simp: dest_bytes_def)
  then obtain req where "connect_request target = Inr req" using target(1) by (auto simp: connect_request_def)
  from dial_agreed [OF net _ ok this len] show "\<exists>k. DialSOCKS5 e cfg target = DialOK k \<and> k_in k = payload"
    using peer \<open>creds = wanted cfg\<close> by auto
next
  assume "creds \<noteq> wanted cfg"
  then have "\<exists>err. handshake e cfg target \<lparr>k_writes = [], k_in = []\<rparr> = Inl err"
    by (auto simp: handshake_def method_agreed [OF net peer] auth_agreed [OF net peer _ len] attempt_def)
  then show "\<exists>err. DialSOCKS5 e cfg target = DialClosed err" using net by (auto simp: DialSOCKS5_def quiet_net_def peer)
qed

section \<open>A concrete upstream\<close>

definition demo_upstream :: socks5_config where
  "demo_upstream = \<lparr>sc_Address = ''10.0.0.1:1080'', sc_Username = ''up-user'', sc_Password = ''up-pass''\<rparr>"

definition demo_reply :: "byte list" where
  "demo_reply = [5, 0, 0, 1, 127, 0, 0, 1, 4, 56]"

definition demo_socks :: socks_env where
  "demo_socks = \<lparr>se_dial = (\<lambda>a. None), se_deadline = True, se_SetDeadline = (\<lambda>n. None), se_write = (\<lambda>n. None),
     se_peer = rfc_server (Some (''up-user'', ''up-pass'')) demo_reply [104, 105], se_short = ErrEOF\<rparr>"

lemma demo_socks_ok:
  "quiet_net demo_socks (sc_Address demo_upstream)" "granted demo_reply" "wanted demo_upstream = Some (''up-user'', ''up-pass'')"
  by (simp_all add: quiet_net_def demo_socks_def first_deadline_def granted_def demo_reply_def wanted_def needs_auth_def demo_upstream_def)

lemma demo_target: "parse_target ''example.com:443'' = Inr (''example.com'', 443)" "net_ParseIP ''example.com'' = None"
  by code_simp+

theorem socks5_server_agreement_witness:
  "granted demo_reply \<and> (\<exists>k. DialSOCKS5 demo_socks demo_upstream ''example.com:443'' = DialOK k \<and> k_in k = [104, 105])"
  using socks5_server_agreement [OF demo_socks_ok(1) _ demo_socks_ok(2) demo_target(1), of "Some (''up-user'', ''up-pass'')" "[104, 105]"] demo_socks_ok
  by (simp add: demo_socks_def demo_upstream_def)

theorem socks5_dial_exact_witness:
  "\<exists>k req port. DialSOCKS5 demo_socks demo_upstream ''example.com:443'' = DialOK k
   \<and> k_writes k ! 2 = req \<and> decode_request req = Some (DestName ''example.com'', port)"
proof -
  obtain req where req: "connect_request ''example.com:443'' = Inr req"
    using demo_target by (simp add: connect_request_def attempt_def dest_bytes_def)
  have n: "needs_auth demo_upstream" by (simp add: needs_auth_def demo_upstream_def)
  have "se_peer demo_socks = rfc_server (wanted demo_upstream) demo_reply [104, 105]" using demo_socks_ok(3) by (simp add: demo_socks_def)
  from dial_agreed [OF demo_socks_ok(1) this demo_socks_ok(2) req] obtain k where
    d: "DialSOCKS5 demo_socks demo_upstream ''example.com:443'' = DialOK k" by (auto simp: demo_upstream_def)
  have s: "net_SplitHostPort ''example.com:443'' = Inr (''example.com'', ''443'')" by code_simp
  from socks5_dial_exact [of demo_socks demo_upstream "''example.com:443''", THEN conjunct1, THEN spec, THEN mp, OF d]
  obtain auth req host pt port where w: "k_writes k = [[5, 1, auth_method demo_upstream]] @ auth @ [req]"
    and a: "if needs_auth demo_upstream then \<exists>a. auth = [a] \<and> decode_auth a = Some (sc_Username demo_upstream, sc_Password demo_upstream) else auth = []"
    and h: "net_SplitHostPort ''example.com:443'' = Inr (host, pt)" and r: "decode_request req = Some (destination_of host, port)" by blast
  have "host = ''example.com''" using h s by simp
  moreover have "k_writes k ! 2 = req" using w a n by auto
  ultimately show ?thesis using d r demo_target(2) by (auto simp: destination_of_def)
qed

end
