(* ===== verification/PM_Process.thy ===== *)
theory PM_Process
  imports PM_Control_Client PM_Upstream
begin

text \<open>
  The gateway process around its parts: settings from the environment (\<open>internal/config/config.go\<close>), the health endpoint
  (\<open>HealthHandler\<close> of \<open>internal/dataplane/gateway.go\<close>), the canary and the shutdown (\<open>apps/gateway/main.go\<close>), and the transport
  credentials and the ends of the control stream (\<open>internal/dataplane/control_client.go\<close>). The lemmas say that these
  parts change nothing of the gateway but the two flags they own, so that they are background activity of its life.
\<close>

section \<open>Settings\<close>

text \<open>The environment is a map; a variable that is not set reads as empty. \<open>time.ParseDuration\<close> is a parameter.\<close>

type_synonym environ = "(string, string) gomap"

definition os_Getenv :: "environ \<Rightarrow> string \<Rightarrow> string" where
  "os_Getenv env key = (case gget env key of None \<Rightarrow> [] | Some v \<Rightarrow> v)"

definition config_String :: "environ \<Rightarrow> string \<Rightarrow> string \<Rightarrow> string" where
  "config_String env key fallback = (if os_Getenv env key \<noteq> [] then os_Getenv env key else fallback)"

definition config_Bool :: "environ \<Rightarrow> string \<Rightarrow> bool \<Rightarrow> bool" where
  "config_Bool env key fallback =
     (if os_Getenv env key = [] then fallback
      else case strconv_ParseBool (os_Getenv env key) of Inl err \<Rightarrow> fallback | Inr b \<Rightarrow> b)"

definition config_Int :: "environ \<Rightarrow> string \<Rightarrow> int \<Rightarrow> int" where
  "config_Int env key fallback = (case Atoi (os_Getenv env key) of None \<Rightarrow> fallback | Some v \<Rightarrow> v)"

definition config_Duration :: "(string \<Rightarrow> go_error + int) \<Rightarrow> environ \<Rightarrow> string \<Rightarrow> int \<Rightarrow> int" where
  "config_Duration ParseDuration env key fallback = (case ParseDuration (os_Getenv env key) of Inl err \<Rightarrow> fallback | Inr v \<Rightarrow> v)"

section \<open>Health\<close>

definition requestFromLoopback :: "string \<Rightarrow> bool" where
  "requestFromLoopback remoteAddr =
     (case net_SplitHostPort remoteAddr of
        Inl err \<Rightarrow> False
      | Inr (host, port) \<Rightarrow> (case net_ParseIP host of None \<Rightarrow> False | Some ip \<Rightarrow> IP_IsLoopback ip))"

text \<open>The handlers of the mux: the gateway afterwards, the status and the text.\<close>

definition health_live :: "int \<times> string" where
  "health_live = (200, ''ok'' @ [CHR 0x0A])"

definition health_ready :: "gateway \<Rightarrow> int \<times> string" where
  "health_ready g = (if \<not> Ready g then (503, ''not ready'' @ [CHR 0x0A]) else (200, ''ready'' @ [CHR 0x0A]))"

definition health_drain :: "bool \<Rightarrow> gateway \<Rightarrow> string \<Rightarrow> gateway \<times> int \<times> string" where
  "health_drain v g remoteAddr =
     (if \<not> requestFromLoopback remoteAddr then (g, 403, ''local access only'' @ [CHR 0x0A]) else (Gateway_SetDraining g v, 204, []))"

section \<open>The canary\<close>

text \<open>\<open>itoa\<close> of \<open>main.go\<close>: the loop fills the buffer from its end and does not run for a negative number.\<close>

function itoa_loop :: "int \<Rightarrow> string \<Rightarrow> string" where
  "itoa_loop v b = (if v > 0 then itoa_loop (v div 10) (''0123456789'' ! nat (v mod 10) # b) else b)"
  by pat_completeness auto

termination by (relation "measure (\<lambda>(v, b). nat v)") auto

declare itoa_loop.simps [simp del]

definition itoa :: "int \<Rightarrow> string" where
  "itoa v = (if v = 0 then ''0'' else itoa_loop v [])"

lemma nth_digits: "n < 10 \<Longrightarrow> ''0123456789'' ! n = digit_char n"
proof -
  have "\<forall>n \<in> set [0..<10]. ''0123456789'' ! n = digit_char n" by code_simp
  then show "n < 10 \<Longrightarrow> ?thesis" by simp
qed

lemma itoa_loop_digits: "0 < v \<Longrightarrow> itoa_loop v b = nat_digits (nat v) @ b"
proof (induction v b rule: itoa_loop.induct)
  case (1 v b)
  have d: "''0123456789'' ! nat (v mod 10) = digit_char (nat v mod 10)"
    using nth_digits [of "nat (v mod 10)"] "1.prems" by (simp add: nat_mod_distrib)
  show ?case
  proof (cases "v < 10")
    case True
    then have "v div 10 = 0" using "1.prems" by simp
    then show ?thesis using True "1.prems" d by (subst itoa_loop.simps, subst itoa_loop.simps, subst nat_digits.simps) simp
  next
    case False
    then show ?thesis using "1.IH" "1.prems" d
      by (subst itoa_loop.simps, subst nat_digits.simps) (simp add: nat_div_distrib)
  qed
qed

lemma itoa_sprint: "0 \<le> v \<Longrightarrow> itoa v = sprint_int v"
  using itoa_loop_digits [of v "[]"] nth_digits [of 0] by (cases "v = 0") (simp_all add: itoa_def sprint_int_def nat_digits.simps)

definition hostname :: "string \<Rightarrow> string" where
  "hostname h = (if h = [] then ''gateway-unknown'' else h)"

definition canary_config :: "device_route \<Rightarrow> socks5_config" where
  "canary_config route = \<lparr>sc_Address = net_JoinHostPort (pc_Host (r_Credential route)) (itoa (pc_Port (r_Credential route))),
     sc_Username = pc_Username (r_Credential route), sc_Password = pc_Password (r_Credential route)\<rparr>"

definition dialled :: "dial_result \<Rightarrow> bool" where
  "dialled r = (case r of DialOK k \<Rightarrow> True | _ \<Rightarrow> False)"

text \<open>\<open>check\<close>; the connection it opened is closed again.\<close>

definition canary_check :: "socks_env \<Rightarrow> bool \<Rightarrow> string \<Rightarrow> string \<Rightarrow> gateway \<Rightarrow> gateway" where
  "canary_check e required deviceID target g =
     (if \<not> required then SetCanary g True
      else case Table_ByDevice (g_Table g) deviceID of
        None \<Rightarrow> SetCanary g False
      | Some route \<Rightarrow> SetCanary g (dialled (DialSOCKS5 e (canary_config route) target)))"

text \<open>The canary dials what the clients of the device are connected to.\<close>

lemma canary_dials_upstream: "0 \<le> pc_Port (r_Credential route) \<Longrightarrow> canary_config route = upstream_config route"
  by (simp add: canary_config_def upstream_config_def itoa_sprint)

text \<open>A required canary that finds no route, or whose upstream does not negotiate, takes the gateway out of service.\<close>

lemma canary_guards:
  assumes "Ready (canary_check e True deviceID target g)"
  shows "\<exists>route k. Table_ByDevice (g_Table g) deviceID = Some route \<and> DialSOCKS5 e (canary_config route) target = DialOK k"
  using assms by (auto simp: canary_check_def Ready_def SetCanary_def dialled_def split: option.splits dial_result.splits)

lemma process_background:
  "same_listening g (canary_check e required deviceID target g)" "same_listening g (fst (health_drain v g addr))"
  by (auto simp: same_listening_def canary_check_def health_drain_def flag_defs split: option.splits)

text \<open>\<open>canaryLoop\<close>: one check at once and one for each tick; the network of each check is its own.\<close>

definition canaryLoop :: "bool \<Rightarrow> string \<Rightarrow> string \<Rightarrow> socks_env \<Rightarrow> socks_env list \<Rightarrow> gateway \<Rightarrow> gateway" where
  "canaryLoop required deviceID target e ticks g = foldl (\<lambda>g e. canary_check e required deviceID target g) g (e # ticks)"

lemma canaryLoop_last:
  "canaryLoop required deviceID target e ticks g = canary_check (last (e # ticks)) required deviceID target g"
proof -
  have again: "canary_check e' required deviceID target (canary_check e'' required deviceID target g) = canary_check e' required deviceID target g" for e' e'' g
    by (auto simp: canary_check_def SetCanary_def split: option.splits)
  show ?thesis unfolding canaryLoop_def by (induction ticks arbitrary: e) (simp_all add: again)
qed

text \<open>After the signal the gateway refuses new connections and has no listener left.\<close>

definition shutdown :: "gateway \<Rightarrow> gateway" where
  "shutdown g = CloseListeners (Gateway_SetDraining g True)"

lemma shutdown_closes: "gw_wf g \<Longrightarrow> g_listeners (shutdown g) = [] \<and> g_open (shutdown g) = []"
  using CloseListeners_empty [of "Gateway_SetDraining g True"] by (simp add: shutdown_def gw_wf_flags)

text \<open>
  \<open>run\<close> goes on until it is told to stop or the health server fails, and shuts down either way; only the failure is an error. The client that it starts before is set up
  from the environment.
\<close>

datatype run_end = Signalled | HealthServerEnded go_error

definition run_finish :: "run_end \<Rightarrow> gateway \<Rightarrow> gateway \<times> go_error option" where
  "run_finish ev g = (shutdown g, case ev of Signalled \<Rightarrow> None | HealthServerEnded err \<Rightarrow> Some err)"

definition new_control_client :: "environ \<Rightarrow> string \<Rightarrow> string \<Rightarrow> files \<Rightarrow> gateway \<Rightarrow> control_client" where
  "new_control_client env host snapshotPath fs g = \<lparr>cc_GatewayID = config_String env ''GATEWAY_ID'' (hostname host), cc_Address = config_String env ''GATEWAY_ADDRESS'' [],
     cc_SnapshotPath = snapshotPath, cc_Gateway = g, cc_files = fs\<rparr>"

text \<open>A gateway always has an id, so the hub accepts its registration.\<close>

lemma new_control_client_id: "cc_GatewayID (new_control_client env host path fs g) \<noteq> []"
  by (simp add: new_control_client_def config_String_def hostname_def)

section \<open>The control stream\<close>

text \<open>The transport credentials: files, certificates and key pairs are what the libraries make of the paths.\<close>

record tls_env =
  te_ReadFile :: "string \<Rightarrow> go_error + byte list"
  te_AppendCerts :: "byte list \<Rightarrow> bool"
  te_LoadKeyPair :: "string \<Rightarrow> string \<Rightarrow> go_error option"

record tls_config =
  tc_roots :: "byte list"
  tc_serverName :: string
  tc_certificate :: "(string \<times> string) option"

datatype transport = InsecureTransport | TLSTransport tls_config

definition client_credentials :: "tls_env \<Rightarrow> string \<Rightarrow> string \<Rightarrow> string \<Rightarrow> string \<Rightarrow> go_error + transport" where
  "client_credentials te ca cert key serverName =
     (if ca = [] then Inr InsecureTransport
      else attempt (te_ReadFile te ca) (\<lambda>raw.
        if \<not> te_AppendCerts te raw then Inl (ErrMsg ''invalid control CA'')
        else let cfg = \<lparr>tc_roots = raw, tc_serverName = serverName, tc_certificate = None\<rparr> in
          if cert = [] then Inr (TLSTransport cfg)
          else case te_LoadKeyPair te cert key of Some err \<Rightarrow> Inl err
             | None \<Rightarrow> Inr (TLSTransport (cfg\<lparr>tc_certificate := Some (cert, key)\<rparr>))))"

text \<open>A configured authority is never given up for an insecure connection, and a configured certificate is presented.\<close>

lemma credentials_secure:
  assumes "client_credentials te ca cert key serverName = Inr t" and "ca \<noteq> []"
  shows "\<exists>cfg. t = TLSTransport cfg \<and> te_ReadFile te ca = Inr (tc_roots cfg) \<and> te_AppendCerts te (tc_roots cfg)
    \<and> tc_certificate cfg = (if cert = [] then None else Some (cert, key))"
  using assms by (auto simp: client_credentials_def Let_def split: if_splits option.splits)

definition register_frame :: "control_client \<Rightarrow> frame" where
  "register_frame c = zero_frame\<lparr>f_Type := TypeRegister, f_GatewayID := cc_GatewayID c\<rparr>"

text \<open>What ends the loop of \<open>connect\<close>, and what it returns then.\<close>

datatype stream_end = RecvFailed go_error | SendFailed go_error | StreamCancelled

definition connect_result :: "stream_end \<Rightarrow> go_error option" where
  "connect_result ev =
     (case ev of
        RecvFailed err \<Rightarrow> if errors_is err ErrEOF then None else Some err
      | SendFailed err \<Rightarrow> Some err
      | StreamCancelled \<Rightarrow> Some ErrCanceled)"

end
