(* ===== verification/PM_Control_Plane.thy ===== *)
theory PM_Control_Plane
  imports PM_Api PM_Process
begin

text \<open>
  The start of the control plane, \<open>apps/control-plane/main.go\<close>: the order of its checks, the API it builds from the environment, and the transport
  security of its gRPC server. Opening the database, migrating it and listening are calls whose outcome is a parameter.
\<close>

section \<open>Transport security\<close>

record server_tls =
  st_certificate :: "string \<times> string"
  st_clientCAs :: "byte list option"
  st_requireClientCert :: bool

definition serverTLS :: "tls_env \<Rightarrow> environ \<Rightarrow> go_error + server_tls option" where
  "serverTLS te env =
     (let certPath = os_Getenv env ''GRPC_TLS_CERT''; keyPath = os_Getenv env ''GRPC_TLS_KEY''; caPath = os_Getenv env ''GRPC_CLIENT_CA'' in
      if certPath = [] \<and> keyPath = [] then Inr None
      else case te_LoadKeyPair te certPath keyPath of
        Some err \<Rightarrow> Inl err
      | None \<Rightarrow>
          let cfg = \<lparr>st_certificate = (certPath, keyPath), st_clientCAs = None, st_requireClientCert = False\<rparr> in
          if caPath = [] then Inr (Some cfg)
          else attempt (te_ReadFile te caPath) (\<lambda>raw.
            if \<not> te_AppendCerts te raw then Inl (ErrMsg ''invalid client CA'')
            else Inr (Some (cfg\<lparr>st_clientCAs := Some raw, st_requireClientCert := True\<rparr>))))"

text \<open>With a certificate and an authority for clients, the server demands a client certificate of that authority or does not start.\<close>

lemma serverTLS_mutual:
  assumes "serverTLS te env = Inr r" and "os_Getenv env ''GRPC_TLS_CERT'' \<noteq> []" and "os_Getenv env ''GRPC_CLIENT_CA'' \<noteq> []"
  shows "\<exists>cfg raw. r = Some cfg \<and> st_requireClientCert cfg \<and> st_clientCAs cfg = Some raw
    \<and> te_ReadFile te (os_Getenv env ''GRPC_CLIENT_CA'') = Inr raw \<and> te_AppendCerts te raw"
  using assms by (auto simp: serverTLS_def Let_def split: option.splits if_splits)

section \<open>Start-up\<close>

definition new_api :: "environ \<Rightarrow> api" where
  "new_api env = SetIngressPortRange (NewAPI (config_String env ''ADMIN_TOKEN'' []) (config_String env ''PUBLIC_PROXY_HOST'' ''proxy.example.com''))
     (config_Int env ''INGRESS_PORT_START'' 50000) (config_Int env ''INGRESS_PORT_END'' 59999)"

text \<open>Whatever the environment says, new devices get ports from a range of unprivileged ports that is not empty.\<close>

lemma new_api_ports:
  "1024 \<le> api_ingressPortStart (new_api env) \<and> api_ingressPortStart (new_api env) \<le> api_ingressPortEnd (new_api env)
   \<and> api_ingressPortEnd (new_api env) \<le> 65535"
  by (simp add: new_api_def SetIngressPortRange_def NewAPI_def)

record start_env =
  sv_crypto :: crypto_lib
  sv_newPool :: "string \<Rightarrow> go_error option"
  sv_exec :: "string \<Rightarrow> go_error option"
  sv_ping :: "string \<Rightarrow> go_error option"
  sv_tls :: tls_env
  sv_listen :: "string \<Rightarrow> go_error option"

definition check_call :: "go_error option \<Rightarrow> go_error + 'a \<Rightarrow> go_error + 'a" where
  "check_call r rest = (case r of Some err \<Rightarrow> Inl err | None \<Rightarrow> rest)"

text \<open>
  \<open>ApplyMigrations\<close> and \<open>NewPostgres\<close> of \<open>internal/store/postgres.go\<close>. What \<open>pgxpool.New\<close>, \<open>Exec\<close> and \<open>Ping\<close> answer for the URL is a parameter. A pool
  that was opened for the migration is closed on both ways out, one that does not answer is closed at once.
\<close>

definition ApplyMigrations :: "start_env \<Rightarrow> string \<Rightarrow> go_error option" where
  "ApplyMigrations sv url = (case sv_exec sv url of Some err \<Rightarrow> Some (ErrWrap ''apply migration'' err) | None \<Rightarrow> None)"

definition auto_migrate :: "start_env \<Rightarrow> environ \<Rightarrow> string \<Rightarrow> go_error option" where
  "auto_migrate sv env url =
     (if config_Bool env ''AUTO_MIGRATE'' False
      then case sv_newPool sv url of Some err \<Rightarrow> Some err | None \<Rightarrow> ApplyMigrations sv url
      else None)"

definition NewPostgres :: "start_env \<Rightarrow> string \<Rightarrow> go_error option" where
  "NewPostgres sv url = (case sv_newPool sv url of Some err \<Rightarrow> Some err | None \<Rightarrow> sv_ping sv url)"

definition start_control_plane :: "start_env \<Rightarrow> environ \<Rightarrow> go_error + aead \<times> server_tls option \<times> api" where
  "start_control_plane sv env =
     attempt (Cipher_New (sv_crypto sv) (config_String env ''ENCRYPTION_KEY'' [])) (\<lambda>cipher.
     let databaseURL = config_String env ''DATABASE_URL'' [] in
     if databaseURL = [] then Inl (ErrMsg ''DATABASE_URL is required'')
     else check_call (auto_migrate sv env databaseURL) (
          check_call (NewPostgres sv databaseURL) (
          attempt (serverTLS (sv_tls sv) env) (\<lambda>tls.
          check_call (sv_listen sv (config_String env ''GRPC_ADDR'' '':9090'')) (
          Inr (cipher, tls, new_api env))))))"

text \<open>A control plane that starts has an encryption key, a database that answers, the migrations it was asked for, and its transport security.\<close>

lemma start_control_plane_needs:
  assumes "start_control_plane sv env = Inr (cipher, tls, a)"
  shows "Cipher_New (sv_crypto sv) (config_String env ''ENCRYPTION_KEY'' []) = Inr cipher" "os_Getenv env ''DATABASE_URL'' \<noteq> []"
    "sv_ping sv (os_Getenv env ''DATABASE_URL'') = None" "config_Bool env ''AUTO_MIGRATE'' False \<Longrightarrow> sv_exec sv (os_Getenv env ''DATABASE_URL'') = None"
    "serverTLS (sv_tls sv) env = Inr tls" "a = new_api env"
  using assms by (auto simp: start_control_plane_def Let_def check_call_def auto_migrate_def ApplyMigrations_def NewPostgres_def config_String_def
      split: if_splits option.splits)

text \<open>The guard of the API: a request passes only with the token, and no request passes while the token is not set.\<close>

lemma auth_passes_iff:
  "auth a path authorization = None \<longleftrightarrow>
     path = ''/live'' \<or> (api_adminToken a \<noteq> [] \<and> bytes_of (TrimPrefix authorization ''Bearer '') = bytes_of (api_adminToken a))"
  by (auto simp: auth_def Let_def)

lemma no_token_no_access: "os_Getenv env ''ADMIN_TOKEN'' = [] \<Longrightarrow> path \<noteq> ''/live'' \<Longrightarrow> auth (new_api env) path authorization \<noteq> None"
  by (simp add: auth_passes_iff new_api_def SetIngressPortRange_def NewAPI_def config_String_def)

end
