(* ===== verification/PM_Routing.thy ===== *)
theory PM_Routing
  imports PM_Control_Plane
begin

text \<open>
  The dispatch of requests, \<open>Handler\<close> of \<open>internal/control/api.go\<close>: the patterns it registers, the part of \<open>net/http\<close>'s \<open>ServeMux\<close> that it uses, and the
  guard around it. A path is its segments between slashes. A literal segment matches itself, a wildcard any segment that is not empty; a pattern for \<open>GET\<close> serves \<open>HEAD\<close> as well. A path
  that is not clean is redirected, one that matches only under another method is answered with 405. Percent-encoded segments are taken as decoded.
\<close>

section \<open>Patterns\<close>

datatype segment = Lit string | Wild string

datatype endpoint =
    EpLive | EpCreateDevice | EpRotateCredential | EpAddIngress | EpDeleteIngress | EpPutRoute | EpDeviceStatus | EpInterrupt
  | EpGateways | EpSetGatewayDraining | EpPutProvider | EpProviders | EpPutRouteFromProvider

type_synonym pattern = "string \<times> segment list \<times> endpoint"

definition api_patterns :: "pattern list" where
  "api_patterns =
     [(''GET'', [Lit ''live''], EpLive),
      (''POST'', [Lit ''v1'', Lit ''devices''], EpCreateDevice),
      (''POST'', [Lit ''v1'', Lit ''devices'', Wild ''deviceId'', Lit ''credentials'', Lit ''rotate''], EpRotateCredential),
      (''POST'', [Lit ''v1'', Lit ''devices'', Wild ''deviceId'', Lit ''ingresses''], EpAddIngress),
      (''DELETE'', [Lit ''v1'', Lit ''devices'', Wild ''deviceId'', Lit ''ingresses'', Wild ''port''], EpDeleteIngress),
      (''PUT'', [Lit ''v1'', Lit ''devices'', Wild ''deviceId'', Lit ''route''], EpPutRoute),
      (''GET'', [Lit ''v1'', Lit ''devices'', Wild ''deviceId'', Lit ''status''], EpDeviceStatus),
      (''POST'', [Lit ''v1'', Lit ''devices'', Wild ''deviceId'', Lit ''connections'', Lit ''interrupt''], EpInterrupt),
      (''GET'', [Lit ''v1'', Lit ''gateways''], EpGateways),
      (''POST'', [Lit ''v1'', Lit ''gateways'', Wild ''gatewayId'', Lit ''draining''], EpSetGatewayDraining),
      (''PUT'', [Lit ''v1'', Lit ''providers'', Wild ''providerId''], EpPutProvider),
      (''GET'', [Lit ''v1'', Lit ''providers''], EpProviders),
      (''POST'', [Lit ''v1'', Lit ''devices'', Wild ''deviceId'', Lit ''route'', Lit ''from-provider''], EpPutRouteFromProvider)]"

section \<open>Matching\<close>

text \<open>The values that \<open>PathValue\<close> reads.\<close>

fun match_segments :: "segment list \<Rightarrow> string list \<Rightarrow> (string, string) gomap option" where
  "match_segments [] [] = Some []"
| "match_segments (Lit l # ps) (s # ss) = (if s = l then match_segments ps ss else None)"
| "match_segments (Wild n # ps) (s # ss) = (if s = [] then None else map_option (Cons (n, s)) (match_segments ps ss))"
| "match_segments _ _ = None"

definition method_matches :: "string \<Rightarrow> string \<Rightarrow> bool" where
  "method_matches pm m \<longleftrightarrow> pm = m \<or> pm = ''GET'' \<and> m = ''HEAD''"

definition path_segments :: "string \<Rightarrow> string list" where
  "path_segments path = tl (split_on (CHR ''/'') path)"

definition clean_path :: "string \<Rightarrow> bool" where
  "clean_path path \<longleftrightarrow> path \<noteq> [] \<and> hd path = CHR ''/'' \<and> [] \<notin> set (butlast (path_segments path)) \<and> ''.'' \<notin> set (path_segments path) \<and> ''..'' \<notin> set (path_segments path)"

datatype dispatched = Redirected | NotFound | MethodNotAllowed | Handled endpoint "(string, string) gomap"

definition path_matches :: "string \<Rightarrow> pattern \<Rightarrow> bool" where
  "path_matches path p \<longleftrightarrow> match_segments (fst (snd p)) (path_segments path) \<noteq> None"

definition ServeMux :: "pattern list \<Rightarrow> string \<Rightarrow> string \<Rightarrow> dispatched" where
  "ServeMux ps req_method path =
     (if \<not> clean_path path then Redirected
      else case filter (\<lambda>p. method_matches (fst p) req_method) (filter (path_matches path) ps) of
        p # _ \<Rightarrow> Handled (snd (snd p)) (the (match_segments (fst (snd p)) (path_segments path)))
      | [] \<Rightarrow> if list_ex (path_matches path) ps then MethodNotAllowed else NotFound)"

definition Handler :: "api \<Rightarrow> string \<Rightarrow> string \<Rightarrow> string \<Rightarrow> response + dispatched" where
  "Handler a req_method path authorization =
     (case auth a path authorization of Some resp \<Rightarrow> Inl resp | None \<Rightarrow> Inr (ServeMux api_patterns req_method path))"

section \<open>One handler for each request\<close>

text \<open>Two patterns that no path matches both: of different lengths, or with different literals somewhere.\<close>

fun clash :: "segment \<Rightarrow> segment \<Rightarrow> bool" where
  "clash (Lit a) (Lit b) = (a \<noteq> b)"
| "clash _ _ = False"

fun apart :: "segment list \<Rightarrow> segment list \<Rightarrow> bool" where
  "apart [] [] = False"
| "apart (p # ps) (q # qs) = (clash p q \<or> apart ps qs)"
| "apart [] (q # qs) = True"
| "apart (p # ps) [] = True"

lemma match_Cons:
  "match_segments (p # ps) ss \<noteq> None \<longleftrightarrow> (\<exists>s ss'. ss = s # ss' \<and> (case p of Lit l \<Rightarrow> s = l | Wild n \<Rightarrow> s \<noteq> []) \<and> match_segments ps ss' \<noteq> None)"
  by (cases p; cases ss) auto

lemma match_Nil: "match_segments [] ss \<noteq> None \<longleftrightarrow> ss = []"
  by (cases ss) auto

lemma clash_Lit: "clash p q \<Longrightarrow> \<exists>a b. p = Lit a \<and> q = Lit b \<and> a \<noteq> b"
  by (cases p; cases q) auto

lemma apart_matches: "apart ps qs \<Longrightarrow> match_segments ps ss \<noteq> None \<Longrightarrow> \<not> match_segments qs ss \<noteq> None"
proof (induction ps qs arbitrary: ss rule: apart.induct)
  case (2 p ps q qs)
  then show ?case unfolding match_Cons by (auto dest: clash_Lit)
next
  case (3 q qs)
  then show ?case unfolding match_Cons match_Nil by auto
next
  case (4 p ps)
  then show ?case unfolding match_Cons match_Nil by auto
qed simp

fun pairwise_apart :: "pattern list \<Rightarrow> bool" where
  "pairwise_apart [] = True"
| "pairwise_apart (p # ps) = (list_all (\<lambda>q. apart (fst (snd p)) (fst (snd q))) ps \<and> pairwise_apart ps)"

lemma pairwise_one: "pairwise_apart ps \<Longrightarrow> length (filter (path_matches path) ps) \<le> 1"
proof (induction ps)
  case (Cons p ps)
  show ?case
  proof (cases "path_matches path p")
    case True
    have "\<not> path_matches path q" if "q \<in> set ps" for q
      using Cons.prems that True apart_matches by (fastforce simp: path_matches_def list_all_iff)
    then have "filter (path_matches path) ps = []" by (simp add: filter_empty_conv)
    then show ?thesis by simp
  qed (use Cons in simp)
qed simp

lemma api_patterns_apart: "pairwise_apart api_patterns"
  by code_simp

text \<open>So the order in which the patterns are registered does not matter.\<close>

lemma ServeMux_handled:
  assumes "pairwise_apart ps"
  shows "ServeMux ps m path = Handled ep params \<longleftrightarrow>
    clean_path path \<and> (\<exists>pm segs. (pm, segs, ep) \<in> set ps \<and> method_matches pm m \<and> match_segments segs (path_segments path) = Some params)"
proof -
  let ?F = "filter (path_matches path) ps"
  have one: "length ?F \<le> 1" by (rule pairwise_one [OF assms])
  have in_F: "p \<in> set ?F \<longleftrightarrow> p \<in> set ps \<and> match_segments (fst (snd p)) (path_segments path) \<noteq> None" for p by (simp add: path_matches_def)
  show ?thesis
  proof (cases ?F)
    case Nil
    then have "match_segments segs (path_segments path) = None" if "(pm, segs, ep') \<in> set ps" for pm segs ep' using in_F [of "(pm, segs, ep')"] that by auto
    then have "\<not> (\<exists>pm segs. (pm, segs, ep) \<in> set ps \<and> match_segments segs (path_segments path) = Some params)" by fastforce
    then show ?thesis using Nil by (auto simp: ServeMux_def)
  next
    case (Cons p rest)
    then have F: "?F = [p]" using one by (cases rest) auto
    obtain pm segs ep' where p: "p = (pm, segs, ep')" by (cases p)
    have pin: "(pm, segs, ep') \<in> set ps" "match_segments segs (path_segments path) \<noteq> None" using F in_F [of p] p by auto
    have uniq: "q = p" if "q \<in> set ps" "match_segments (fst (snd q)) (path_segments path) \<noteq> None" for q
      using in_F [of q] that F by simp
    have "(\<exists>pm' segs'. (pm', segs', ep) \<in> set ps \<and> method_matches pm' m \<and> match_segments segs' (path_segments path) = Some params)
        \<longleftrightarrow> ep = ep' \<and> method_matches pm m \<and> match_segments segs (path_segments path) = Some params"
    proof
      assume "\<exists>pm' segs'. (pm', segs', ep) \<in> set ps \<and> method_matches pm' m \<and> match_segments segs' (path_segments path) = Some params"
      then obtain pm' segs' where q: "(pm', segs', ep) \<in> set ps" "method_matches pm' m" "match_segments segs' (path_segments path) = Some params" by blast
      then have "(pm', segs', ep) = p" by (intro uniq) simp_all
      then show "ep = ep' \<and> method_matches pm m \<and> match_segments segs (path_segments path) = Some params" using q p by simp
    next
      assume "ep = ep' \<and> method_matches pm m \<and> match_segments segs (path_segments path) = Some params"
      then show "\<exists>pm' segs'. (pm', segs', ep) \<in> set ps \<and> method_matches pm' m \<and> match_segments segs' (path_segments path) = Some params"
        using pin(1) by blast
    qed
    then show ?thesis using F pin(2) p by (auto simp: ServeMux_def)
  qed
qed



end
