(* ===== verification/PM_Client_Loop.thy ===== *)
theory PM_Client_Loop
  imports PM_Process
begin

text \<open>
  The life of a control stream at the gateway's end, \<open>connect\<close> and \<open>Run\<close> of \<open>internal/dataplane/control_client.go\<close>: three goroutines that share two
  channels of frames and two of errors. \<open>grpc.NewClient\<close>, the call of \<open>Connect\<close> and what \<open>Send\<close> and \<open>Recv\<close> return are parameters or choices of the environment.
\<close>

section \<open>Opening the stream\<close>

record stream_state =
  ss_client :: control_client
  ss_out :: "frame list"
  ss_sender :: bool
  ss_sendErr :: "go_error option"
  ss_receiver :: bool
  ss_recv :: "frame option"
  ss_recvErr :: "go_error option"
  ss_ctx :: bool
  ss_result :: "go_error option option"
  ss_sent :: "frame list"
  ss_queued :: "frame list"
  ss_handled :: "frame list"

text \<open>
  \<open>ss_sender\<close> and \<open>ss_receiver\<close> say whether the goroutine still runs; \<open>ss_recv\<close> is the frame that the receiver offers on the unbuffered channel;
  \<open>ss_result\<close> is \<open>Some\<close> once \<open>connect\<close> has returned. The last three fields record what went over the stream, what the loop has put into \<open>out\<close> after the registration, and what it has handled.
\<close>

definition open_stream :: "control_client \<Rightarrow> stream_state" where
  "open_stream c = \<lparr>ss_client = c, ss_out = [register_frame c], ss_sender = True, ss_sendErr = None, ss_receiver = True, ss_recv = None, ss_recvErr = None,
     ss_ctx = False, ss_result = None, ss_sent = [], ss_queued = [], ss_handled = []\<rparr>"

definition connect_begin :: "(transport \<Rightarrow> go_error option) \<Rightarrow> go_error option \<Rightarrow> go_error + transport \<Rightarrow> control_client \<Rightarrow> go_error + stream_state" where
  "connect_begin NewClient Connect creds c =
     attempt creds (\<lambda>t. case NewClient t of Some err \<Rightarrow> Inl err | None \<Rightarrow> (case Connect of Some err \<Rightarrow> Inl err | None \<Rightarrow> Inr (open_stream c)))"

section \<open>The goroutines\<close>

definition out_capacity :: nat where "out_capacity = 64"

text \<open>\<open>out <- f\<close>.\<close>

definition put_out :: "frame \<Rightarrow> stream_state \<Rightarrow> stream_state" where
  "put_out f s = s\<lparr>ss_out := ss_out s @ [f], ss_queued := ss_queued s @ [f]\<rparr>"

definition handle_received :: "client_env \<Rightarrow> frame \<Rightarrow> stream_state \<Rightarrow> stream_state" where
  "handle_received e f s =
     (case client_recv e (ss_client s) f of (c, ack) \<Rightarrow> put_out ack (s\<lparr>ss_client := c, ss_recv := None, ss_handled := ss_handled s @ [f]\<rparr>))"

definition return_with :: "stream_end \<Rightarrow> stream_state \<Rightarrow> stream_state" where
  "return_with ev s = s\<lparr>ss_result := Some (connect_result ev)\<rparr>"

inductive connect_step :: "stream_state \<Rightarrow> stream_state \<Rightarrow> bool" where
  send_ok: "ss_sender s \<Longrightarrow> ss_out s = f # rest \<Longrightarrow> ss_result s = None \<Longrightarrow> connect_step s (s\<lparr>ss_out := rest, ss_sent := ss_sent s @ [f]\<rparr>)"
| send_failed: "ss_sender s \<Longrightarrow> ss_out s = f # rest \<Longrightarrow> connect_step s (s\<lparr>ss_out := rest, ss_sender := False, ss_sendErr := Some err\<rparr>)"
| send_cancelled: "ss_sender s \<Longrightarrow> ss_ctx s \<Longrightarrow> connect_step s (s\<lparr>ss_sender := False, ss_sendErr := Some ErrCanceled\<rparr>)"
| recv_ok: "ss_receiver s \<Longrightarrow> ss_recv s = None \<Longrightarrow> ss_result s = None \<Longrightarrow> connect_step s (s\<lparr>ss_recv := Some f\<rparr>)"
| recv_failed: "ss_receiver s \<Longrightarrow> ss_recv s = None \<Longrightarrow> connect_step s (s\<lparr>ss_receiver := False, ss_recvErr := Some err\<rparr>)"
| main_recv: "ss_result s = None \<Longrightarrow> ss_recv s = Some f \<Longrightarrow> length (ss_out s) < out_capacity \<Longrightarrow> connect_step s (handle_received e f s)"
| main_heartbeat: "ss_result s = None \<Longrightarrow> length (ss_out s) < out_capacity \<Longrightarrow> connect_step s (put_out (heartbeat_frame (ss_client s) now) s)"
| main_recvErr: "ss_result s = None \<Longrightarrow> ss_recvErr s = Some err \<Longrightarrow> connect_step s (return_with (RecvFailed err) s)"
| main_sendErr: "ss_result s = None \<Longrightarrow> ss_sendErr s = Some err \<Longrightarrow> connect_step s (return_with (SendFailed err) s)"
| main_ctx: "ss_result s = None \<Longrightarrow> ss_ctx s \<Longrightarrow> connect_step s (return_with StreamCancelled s)"
| cancel: "connect_step s (s\<lparr>ss_ctx := True\<rparr>)"

text \<open>
  After \<open>connect\<close> has returned its deferred \<open>conn.Close()\<close> has closed the stream: \<open>Send\<close> and \<open>Recv\<close> only fail then.
\<close>

section \<open>What a stream carries\<close>

definition stream_ok :: "control_client \<Rightarrow> stream_state \<Rightarrow> bool" where
  "stream_ok c s \<longleftrightarrow> (ss_sender s \<longrightarrow> register_frame c # ss_queued s = ss_sent s @ ss_out s)
     \<and> (\<exists>unsent. register_frame c # ss_queued s = ss_sent s @ unsent)
     \<and> map f_RequestID (filter (\<lambda>f. f_Type f = TypeAck) (ss_queued s)) = map f_RequestID (ss_handled s)
     \<and> (\<forall>f \<in> set (ss_queued s). f_Type f = TypeAck \<or> f_Type f = TypeHeartbeat)"

lemma stream_ok_put:
  assumes ok: "stream_ok c s" and f: "f_Type f = TypeAck \<and> ids = [f_RequestID f] \<or> f_Type f = TypeHeartbeat \<and> ids = []"
    and s': "ss_queued s' = ss_queued s @ [f]" "ss_out s' = ss_out s @ [f]" "ss_sent s' = ss_sent s" "ss_sender s' = ss_sender s"
      "map f_RequestID (ss_handled s') = map f_RequestID (ss_handled s) @ ids"
  shows "stream_ok c s'"
proof -
  have ack: "TypeAck \<noteq> TypeHeartbeat" by (simp add: type_defs)
  obtain unsent where "register_frame c # ss_queued s = ss_sent s @ unsent" using ok by (auto simp: stream_ok_def)
  then have "register_frame c # ss_queued s' = ss_sent s' @ (unsent @ [f])" using s' by (metis append_Cons append_assoc)
  then have u: "\<exists>unsent. register_frame c # ss_queued s' = ss_sent s' @ unsent" by blast
  have sn: "ss_sender s' \<longrightarrow> register_frame c # ss_queued s' = ss_sent s' @ ss_out s'"
    using ok s' unfolding stream_ok_def by (metis append_Cons append_assoc)
  have "map f_RequestID (filter (\<lambda>f. f_Type f = TypeAck) (ss_queued s')) = map f_RequestID (ss_handled s')
    \<and> (\<forall>f \<in> set (ss_queued s'). f_Type f = TypeAck \<or> f_Type f = TypeHeartbeat)"
    using ok f ack s'(1,5) unfolding stream_ok_def by auto
  then show ?thesis using u sn unfolding stream_ok_def by blast
qed

lemma stream_ok_step:
  assumes "stream_ok c s" and "connect_step s s'"
  shows "stream_ok c s'"
  using assms(2)
proof cases
  case (main_recv f e)
  obtain c' ack where r: "client_recv e (ss_client s) f = (c', ack)" by fastforce
  have "f_Type ack = TypeAck" "f_RequestID ack = f_RequestID f" using r by (auto simp: client_recv_def ack_for_def split: prod.splits)
  then show ?thesis using stream_ok_put [OF assms(1), of ack "[f_RequestID f]" s'] main_recv(1) by (simp add: handle_received_def r put_out_def)
next
  case (main_heartbeat now)
  then show ?thesis using stream_ok_put [OF assms(1), of "heartbeat_frame (ss_client s) now" "[]" s']
    by (simp add: put_out_def heartbeat_frame_def)
qed (use assms(1) in \<open>auto simp: stream_ok_def return_with_def\<close>)

interpretation stream_inv: invariant_of "\<lambda>s. s = open_stream c" connect_step "stream_ok c" for c
proof unfold_locales
  show "stream_ok c s" if "s = open_stream c" for s using that by (simp add: stream_ok_def open_stream_def)
qed (rule stream_ok_step)

text \<open>
  C38: what a gateway sends on a control stream begins with its registration, and every frame after it is an acknowledgement or a heartbeat. The acknowledgements come in the order in which the frames were handled, one for each, under its
  request id; what has been sent is a prefix of them, and all of it once nothing is left in the channel and no send has failed.
\<close>

theorem gateway_acks_in_order:
  assumes "reach (\<lambda>s. s = open_stream c) connect_step s"
  shows "\<exists>unsent answers. ss_sent s @ unsent = register_frame c # answers
    \<and> map f_RequestID (filter (\<lambda>f. f_Type f = TypeAck) answers) = map f_RequestID (ss_handled s)
    \<and> (\<forall>f \<in> set answers. f_Type f = TypeAck \<or> f_Type f = TypeHeartbeat) \<and> (ss_sender s \<longrightarrow> unsent = ss_out s)"
proof -
  have ok: "stream_ok c s" by (rule stream_inv.reach_inv [OF assms])
  then obtain unsent where "register_frame c # ss_queued s = ss_sent s @ unsent" by (auto simp: stream_ok_def)
  moreover from this have "ss_sender s \<longrightarrow> unsent = ss_out s" using ok by (simp add: stream_ok_def)
  ultimately show ?thesis using ok unfolding stream_ok_def by metis
qed

theorem gateway_acks_in_order_witness:
  "\<exists>(s :: stream_state) unsent answers. ss_handled s = [snapshot_frame] \<and> ss_sent s @ unsent = register_frame demo_client # answers
     \<and> map f_RequestID (filter (\<lambda>f. f_Type f = TypeAck) answers) = [f_RequestID snapshot_frame]"
proof -
  let ?s0 = "open_stream demo_client"
  let ?s1 = "?s0\<lparr>ss_recv := Some snapshot_frame\<rparr>"
  have 0: "reach (\<lambda>s. s = open_stream demo_client) connect_step ?s0" by (rule reach_init) simp
  have 1: "reach (\<lambda>s. s = open_stream demo_client) connect_step ?s1" by (rule reach_step [OF 0], rule recv_ok) (simp_all add: open_stream_def)
  have 2: "reach (\<lambda>s. s = open_stream demo_client) connect_step (handle_received demo_env snapshot_frame ?s1)"
    by (rule reach_step [OF 1], rule main_recv) (simp_all add: open_stream_def out_capacity_def)
  have h: "ss_handled (handle_received e f s) = ss_handled s @ [f]" for e f s by (cases "client_recv e (ss_client s) f") (simp add: handle_received_def put_out_def)
  define t where "t = handle_received demo_env snapshot_frame ?s1"
  have t: "ss_handled t = [snapshot_frame]" unfolding t_def h by (simp add: open_stream_def)
  obtain unsent answers where a: "ss_sent t @ unsent = register_frame demo_client # answers"
    "map f_RequestID (filter (\<lambda>f. f_Type f = TypeAck) answers) = map f_RequestID (ss_handled t)"
    using gateway_acks_in_order [OF 2] unfolding t_def by blast
  from a(2) have m: "map f_RequestID (filter (\<lambda>f. f_Type f = TypeAck) answers) = [f_RequestID snapshot_frame]" by (simp add: t)
  show ?thesis by (rule exI [of _ t], rule exI [of _ unsent], rule exI [of _ answers]) (intro conjI t a(1) m)
qed

section \<open>What a stream leaves behind\<close>

text \<open>
  When \<open>connect\<close> returns, nothing tells the sender: it waits for the next frame or for the end of the process. The steps of everyone but a cancellation of the context:
\<close>

definition sender_stuck :: "stream_state \<Rightarrow> bool" where
  "sender_stuck s \<longleftrightarrow> ss_sender s \<and> ss_out s = [] \<and> ss_result s \<noteq> None"

lemma sender_stays:
  assumes "connect_step s s'" and "sender_stuck s" and "\<not> ss_ctx s'"
  shows "sender_stuck s'"
  using assms(1) by cases (use assms in \<open>auto simp: sender_stuck_def return_with_def\<close>)

text \<open>
  Every control stream that ends while nothing is waiting to be sent leaves its sending goroutine behind. Whatever happens, short of the end of the process the goroutine stays; each reconnection adds one.
\<close>

theorem disconnect_leaks_sender:
  "(\<exists>s. reach (\<lambda>s. s = open_stream c) connect_step s \<and> ss_result s = Some None \<and> sender_stuck s)
   \<and> (\<forall>s s'. sender_stuck s \<and> (\<lambda>s s'. connect_step s s' \<and> \<not> ss_ctx s')\<^sup>*\<^sup>* s s' \<longrightarrow> ss_sender s' \<and> ss_result s' = ss_result s)"
proof (intro conjI allI impI)
  let ?s0 = "open_stream c"
  let ?s1 = "?s0\<lparr>ss_out := [], ss_sent := ss_sent ?s0 @ [register_frame c]\<rparr>"
  let ?s2 = "?s1\<lparr>ss_receiver := False, ss_recvErr := Some ErrEOF\<rparr>"
  have 0: "reach (\<lambda>s. s = open_stream c) connect_step ?s0" by (rule reach_init) simp
  have 1: "reach (\<lambda>s. s = open_stream c) connect_step ?s1" by (rule reach_step [OF 0], rule send_ok) (simp_all add: open_stream_def)
  have 2: "reach (\<lambda>s. s = open_stream c) connect_step ?s2" by (rule reach_step [OF 1], rule recv_failed) (simp_all add: open_stream_def)
  have 3: "reach (\<lambda>s. s = open_stream c) connect_step (return_with (RecvFailed ErrEOF) ?s2)"
    by (rule reach_step [OF 2], rule main_recvErr) (simp_all add: open_stream_def)
  then show "\<exists>s. reach (\<lambda>s. s = open_stream c) connect_step s \<and> ss_result s = Some None \<and> sender_stuck s"
    by (intro exI [of _ "return_with (RecvFailed ErrEOF) ?s2"] conjI) (simp_all add: return_with_def connect_result_def sender_stuck_def open_stream_def)
next
  fix s s' :: stream_state
  assume "sender_stuck s \<and> (\<lambda>s s'. connect_step s s' \<and> \<not> ss_ctx s')\<^sup>*\<^sup>* s s'"
  then have "(\<lambda>s s'. connect_step s s' \<and> \<not> ss_ctx s')\<^sup>*\<^sup>* s s'" "sender_stuck s" by simp_all
  then have "sender_stuck s' \<and> ss_result s' = ss_result s"
  proof (induction rule: rtranclp_induct)
    case (step t u)
    then have t: "sender_stuck t" "connect_step t u" "\<not> ss_ctx u" by simp_all
    have "ss_result u = ss_result t" using t(2) by cases (use t(1) in \<open>auto simp: sender_stuck_def return_with_def\<close>)
    then show ?case using sender_stays [OF t(2,1,3)] step by simp
  qed simp
  then show "ss_sender s'" "ss_result s' = ss_result s" by (simp_all add: sender_stuck_def)
qed

theorem disconnect_leaks_sender_witness:
  "\<exists>s s'. sender_stuck s \<and> connect_step s s' \<and> s' \<noteq> s \<and> ss_sender s'"
proof -
  let ?s = "(open_stream demo_client)\<lparr>ss_out := [], ss_result := Some None\<rparr>"
  let ?s' = "?s\<lparr>ss_receiver := False, ss_recvErr := Some ErrEOF\<rparr>"
  have st: "sender_stuck ?s" by (simp add: sender_stuck_def open_stream_def)
  have c: "connect_step ?s ?s'" by (rule recv_failed) (simp_all add: open_stream_def)
  have "\<not> ss_ctx ?s'" by (simp add: open_stream_def)
  then have "(\<lambda>s s'. connect_step s s' \<and> \<not> ss_ctx s')\<^sup>*\<^sup>* ?s ?s'" using c by (intro r_into_rtranclp) simp
  then have "ss_sender ?s'" using disconnect_leaks_sender [THEN conjunct2] st by blast
  moreover have "?s' \<noteq> ?s" by (simp add: open_stream_def)
  ultimately show ?thesis using st c by blast
qed

section \<open>Reconnecting\<close>

text \<open>
  \<open>Run\<close>: one entry for each call of \<open>connect\<close> says what it returned and whether the context is done when the loop looks. The result is the delays that the loop waits and the errors it
  logs; it goes on for as long as there are entries, and returns only when the context is done.
\<close>

fun Run_loop :: "int \<Rightarrow> (go_error option \<times> bool) list \<Rightarrow> int list \<times> go_error list \<times> bool" where
  "Run_loop backoff [] = ([], [], False)"
| "Run_loop backoff ((result, cancelled) # rest) =
     (let logged = (case result of None \<Rightarrow> [] | Some err \<Rightarrow> if errors_is err ErrCanceled then [] else [err]) in
      if cancelled then ([], logged, True)
      else case Run_loop (next_backoff backoff) rest of (delays, logs, returned) \<Rightarrow> (backoff # delays, logged @ logs, returned))"

definition Run :: "(go_error option \<times> bool) list \<Rightarrow> int list \<times> go_error list \<times> bool" where
  "Run attempts = Run_loop 1 attempts"

text \<open>Only the end of the process ends the loop, and before that it waits 1, 2, 4, 8, 16 and then always 32 seconds.\<close>

lemma Run_loop_delays:
  "fst (Run_loop b attempts) = map (\<lambda>n. (next_backoff ^^ n) b) [0..<length (takeWhile (\<lambda>a. \<not> snd a) attempts)]
   \<and> snd (snd (Run_loop b attempts)) = list_ex snd attempts"
proof (induction attempts arbitrary: b)
  case (Cons a attempts)
  have shift: "(next_backoff ^^ n) (next_backoff b) = (next_backoff ^^ Suc n) b" for n by (simp add: funpow_swap1)
  have "map (\<lambda>n. (next_backoff ^^ n) b) [0..<Suc k] = b # map (\<lambda>n. (next_backoff ^^ n) (next_backoff b)) [0..<k]" for k
    unfolding shift by (simp add: upt_conv_Cons map_Suc_upt [symmetric] comp_def del: upt_Suc)
  then show ?case using Cons.IH [of "next_backoff b"] by (cases a) (auto simp: Let_def split: prod.splits)
qed simp

end
