(* ===== verification/PM_Relay.thy ===== *)
theory PM_Relay
  imports PM_Prelude
begin

text \<open>
  Client connections of the gateway, \<open>acceptLoop\<close> and \<open>relay\<close> of \<open>internal/dataplane/gateway.go\<close>. The relay is three goroutines: one copies from the upstream to
  the client, one from the client to the upstream, and the caller waits for them or for the cancellation of the context. Its steps interleave in any
  order.
\<close>

section \<open>Accepting\<close>

text \<open>What \<open>Accept\<close> and \<open>WrapConn\<close> deliver, connection by connection.\<close>

datatype accept_event = AcceptFailed | WrapFailed nat | Wrapped nat

text \<open>The connections that the loop closes itself, and those it hands to \<open>handleShadowsocks\<close>.\<close>

fun acceptLoop :: "accept_event list \<Rightarrow> nat list \<times> nat list" where
  "acceptLoop [] = ([], [])"
| "acceptLoop (AcceptFailed # es) = ([], [])"
| "acceptLoop (WrapFailed c # es) = (case acceptLoop es of (closed, handled) \<Rightarrow> (c # closed, handled))"
| "acceptLoop (Wrapped c # es) = (case acceptLoop es of (closed, handled) \<Rightarrow> (closed, c # handled))"

section \<open>Relaying\<close>

datatype relay_pc = Selecting | AwaitSecond | RelayReturned

text \<open>
  \<open>rl_done\<close> is the number of values in the channel \<open>done\<close>. A copier ends when its source ends or either connection fails; it then shuts the write side
  of its destination, but only when that is a \<open>*net.TCPConn\<close>.
\<close>

record relay =
  rl_cancelled :: bool
  rl_pc :: relay_pc
  rl_done :: nat
  rl_to_client :: bool
  rl_to_upstream :: bool
  rl_closed :: bool
  rl_client_shut :: bool
  rl_upstream_shut :: bool

definition NewRelay :: relay where
  "NewRelay = \<lparr>rl_cancelled = False, rl_pc = Selecting, rl_done = 0, rl_to_client = True, rl_to_upstream = True,
     rl_closed = False, rl_client_shut = False, rl_upstream_shut = False\<rparr>"

inductive relay_step :: "bool \<Rightarrow> bool \<Rightarrow> relay \<Rightarrow> relay \<Rightarrow> bool" for client_tcp upstream_tcp where
  cancel: "relay_step client_tcp upstream_tcp s (s\<lparr>rl_cancelled := True\<rparr>)"
| upstream_ends: "rl_to_client s \<Longrightarrow> relay_step client_tcp upstream_tcp s
    (s\<lparr>rl_to_client := False, rl_client_shut := client_tcp, rl_done := Suc (rl_done s)\<rparr>)"
| client_ends: "rl_to_upstream s \<Longrightarrow> relay_step client_tcp upstream_tcp s
    (s\<lparr>rl_to_upstream := False, rl_upstream_shut := upstream_tcp, rl_done := Suc (rl_done s)\<rparr>)"
| take_cancel: "rl_pc s = Selecting \<Longrightarrow> rl_cancelled s \<Longrightarrow> relay_step client_tcp upstream_tcp s
    (s\<lparr>rl_closed := True, rl_pc := RelayReturned\<rparr>)"
| take_first: "rl_pc s = Selecting \<Longrightarrow> rl_done s = Suc n \<Longrightarrow> relay_step client_tcp upstream_tcp s
    (s\<lparr>rl_done := n, rl_pc := AwaitSecond\<rparr>)"
| take_second: "rl_pc s = AwaitSecond \<Longrightarrow> rl_done s = Suc n \<Longrightarrow> relay_step client_tcp upstream_tcp s
    (s\<lparr>rl_done := n, rl_pc := RelayReturned\<rparr>)"

text \<open>The channel holds one value for every copier that has ended, but those taken out.\<close>

definition ended :: "relay \<Rightarrow> nat" where
  "ended s = of_bool (\<not> rl_to_client s) + of_bool (\<not> rl_to_upstream s)"

definition relay_ok :: "bool \<Rightarrow> relay \<Rightarrow> bool" where
  "relay_ok upstream_tcp s \<longleftrightarrow> (rl_upstream_shut s \<longrightarrow> upstream_tcp)
     \<and> (case rl_pc s of
          Selecting \<Rightarrow> rl_done s = ended s \<and> \<not> rl_closed s
        | AwaitSecond \<Rightarrow> Suc (rl_done s) = ended s \<and> \<not> rl_closed s
        | RelayReturned \<Rightarrow> (rl_closed s \<and> rl_cancelled s) \<or> (\<not> rl_closed s \<and> \<not> rl_to_client s \<and> \<not> rl_to_upstream s))"

lemma relay_ok_step: "relay_step client_tcp upstream_tcp s t \<Longrightarrow> relay_ok upstream_tcp s \<Longrightarrow> relay_ok upstream_tcp t"
  by (induction rule: relay_step.induct) (auto simp: relay_ok_def ended_def of_bool_def split: relay_pc.splits if_splits)

interpretation relay_inv: invariant_of "\<lambda>s. s = NewRelay" "relay_step client_tcp upstream_tcp" "relay_ok upstream_tcp"
  for client_tcp upstream_tcp
proof unfold_locales
  show "relay_ok upstream_tcp s" if "s = NewRelay" for s using that by (simp add: relay_ok_def NewRelay_def ended_def)
  show "relay_ok upstream_tcp t" if "relay_ok upstream_tcp s" "relay_step client_tcp upstream_tcp s t" for s t
    using relay_ok_step [OF that(2,1)] .
qed

text \<open>While one direction runs, a relay that waits for it waits on, whatever else happens.\<close>

lemma await_stays:
  assumes "(relay_step client_tcp upstream_tcp)\<^sup>*\<^sup>* s t" and "relay_ok upstream_tcp s" and "rl_pc s = AwaitSecond" and "rl_to_client t"
  shows "rl_pc t = AwaitSecond \<and> relay_ok upstream_tcp t"
  using assms(1,4)
proof (induction rule: rtranclp_induct)
  case (step t u)
  have "rl_to_client t" using step.hyps(2) step.prems by cases auto
  then have t: "rl_pc t = AwaitSecond" "relay_ok upstream_tcp t" using step.IH by auto
  then have "rl_done t = 0" using \<open>rl_to_client t\<close> by (auto simp: relay_ok_def ended_def of_bool_def split: if_splits)
  with step.hyps(2) have "rl_pc u = AwaitSecond" by cases (use t(1) in auto)
  then show ?case using relay_ok_step [OF step.hyps(2) t(2)] by simp
qed (use assms in simp)


definition half_closed :: relay where
  "half_closed = NewRelay\<lparr>rl_to_upstream := False, rl_pc := AwaitSecond\<rparr>"


end
