(* ===== verification/PM_Acks.thy ===== *)
theory PM_Acks
  imports PM_Deploy
begin

text \<open>
  Acknowledgements that get lost between requests. All calls of \<open>broadcastAndWait\<close> read the same queue of a session and drop what is not theirs; \<open>deployMu\<close> keeps
  deployments apart, but \<open>Interrupt\<close> and \<open>SetDraining\<close> do not take it.
\<close>

section \<open>A deployment without its acknowledgement\<close>

definition messages :: "'st hub \<Rightarrow> nat \<Rightarrow> frame set" where
  "messages h i = set (s_send (h_all h ! i)) \<union> set (s_acks (h_all h ! i))"

text \<open>The deployment waits for a session on which no frame and no acknowledgement of its request is left.\<close>

definition starved_by :: "nat \<Rightarrow> 'st hub \<Rightarrow> bool" where
  "starved_by i h \<longleftrightarrow> i < length (h_all h) \<and> (\<exists>d ph rest. h_deploy h = Some d \<and> dp_pc d = Waiting ph (i # rest)
     \<and> f_RequestID (phase_frame d ph) = f_RequestID (dp_prepare d)
     \<and> (\<forall>f \<in> messages h i. f_RequestID f \<noteq> f_RequestID (dp_prepare d)))"

definition deploy_failed :: "'st hub \<Rightarrow> bool" where
  "deploy_failed h \<longleftrightarrow> (\<exists>d err. h_deploy h = Some d \<and> dp_pc d = Returned (Some err))"

text \<open>A step of somebody else adds only messages of other requests.\<close>

lemma starved_keep:
  assumes "starved_by i h" and "h_deploy h' = h_deploy h" and "length (h_all h) \<le> length (h_all h')"
    and "\<And>f. f \<in> messages h' i \<Longrightarrow> f_RequestID f \<in> f_RequestID ` messages h i \<or> other_id h (f_RequestID f)"
  shows "starved_by i h'"
proof -
  obtain d ph rest where d: "h_deploy h = Some d" "dp_pc d = Waiting ph (i # rest)" "f_RequestID (phase_frame d ph) = f_RequestID (dp_prepare d)"
    and no: "\<forall>f \<in> messages h i. f_RequestID f \<noteq> f_RequestID (dp_prepare d)" and i: "i < length (h_all h)"
    using assms(1) by (auto simp: starved_by_def)
  have "f_RequestID f \<noteq> f_RequestID (dp_prepare d)" if "f \<in> messages h' i" for f
    using assms(4) [OF that] no d(1) by (auto simp: other_id_def)
  then show ?thesis using d assms(2,3) i unfolding starved_by_def by force
qed

lemma messages_close:
  "i < length (h_all h) \<Longrightarrow> messages (Connect_close h j) i = messages h i" "h_deploy (Connect_close h j) = h_deploy h"
  "length (h_all (Connect_close h j)) = length (h_all h)"
  by (cases "gget (h_sessions h) (s_id (h_all h ! j)) = Some j"; simp add: Connect_close_def Let_def messages_def upd_session_nth)+

lemma starved_wait:
  assumes "starved_by i h" and "h_deploy h = Some d" and "dp_pc d = Waiting ph (i # rest)" and "event_possible (h_all h ! i) ev"
  shows "starved_by i (wait_next h d ph i rest ev) \<or> deploy_failed (wait_next h d ph i rest ev)"
proof (cases ev)
  case (GotAck a)
  let ?h = "wait_next h d ph i rest ev"
  have i: "i < length (h_all h)" and rid: "f_RequestID (phase_frame d ph) = f_RequestID (dp_prepare d)"
    and no: "\<forall>f \<in> messages h i. f_RequestID f \<noteq> f_RequestID (dp_prepare d)" using assms(1-3) by (auto simp: starved_by_def)
  have a: "s_acks (h_all h ! i) \<noteq> []" "hd (s_acks (h_all h ! i)) = a" using assms(4) GotAck by (auto simp: event_possible_def)
  then have "f_RequestID a \<noteq> f_RequestID (phase_frame d ph)" using no rid by (force simp: messages_def)
  then have h': "?h = set_pc (Waiting ph (i # rest)) d (take_event i (GotAck a) h)"
    using GotAck by (simp add: wait_next_def Let_def wait_verdict_def wait_record_def)
  have "h_deploy ?h = h_deploy h" using assms(2,3) by (simp add: h' set_pc_def)
  moreover have "messages ?h i \<subseteq> messages h i" "length (h_all h) = length (h_all ?h)"
    using i by (auto simp: h' set_pc_def take_event_def messages_def upd_session_def dest: list.set_sel(2) [OF a(1)])
  ultimately have "starved_by i ?h" by (intro starved_keep [OF assms(1)]) auto
  then show ?thesis ..
qed (auto simp: wait_next_def Let_def wait_verdict_def set_pc_def deploy_failed_def)

text \<open>From then on it waits until it fails: by the deadline, the cancellation of the request or the end of the session.\<close>

lemma starved_step:
  assumes "hub_step k h h'" and "starved_by i h"
  shows "starved_by i h' \<or> deploy_failed h'"
proof -
  have i: "i < length (h_all h)" using assms(2) by (simp add: starved_by_def)
  obtain d0 ph0 rest0 where d0: "h_deploy h = Some d0" "dp_pc d0 = Waiting ph0 (i # rest0)"
    using assms(2) by (auto simp: starved_by_def)
  note keep = starved_keep [OF assms(2)]
  from assms(1) show ?thesis
  proof cases
    case (register f peer)
    then have "h_deploy h' = h_deploy h" "length (h_all h) \<le> length (h_all h')" "messages h' i = messages h i"
      using i by (auto simp: Connect_register_def messages_def nth_append split: if_splits)
    then show ?thesis using keep [of h'] by auto
  next
    case (snapshot j rid listed)
    have s: "starved_by i (Connect_close h j)"
      by (rule keep) (use i in \<open>auto simp: messages_close\<close>)
    show ?thesis
    proof (cases listed)
      case (Inr routes)
      show ?thesis by (rule disjI1 [OF keep])
        (use i snapshot(1,4) Inr in \<open>auto simp: Connect_snapshot_def messages_def upd_session_nth split: if_splits\<close>)
    qed (use s snapshot(1) in \<open>simp add: Connect_snapshot_def\<close>)
  next
    case (close j)
    show ?thesis by (rule disjI1 [OF keep]) (use i close in \<open>auto simp: messages_close\<close>)
  next
    case (heartbeat j t now)
    show ?thesis by (rule disjI1 [OF keep]) (use i heartbeat in \<open>auto simp: Connect_recv_def heartbeat_frame_def type_defs Let_def messages_def upd_session_nth split: if_splits\<close>)
  next
    case (handle_frame j f rest e now)
    have j: "j < length (h_all h)" using handle_frame(2) by (simp add: live_def)
    show ?thesis by (rule disjI1 [OF keep]) (use i j handle_frame(1,3) ack_request [of e "s_peer (h_all h ! j)" f] in
        \<open>auto simp: deliver_upd messages_def upd_session_nth recv_session_def split: if_splits\<close>)
  next
    case (peer_background j g')
    show ?thesis by (rule disjI1 [OF keep]) (use i peer_background in \<open>auto simp: messages_def upd_session_nth split: if_splits\<close>)
  next
    case (interrupt_send j rid did)
    show ?thesis by (rule disjI1 [OF keep]) (use i interrupt_send in \<open>auto simp: enqueue_def messages_def upd_session_nth Hub_Interrupt_frame_def split: if_splits\<close>)
  next
    case (draining_send j rid b)
    show ?thesis by (rule disjI1 [OF keep]) (use i draining_send in \<open>auto simp: enqueue_def messages_def upd_session_nth Hub_SetDraining_frame_def split: if_splits\<close>)
  next
    case (draining_finish j)
    show ?thesis by (rule disjI1 [OF keep]) (use i draining_finish in \<open>auto simp: Hub_SetDraining_finish_def messages_def upd_session_nth split: if_splits\<close>)
  next
    case (other_ack j a rest)
    show ?thesis by (rule disjI1 [OF keep]) (use i other_ack in \<open>auto simp: take_event_def messages_def upd_session_nth dest: list.set_sel(2) split: if_splits\<close>)
  next
    case (wait d ph j rest ev)
    then show ?thesis using starved_wait [OF assms(2) d0] d0 by auto
  next
    case (deploy_route rid r commit)
    then show ?thesis using d0 by (auto simp: running_def)
  next
    case (deploy_device rid dv commit)
    then show ?thesis using d0 by (auto simp: running_def)
  qed (use d0 in auto)
qed

section \<open>How it comes about\<close>

text \<open>
  A gateway is sent a prepare frame and an interrupt frame; it handles both, and the request that interrupts takes the acknowledgements off the queue, the one of the deployment too.
\<close>

definition acked_run :: "sched list" where
  "acked_run = connected @ [Deploy ''2'' newer_route, SendNext, QueueInterrupt 0 ''3'' ''d'', Deliver 0, Deliver 0, DropAck 0]"

definition swallowed_run :: "sched list" where
  "swallowed_run = acked_run @ [DropAck 0]"

definition answered :: "'st hub \<Rightarrow> nat \<Rightarrow> bool" where
  "answered h i = (case h_deploy h of None \<Rightarrow> False | Some d \<Rightarrow>
     (case s_acks (h_all h ! i) of [] \<Rightarrow> False | a # _ \<Rightarrow> f_RequestID a = f_RequestID (dp_prepare d) \<and> f_Error a = []))"

lemma swallowed_deploy: "h_deploy (run_ops swallowed_run) = Some (deploy_of swallowed_run)" "dp_pc (deploy_of swallowed_run) = Waiting PhasePrepare [0]"
proof -
  have "h_deploy (run_ops swallowed_run) \<noteq> None" by code_simp
  then show "h_deploy (run_ops swallowed_run) = Some (deploy_of swallowed_run)" by (auto simp: deploy_of_def)
  show "dp_pc (deploy_of swallowed_run) = Waiting PhasePrepare [0]" by code_simp
qed

lemma swallowed_starved: "starved_by 0 (run_ops swallowed_run)"
proof -
  let ?h = "run_ops swallowed_run"
  have "0 < length (h_all ?h)" by code_simp
  moreover have "list_all (\<lambda>f. f_RequestID f \<noteq> f_RequestID (dp_prepare (deploy_of swallowed_run))) (s_send (h_all ?h ! 0) @ s_acks (h_all ?h ! 0))"
    by code_simp
  ultimately show ?thesis using swallowed_deploy by (auto simp: starved_by_def messages_def phase_frame_def list_all_iff)
qed



end
