(* ===== verification/PM_Broadcast.thy ===== *)
theory PM_Broadcast
  imports PM_Deploy PM_Net
begin

text \<open>
  The requests of \<open>internal/control/hub.go\<close> that broadcast one frame outside a deployment: \<open>Interrupt\<close>, \<open>SetDraining\<close> and \<open>BroadcastDevice\<close>. Each is
  one call of \<open>broadcastAndWait\<close> with a program counter of its own, interleaved with everything that the hub, the gateways and other requests do. Also
  the loop in which \<open>Connect\<close> stays until a session ends.
\<close>

section \<open>One broadcast\<close>

datatype bcast_pc = BSending "nat list" | BWaiting "nat list" | BReturned "go_error option"

record bcast =
  bc_frame :: frame
  bc_sessions :: "nat list"
  bc_pc :: bcast_pc

definition broadcastAndWait :: "nat list \<Rightarrow> frame \<Rightarrow> bcast" where
  "broadcastAndWait sessions f = \<lparr>bc_frame = f, bc_sessions = sessions,
     bc_pc = (if sessions = [] then BReturned (Some (ErrMsg ''no ready gateways connected'')) else BSending sessions)\<rparr>"

definition bcast_send :: "'st hub \<Rightarrow> bcast \<Rightarrow> nat \<Rightarrow> nat list \<Rightarrow> 'st hub \<times> bcast" where
  "bcast_send h b i rest = (enqueue (bc_frame b) i h, b\<lparr>bc_pc := (if rest = [] then BWaiting (bc_sessions b) else BSending rest)\<rparr>)"

definition bcast_wait :: "'st hub \<Rightarrow> bcast \<Rightarrow> nat \<Rightarrow> nat list \<Rightarrow> wait_event \<Rightarrow> 'st hub \<times> bcast" where
  "bcast_wait h b i rest ev =
     (let sid = s_id (h_all h ! i) in
      (wait_record (take_event i ev h) (bc_frame b) sid ev,
       b\<lparr>bc_pc := (case wait_verdict (bc_frame b) sid ev of
                      Again \<Rightarrow> BWaiting (i # rest)
                    | Next \<Rightarrow> if rest = [] then BReturned None else BWaiting rest
                    | Fail err \<Rightarrow> BReturned (Some err))\<rparr>))"

text \<open>A request id is the time in nanoseconds, in decimal; requests at different times have different ids.\<close>

definition newID :: "time \<Rightarrow> string" where
  "newID now = sprint_int now"

lemma newID_distinct:
  assumes "0 \<le> t" "t < 2 ^ 63" "0 \<le> u" "u < 2 ^ 63" and "newID t = newID u"
  shows "t = u"
proof -
  have "Atoi (sprint_int t) = Atoi (sprint_int u)" using assms(5) by (simp only: newID_def)
  then show ?thesis by (simp only: Atoi_sprint [OF assms(1,2)] Atoi_sprint [OF assms(3,4)] option.inject)
qed

section \<open>The requests\<close>

definition Hub_Interrupt :: "'st hub \<Rightarrow> string \<Rightarrow> string \<Rightarrow> bcast" where
  "Hub_Interrupt h rid deviceID = broadcastAndWait (readySessions h) (Hub_Interrupt_frame rid deviceID)"

definition Hub_SetDraining :: "'st hub \<Rightarrow> string \<Rightarrow> string \<Rightarrow> bool \<Rightarrow> go_error + bcast" where
  "Hub_SetDraining h rid gatewayID draining =
     (case Hub_SetDraining_target h gatewayID of
        Inl err \<Rightarrow> Inl err
      | Inr i \<Rightarrow> Inr (broadcastAndWait [i] (Hub_SetDraining_frame rid draining)))"

definition Hub_BroadcastDevice :: "'st hub \<Rightarrow> string \<Rightarrow> device \<Rightarrow> bcast" where
  "Hub_BroadcastDevice h rid d = broadcastAndWait (readySessions h) (device_frame TypeDeviceUpdate rid d)"

section \<open>The loop of a session\<close>

text \<open>
  What the \<open>select\<close> at the end of \<open>Connect\<close> sees: a frame to send and what became of it, the error with which the receiving goroutine ended, the closed
  channel, or the end of the stream's context. \<open>None\<close> means another round.
\<close>

datatype connect_event = Sent "go_error option" | RecvEnded go_error | ClosedDone | StreamDone go_error

definition Connect_select :: "connect_event \<Rightarrow> go_error option option" where
  "Connect_select ev =
     (case ev of
        Sent None \<Rightarrow> None
      | Sent (Some err) \<Rightarrow> Some (Some err)
      | RecvEnded err \<Rightarrow> if errors_is err ErrEOF then Some None else Some (Some err)
      | ClosedDone \<Rightarrow> Some None
      | StreamDone err \<Rightarrow> Some (Some err))"

fun Connect_loop :: "connect_event list \<Rightarrow> go_error option option" where
  "Connect_loop [] = None"
| "Connect_loop (ev # evs) = (case Connect_select ev of None \<Rightarrow> Connect_loop evs | Some r \<Rightarrow> Some r)"

text \<open>The first event that is not a successful send decides; a gateway that hangs up in order ends its stream without an error.\<close>

lemma Connect_loop_first:
  "Connect_loop evs = (case dropWhile (\<lambda>ev. ev = Sent None) evs of [] \<Rightarrow> None | ev # _ \<Rightarrow> Connect_select ev)"
  by (induction evs) (auto simp: Connect_select_def split: connect_event.splits option.splits)

section \<open>Interleaving\<close>

text \<open>
  The third component of a state collects what gateways have done: the session, the frame that was handled without error, and the gateway as it was when the
  frame arrived. Steps of others bring no message with the id of this request, since ids are distinct.
\<close>

definition no_new_messages :: "'st hub \<Rightarrow> 'st hub \<Rightarrow> string \<Rightarrow> bool" where
  "no_new_messages h h' rid \<longleftrightarrow> length (h_all h) \<le> length (h_all h')
     \<and> (\<forall>i < length (h_all h'). \<forall>f. f_RequestID f = rid \<longrightarrow>
          (f \<in> set (s_send (h_all h' ! i)) \<longrightarrow> i < length (h_all h) \<and> f \<in> set (s_send (h_all h ! i)))
        \<and> (f \<in> set (s_acks (h_all h' ! i)) \<longrightarrow> i < length (h_all h) \<and> f \<in> set (s_acks (h_all h ! i))))"

type_synonym 'st bcast_state = "'st hub \<times> bcast \<times> (nat \<times> frame \<times> control_client) set"

inductive bcast_step :: "disk_env \<Rightarrow> 'st bcast_state \<Rightarrow> 'st bcast_state \<Rightarrow> bool" for k where
  bsend: "bc_pc b = BSending (i # rest) \<Longrightarrow> bcast_send h b i rest = (h', b') \<Longrightarrow> bcast_step k (h, b, H) (h', b', H)"
| bcancel: "bc_pc b = BSending todo \<Longrightarrow> bcast_step k (h, b, H) (h, b\<lparr>bc_pc := BReturned (Some err)\<rparr>, H)"
| bwait: "bc_pc b = BWaiting (i # rest) \<Longrightarrow> event_possible (h_all h ! i) ev \<Longrightarrow> bcast_wait h b i rest ev = (h', b') \<Longrightarrow>
    bcast_step k (h, b, H) (h', b', H)"
| bhandle: "live h i \<Longrightarrow> s_send (h_all h ! i) = f # rest \<Longrightarrow> errors_have_text e (s_peer (h_all h ! i)) f \<Longrightarrow>
    disk_ok (ce_disk e) \<Longrightarrow> same_codec (ce_disk e) k \<Longrightarrow>
    H' = (if snd (handle e (s_peer (h_all h ! i)) f) = None then insert (i, f, s_peer (h_all h ! i)) H else H) \<Longrightarrow>
    bcast_step k (h, b, H) (deliver e h i now, b, H')"
| bother: "hub_step k h h' \<Longrightarrow> no_new_messages h h' (f_RequestID (bc_frame b)) \<Longrightarrow> bcast_step k (h, b, H) (h', b, H)"

definition bcast_init :: "disk_env \<Rightarrow> 'st bcast_state \<Rightarrow> bool" where
  "bcast_init k st = (case st of (h, b, H) \<Rightarrow> H = {} \<and> hub_wf k h \<and> fresh_id h (f_RequestID (bc_frame b))
     \<and> ((\<exists>rid did. b = Hub_Interrupt h rid did) \<or> (\<exists>rid gid v. Hub_SetDraining h rid gid v = Inr b) \<or> (\<exists>rid d. b = Hub_BroadcastDevice h rid d)))"

section \<open>A broadcast that succeeds\<close>

definition handled_frame :: "bcast \<Rightarrow> (nat \<times> frame \<times> control_client) set \<Rightarrow> nat \<Rightarrow> bool" where
  "handled_frame b H i \<longleftrightarrow> (\<exists>c. (i, bc_frame b, c) \<in> H)"

definition messages_ok :: "'st hub \<Rightarrow> bcast \<Rightarrow> (nat \<times> frame \<times> control_client) set \<Rightarrow> bool" where
  "messages_ok h b H \<longleftrightarrow> (\<forall>i < length (h_all h). \<forall>f. f_RequestID f = f_RequestID (bc_frame b) \<longrightarrow>
     (f \<in> set (s_send (h_all h ! i)) \<longrightarrow> f = bc_frame b) \<and> (f \<in> set (s_acks (h_all h ! i)) \<longrightarrow> f_Error f = [] \<longrightarrow> handled_frame b H i))"

definition progress_ok :: "bcast \<Rightarrow> (nat \<times> frame \<times> control_client) set \<Rightarrow> bool" where
  "progress_ok b H = (case bc_pc b of
     BSending todo \<Rightarrow> bc_sessions b \<noteq> []
   | BWaiting todo \<Rightarrow> bc_sessions b \<noteq> [] \<and> (\<exists>answered. bc_sessions b = answered @ todo \<and> (\<forall>i \<in> set answered. handled_frame b H i))
   | BReturned None \<Rightarrow> bc_sessions b \<noteq> [] \<and> (\<forall>i \<in> set (bc_sessions b). handled_frame b H i)
   | BReturned (Some err) \<Rightarrow> True)"

definition bcast_ok :: "'st bcast_state \<Rightarrow> bool" where
  "bcast_ok st = (case st of (h, b, H) \<Rightarrow> (\<forall>i \<in> set (bc_sessions b). i < length (h_all h)) \<and> messages_ok h b H \<and> progress_ok b H
     \<and> (\<forall>(i, f, c) \<in> H. \<exists>e. snd (handle e c f) = None))"

lemma messages_okI:
  assumes "\<And>i f. i < length (h_all h) \<Longrightarrow> f_RequestID f = f_RequestID (bc_frame b) \<Longrightarrow> f \<in> set (s_send (h_all h ! i)) \<Longrightarrow> f = bc_frame b"
    and "\<And>i f. i < length (h_all h) \<Longrightarrow> f_RequestID f = f_RequestID (bc_frame b) \<Longrightarrow> f \<in> set (s_acks (h_all h ! i)) \<Longrightarrow> f_Error f = [] \<Longrightarrow> handled_frame b H i"
  shows "messages_ok h b H"
  using assms by (simp add: messages_ok_def)

lemma messages_okD:
  assumes "messages_ok h b H" and "i < length (h_all h)" and "f_RequestID f = f_RequestID (bc_frame b)"
  shows "f \<in> set (s_send (h_all h ! i)) \<Longrightarrow> f = bc_frame b" "f \<in> set (s_acks (h_all h ! i)) \<Longrightarrow> f_Error f = [] \<Longrightarrow> handled_frame b H i"
  using assms by (simp_all add: messages_ok_def)

lemma no_new_ok: "messages_ok h b H \<Longrightarrow> no_new_messages h h' (f_RequestID (bc_frame b)) \<Longrightarrow> messages_ok h' b H"
  unfolding messages_ok_def no_new_messages_def by blast

lemma same_frame:
  assumes "bc_frame b' = bc_frame b"
  shows "handled_frame b' = handled_frame b" "messages_ok h b' H = messages_ok h b H"
  using assms by (simp_all add: handled_frame_def messages_ok_def fun_eq_iff)

lemma bcast_wait_ok:
  assumes ok: "bcast_ok (h, b, H)" and pc: "bc_pc b = BWaiting (i # rest)" and ev: "event_possible (h_all h ! i) ev" and w: "bcast_wait h b i rest ev = (h', b')"
  shows "bcast_ok (h', b', H)"
proof -
  have m: "messages_ok h b H" and l: "\<forall>j \<in> set (bc_sessions b). j < length (h_all h)" using ok by (simp_all add: bcast_ok_def)
  obtain answered where sess: "bc_sessions b = answered @ i # rest" and an: "\<forall>j \<in> set answered. handled_frame b H j"
    using ok pc by (auto simp: bcast_ok_def progress_ok_def)
  have same: "h_all h' = h_all (take_event i ev h)"
    using w same_sessions_simps(2) [of "take_event i ev h" "bc_frame b" "s_id (h_all h ! i)" ev] by (auto simp: bcast_wait_def Let_def same_sessions_def)
  have b': "bc_frame b' = bc_frame b" "bc_sessions b' = bc_sessions b" using w by (auto simp: bcast_wait_def Let_def)
  have i: "i < length (h_all h)" using l sess by simp
  have len: "length (h_all h') = length (h_all h)" unfolding same by (cases ev) (simp_all add: take_event_def)
  have sub: "set (s_send (h_all h' ! j)) \<subseteq> set (s_send (h_all h ! j)) \<and> set (s_acks (h_all h' ! j)) \<subseteq> set (s_acks (h_all h ! j))" if "j < length (h_all h)" for j
    unfolding same using that ev by (cases ev) (auto simp: take_event_def upd_session_nth event_possible_def dest: list.set_sel(2) split: if_splits)
  then have "no_new_messages h h' (f_RequestID (bc_frame b))" using len by (auto simp: no_new_messages_def)
  then have "messages_ok h' b H" by (rule no_new_ok [OF m])
  moreover have "progress_ok b' H"
  proof (cases "wait_verdict (bc_frame b) (s_id (h_all h ! i)) ev")
    case Again
    then have "bc_pc b' = bc_pc b" using w pc by (auto simp: bcast_wait_def Let_def)
    then show ?thesis using sess an pc b' same_frame [OF b'(1)] by (simp add: progress_ok_def)
  next
    case Next
    then obtain a where a: "ev = GotAck a" "f_RequestID a = f_RequestID (bc_frame b)" "f_Error a = []"
      by (auto simp: wait_verdict_def split: wait_event.splits if_splits)
    then have "a \<in> set (s_acks (h_all h ! i))" using ev by (auto simp: event_possible_def)
    then have hi: "handled_frame b H i" using messages_okD(2) [OF m i a(2)] a(3) by simp
    have pc': "bc_pc b' = (if rest = [] then BReturned None else BWaiting rest)" using w Next by (auto simp: bcast_wait_def Let_def)
    have sess': "bc_sessions b' = (answered @ [i]) @ rest" and an': "\<forall>j \<in> set (answered @ [i]). handled_frame b' H j"
      using sess an hi b'(2) same_frame(1) [OF b'(1)] by auto
    show ?thesis
    proof (cases "rest = []")
      case True
      then show ?thesis using pc' sess' an' by (simp add: progress_ok_def)
    next
      case False
      then have "progress_ok b' H = (bc_sessions b' \<noteq> [] \<and> (\<exists>answered. bc_sessions b' = answered @ rest \<and> (\<forall>i \<in> set answered. handled_frame b' H i)))"
        using pc' by (simp add: progress_ok_def)
      moreover have "bc_sessions b' \<noteq> []" using sess' by simp
      ultimately show ?thesis using sess' an' by blast
    qed
  next
    case (Fail err)
    then have "bc_pc b' = BReturned (Some err)" using w by (auto simp: bcast_wait_def Let_def)
    then show ?thesis by (simp add: progress_ok_def)
  qed
  ultimately show ?thesis using ok l len b'(2) same_frame(2) [OF b'(1), of h' H] by (simp add: bcast_ok_def)
qed

lemma bcast_send_ok:
  assumes ok: "bcast_ok (h, b, H)" and pc: "bc_pc b = BSending (i # rest)" and snd: "bcast_send h b i rest = (h', b')"
  shows "bcast_ok (h', b', H)"
proof -
  have h': "h' = upd_session i (\<lambda>s. s\<lparr>s_send := s_send s @ [bc_frame b]\<rparr>) h"
    and b': "b' = b\<lparr>bc_pc := (if rest = [] then BWaiting (bc_sessions b) else BSending rest)\<rparr>"
    using snd by (simp_all add: bcast_send_def enqueue_def)
  have "messages_ok h' b H"
    by (rule messages_okI) (use ok in \<open>auto simp: h' upd_session_nth bcast_ok_def dest: messages_okD split: if_splits\<close>)
  moreover have "progress_ok b' H" using ok pc by (auto simp: b' progress_ok_def bcast_ok_def)
  ultimately show ?thesis using ok by (simp add: bcast_ok_def messages_ok_def handled_frame_def h' b')
qed

lemma bcast_handle_ok:
  assumes ok: "bcast_ok (h, b, H)" and i: "i < length (h_all h)" and f: "s_send (h_all h ! i) = f # rest"
    and t: "errors_have_text e (s_peer (h_all h ! i)) f"
    and H': "H' = (if snd (handle e (s_peer (h_all h ! i)) f) = None then insert (i, f, s_peer (h_all h ! i)) H else H)"
  shows "bcast_ok (deliver e h i now, b, H')"
proof -
  have m: "messages_ok h b H" using ok by (simp add: bcast_ok_def)
  have mono: "handled_frame b H j \<Longrightarrow> handled_frame b H' j" for j by (auto simp: handled_frame_def H')
  let ?a = "snd (client_recv e (s_peer (h_all h ! i)) f)"
  have "handled_frame b H' i" if "f_RequestID ?a = f_RequestID (bc_frame b)" "f_Error ?a = []"
  proof -
    have "f = bc_frame b" using that(1) messages_okD(1) [OF m i] f by (simp add: ack_request)
    then show ?thesis using that(2) ack_error [OF t] by (auto simp: handled_frame_def H')
  qed
  then have "messages_ok (deliver e h i now) b H'"
    by (intro messages_okI) (use i f m mono in \<open>auto simp: deliver_upd [OF i] upd_session_nth recv_session_Cons [OF f] dest: messages_okD split: if_splits\<close>)
  moreover have "progress_ok b H'" using ok mono by (auto simp: bcast_ok_def progress_ok_def split: bcast_pc.splits option.splits)
  moreover have "\<forall>(i, f, c) \<in> H'. \<exists>e. snd (handle e c f) = None" using ok by (auto simp: bcast_ok_def H')
  ultimately show ?thesis using ok by (simp add: bcast_ok_def deliver_upd [OF i])
qed

lemma ready_in_range: "hub_wf k h \<Longrightarrow> i \<in> set (readySessions h) \<Longrightarrow> i < length (h_all h)"
  by (force simp: readySessions_def hub_wf_def gget_iff_mem)

lemma bcast_target_in_range:
  assumes "hub_wf k h" and "Hub_SetDraining h rid gid v = Inr b"
  shows "\<exists>sessions f. (\<forall>i \<in> set sessions. i < length (h_all h)) \<and> b = broadcastAndWait sessions f"
proof -
  from assms(2) obtain i where i: "gget (h_sessions h) gid = Some i" "b = broadcastAndWait [i] (Hub_SetDraining_frame rid v)"
    by (auto simp: Hub_SetDraining_def Hub_SetDraining_target_def split: sum.splits option.splits)
  then have "i < length (h_all h)" using assms(1) by (simp add: hub_wf_def)
  then show ?thesis using i(2) by (intro exI [of _ "[i]"]) auto
qed

lemma bcast_start_ok:
  assumes "\<forall>i \<in> set sessions. i < length (h_all h)" and "fresh_id h (f_RequestID f)"
  shows "bcast_ok (h, broadcastAndWait sessions f, {})"
proof -
  have "x \<notin> set (s_send (h_all h ! i)) \<and> x \<notin> set (s_acks (h_all h ! i))" if "i < length (h_all h)" "f_RequestID x = f_RequestID f" for i x
    using assms(2) that nth_mem by (fastforce simp: fresh_id_def)
  then show ?thesis using assms(1) by (auto simp: bcast_ok_def messages_ok_def progress_ok_def broadcastAndWait_def)
qed

interpretation bcast_inv: invariant_of "bcast_init k" "bcast_step k" bcast_ok for k
proof unfold_locales
  fix st :: "'a bcast_state" assume init: "bcast_init k st"
  obtain h b H where st: "st = (h, b, H)" by (cases st)
  have wf: "hub_wf k h" and id: "fresh_id h (f_RequestID (bc_frame b))" and H: "H = {}" using init by (simp_all add: bcast_init_def st)
  obtain sessions f where b: "\<forall>i \<in> set sessions. i < length (h_all h)" "b = broadcastAndWait sessions f"
    using bcast_target_in_range [OF wf] ready_in_range [OF wf] init unfolding bcast_init_def st prod.case Hub_Interrupt_def Hub_BroadcastDevice_def by blast
  then have "bc_frame b = f" by (simp add: broadcastAndWait_def)
  then show "bcast_ok st" using bcast_start_ok [OF b(1), of f] id by (simp add: st H b(2))
next
  fix st st' :: "'a bcast_state" assume ok: "bcast_ok st" and "bcast_step k st st'"
  from this(2) show "bcast_ok st'"
  proof cases
    case (bsend b i rest h h' b' H)
    then show ?thesis using bcast_send_ok ok by blast
  next
    case (bcancel b todo h H err)
    then show ?thesis using ok by (simp add: bcast_ok_def messages_ok_def handled_frame_def progress_ok_def)
  next
    case (bwait b i rest h ev h' b' H)
    then show ?thesis using bcast_wait_ok ok by blast
  next
    case (bhandle h i f rest e H' H b now)
    then show ?thesis using bcast_handle_ok [of h b H i f rest e H' now] ok by (simp add: live_def)
  next
    case (bother h h' b H)
    then show ?thesis using ok no_new_ok [of h b H h'] by (fastforce simp: bcast_ok_def no_new_messages_def)
  qed
qed

text \<open>Every step of a request that interrupts or drains is one that the deployments of the hub take into account.\<close>

lemma record_other: "f_Route f = None \<Longrightarrow> wait_record h f sid ev = h"
  by (simp add: wait_record_def recordDeployment_def split: wait_event.splits)

lemma bcast_step_hub:
  assumes "bcast_step k (h, b, H) (h', b', H')" and "\<forall>i \<in> set (bc_sessions b). i < length (h_all h)" and "other_id h (f_RequestID (bc_frame b))"
    and "\<forall>todo. bc_pc b = BSending todo \<longrightarrow> set todo \<subseteq> set (bc_sessions b)"
    and "(\<exists>rid did. bc_frame b = Hub_Interrupt_frame rid did) \<or> (\<exists>rid v. bc_frame b = Hub_SetDraining_frame rid v)"
  shows "h' = h \<or> hub_step k h h'"
  using assms(1)
proof cases
  case (bsend i rest)
  have "i < length (h_all h)" using assms(2,4) bsend(2) by simp
  moreover have "h' = enqueue (bc_frame b) i h" using bsend(3) by (simp add: bcast_send_def)
  moreover have "other_id h rid" if "bc_frame b = Hub_Interrupt_frame rid did" for rid did using assms(3) that by (simp add: Hub_Interrupt_frame_def)
  moreover have "other_id h rid" if "bc_frame b = Hub_SetDraining_frame rid v" for rid v using assms(3) that by (simp add: Hub_SetDraining_frame_def)
  ultimately show ?thesis using assms(5) hub_step.interrupt_send hub_step.draining_send by metis
next
  case (bwait i rest ev)
  have "f_Route (bc_frame b) = None" using assms(5) by (auto simp: Hub_Interrupt_frame_def Hub_SetDraining_frame_def zero_frame_def)
  then have h': "h' = take_event i ev h" using bwait(4) by (auto simp: bcast_wait_def Let_def record_other)
  show ?thesis
  proof (cases ev)
    case (GotAck a)
    then obtain rest where "s_acks (h_all h ! i) = a # rest" using bwait(3) by (cases "s_acks (h_all h ! i)") (auto simp: event_possible_def)
    then show ?thesis using hub_step.other_ack GotAck h' by blast
  qed (simp_all add: h' take_event_def)
next
  case (bhandle i f rest e now)
  then show ?thesis using hub_step.handle_frame by blast
qed auto

text \<open>
  C3: when a request that interrupts the connections of a device, drains a gateway or broadcasts a device returns without error, it has addressed at least one gateway, and every gateway that it addressed has handled exactly
  its frame without error in the meantime, whatever deployments, other broadcasts, heartbeats and new or closed sessions came in between.
\<close>

theorem broadcast_handled_by_all:
  assumes "reach (bcast_init k) (bcast_step k) (h, b, H)" and "bc_pc b = BReturned None"
  shows "bc_sessions b \<noteq> [] \<and> (\<forall>i \<in> set (bc_sessions b). \<exists>c e. (i, bc_frame b, c) \<in> H \<and> snd (handle e c (bc_frame b)) = None)"
proof -
  have ok: "bcast_ok (h, b, H)" by (rule bcast_inv.reach_inv [OF assms(1)])
  then have "bc_sessions b \<noteq> []" "\<forall>i \<in> set (bc_sessions b). handled_frame b H i" using assms(2) by (simp_all add: bcast_ok_def progress_ok_def)
  moreover have "\<exists>e. snd (handle e c f) = None" if "(i, f, c) \<in> H" for i f c using ok that by (auto simp: bcast_ok_def)
  ultimately show ?thesis unfolding handled_frame_def by blast
qed

text \<open>One gateway interrupts the connections of a device.\<close>

definition interrupt_start :: "bool hub" where
  "interrupt_start = run_ops (connected @ [DropAck 0])"

definition interrupt_sent :: "bool hub \<times> bcast" where
  "interrupt_sent = bcast_send interrupt_start (Hub_Interrupt interrupt_start ''9'' ''d'') 0 []"

definition interrupt_handled :: "bool hub" where
  "interrupt_handled = deliver demo_env (fst interrupt_sent) 0 0"

definition interrupt_end :: "bool hub \<times> bcast" where
  "interrupt_end = bcast_wait interrupt_handled (snd interrupt_sent) 0 [] (GotAck (hd (s_acks (h_all interrupt_handled ! 0))))"

definition interrupt_checks :: bool where
  "interrupt_checks \<longleftrightarrow> no_frame_with interrupt_start ''9'' \<and> readySessions interrupt_start = [0] \<and> live (fst interrupt_sent) 0
     \<and> s_send (h_all (fst interrupt_sent) ! 0) = [Hub_Interrupt_frame ''9'' ''d'']
     \<and> snd (handle demo_env (s_peer (h_all (fst interrupt_sent) ! 0)) (Hub_Interrupt_frame ''9'' ''d'')) = None
     \<and> s_acks (h_all interrupt_handled ! 0) \<noteq> [] \<and> bc_pc (snd interrupt_end) = BReturned None"

lemma interrupt_checks: interrupt_checks
  by code_simp

lemma interrupt_end_reach:
  "\<exists>H. reach (bcast_init route_disk) (bcast_step route_disk) (fst interrupt_end, snd interrupt_end, H)"
proof -
  note c = interrupt_checks [unfolded interrupt_checks_def]
  let ?b = "Hub_Interrupt interrupt_start ''9'' ''d''" and ?f = "Hub_Interrupt_frame ''9'' ''d''"
  have wf: "hub_wf route_disk interrupt_start"
    using hub_inv.reach_inv [OF run_ops_reach [of "connected @ [DropAck 0]"]] by (simp add: hub_inv_def interrupt_start_def)
  have b: "?b = \<lparr>bc_frame = ?f, bc_sessions = [0], bc_pc = BSending [0]\<rparr>" using c by (simp add: Hub_Interrupt_def broadcastAndWait_def)
  have "f_RequestID ?f = ''9''" by (simp add: Hub_Interrupt_frame_def)
  then have "fresh_id interrupt_start (f_RequestID (bc_frame ?b))" using c by (simp add: sched_guards b)
  then have "bcast_init route_disk (interrupt_start, ?b, {})" using wf by (auto simp: bcast_init_def)
  then have 0: "reach (bcast_init route_disk) (bcast_step route_disk) (interrupt_start, ?b, {})" by (rule reach_init)
  have 1: "reach (bcast_init route_disk) (bcast_step route_disk) (fst interrupt_sent, snd interrupt_sent, {})"
    by (rule reach_step [OF 0], rule bsend [of _ 0 "[]"]) (simp_all add: b interrupt_sent_def)
  have "errors_have_text demo_env (s_peer (h_all (fst interrupt_sent) ! 0)) ?f" using c by (simp add: errors_have_text_def)
  then have "\<exists>H. reach (bcast_init route_disk) (bcast_step route_disk) (interrupt_handled, snd interrupt_sent, H)"
    unfolding interrupt_handled_def using c
    by (intro exI, intro reach_step [OF 1], intro bhandle) (simp_all add: demo_env_def route_disk_ok same_codec_def)
  then obtain H where 2: "reach (bcast_init route_disk) (bcast_step route_disk) (interrupt_handled, snd interrupt_sent, H)" by blast
  have "reach (bcast_init route_disk) (bcast_step route_disk) (fst interrupt_end, snd interrupt_end, H)"
    by (rule reach_step [OF 2], rule bwait [of _ 0 "[]"]) (use c in \<open>simp_all add: interrupt_sent_def bcast_send_def b interrupt_end_def event_possible_def\<close>)
  then show ?thesis by blast
qed

theorem broadcast_handled_by_all_witness:
  "\<exists>H c. bc_pc (snd interrupt_end) = BReturned None \<and> (0, Hub_Interrupt_frame ''9'' ''d'', c) \<in> H
     \<and> reach (bcast_init route_disk) (bcast_step route_disk) (fst interrupt_end, snd interrupt_end, H)"
proof -
  obtain H where H: "reach (bcast_init route_disk) (bcast_step route_disk) (fst interrupt_end, snd interrupt_end, H)" using interrupt_end_reach by blast
  have pc: "bc_pc (snd interrupt_end) = BReturned None" using interrupt_checks by (simp add: interrupt_checks_def)
  have "bc_sessions (snd interrupt_end) = readySessions interrupt_start" "bc_frame (snd interrupt_end) = Hub_Interrupt_frame ''9'' ''d''"
    by (simp_all add: interrupt_end_def bcast_wait_def Let_def interrupt_sent_def bcast_send_def Hub_Interrupt_def broadcastAndWait_def)
  moreover have "readySessions interrupt_start = [0]" using interrupt_checks by (simp add: interrupt_checks_def)
  ultimately show ?thesis using broadcast_handled_by_all [OF H pc] pc H by auto
qed

end
