(* ===== verification/PM_Slices.thy ===== *)
theory PM_Slices
  imports PM_Prelude
begin

text \<open>
  Go slices with their sharing. An array is a list of cells whose length never changes, a heap is the list of all arrays, and a slice is
  \<open>nil\<close> or an array with the number of cells it shows, from the first cell on: the program slices nothing. The capacity of a slice is
  the length of its array. \<open>append\<close> writes into the array when it has a free cell, so two slices of one array can see each
  other's writes. How many free cells a new array gets is up to the runtime, and an argument here.
\<close>

section \<open>Heaps of arrays\<close>

type_synonym 'a arrays = "'a list list"
type_synonym slice = "(nat \<times> nat) option"

definition slice_ok :: "'a arrays \<Rightarrow> slice \<Rightarrow> bool" where
  "slice_ok hp s = (case s of None \<Rightarrow> True | Some (a, n) \<Rightarrow> a < length hp \<and> n \<le> length (hp ! a))"

definition slice_read :: "'a arrays \<Rightarrow> slice \<Rightarrow> 'a list" where
  "slice_read hp s = (case s of None \<Rightarrow> [] | Some (a, n) \<Rightarrow> take n (hp ! a))"

text \<open>A composite literal, \<open>make\<close> followed by as many \<open>append\<close>s as it has room for, and the array that a growing \<open>append\<close> moves to.\<close>

definition slice_make :: "nat \<Rightarrow> 'a \<Rightarrow> 'a list \<Rightarrow> 'a arrays \<Rightarrow> 'a arrays \<times> slice" where
  "slice_make spare zero xs hp = (hp @ [xs @ replicate spare zero], Some (length hp, length xs))"

text \<open>\<open>append([]T(nil), xs...)\<close>: appending nothing to \<open>nil\<close> gives \<open>nil\<close>.\<close>

definition slice_copy :: "nat \<Rightarrow> 'a \<Rightarrow> 'a list \<Rightarrow> 'a arrays \<Rightarrow> 'a arrays \<times> slice" where
  "slice_copy spare zero xs hp = (if xs = [] then (hp, None) else slice_make spare zero xs hp)"

text \<open>\<open>append(s, x)\<close>.\<close>

definition slice_append :: "nat \<Rightarrow> 'a \<Rightarrow> 'a \<Rightarrow> 'a arrays \<Rightarrow> slice \<Rightarrow> 'a arrays \<times> slice" where
  "slice_append spare zero x hp s =
     (case s of
        None \<Rightarrow> slice_make spare zero [x] hp
      | Some (a, n) \<Rightarrow>
          if n < length (hp ! a) then (hp[a := (hp ! a)[n := x]], Some (a, n + 1))
          else slice_make spare zero (slice_read hp s @ [x]) hp)"

text \<open>\<open>for i := range s { s[i] = f(s[i]) }\<close>: every cell that the slice shows is written in place.\<close>

definition slice_write :: "('a \<Rightarrow> 'a) \<Rightarrow> 'a arrays \<Rightarrow> slice \<Rightarrow> 'a arrays" where
  "slice_write f hp s = (case s of None \<Rightarrow> hp | Some (a, n) \<Rightarrow> hp[a := map f (take n (hp ! a)) @ drop n (hp ! a)])"

text \<open>Two slices of one array.\<close>

definition same_array :: "slice \<Rightarrow> slice \<Rightarrow> bool" where
  "same_array s t = (case (s, t) of (Some (a, n), Some (b, m)) \<Rightarrow> a = b | _ \<Rightarrow> False)"

section \<open>Laws\<close>

text \<open>What a slice shows, and what other slices show, after each operation.\<close>

named_theorems slices "what slices show after an operation"

lemma slice_read_None [slices, simp]: "slice_read hp None = []" "slice_ok hp None"
  by (simp_all add: slice_read_def slice_ok_def)

lemma slice_make_read [slices]:
  assumes "slice_make spare zero xs hp = (hp', s)"
  shows "slice_read hp' s = xs" "slice_ok hp' s"
  using assms by (auto simp: slice_make_def slice_read_def slice_ok_def nth_append)

lemma slice_make_keeps [slices]:
  assumes "slice_make spare zero xs hp = (hp', s)" and "slice_ok hp t"
  shows "slice_read hp' t = slice_read hp t" "slice_ok hp' t" "\<not> same_array s t"
  using assms by (auto simp: slice_make_def slice_read_def slice_ok_def same_array_def nth_append split: option.splits)

lemma slice_copy_read [slices]:
  assumes "slice_copy spare zero xs hp = (hp', s)"
  shows "slice_read hp' s = xs" "slice_ok hp' s"
  using assms slice_make_read [of spare zero xs hp hp' s] by (auto simp: slice_copy_def split: if_splits)

lemma slice_copy_keeps [slices]:
  assumes "slice_copy spare zero xs hp = (hp', s)" and "slice_ok hp t"
  shows "slice_read hp' t = slice_read hp t" "slice_ok hp' t" "\<not> same_array s t"
  using assms slice_make_keeps [of spare zero xs hp hp' s t]
  by (auto simp: slice_copy_def same_array_def split: if_splits)

lemma nth_update_at: "b < length xs \<Longrightarrow> xs[a := v] ! b = (if a = b then v else xs ! b)"
  by (cases "a = b") simp_all

lemma take_Suc_update: "n < length xs \<Longrightarrow> take (Suc n) (xs[n := x]) = take n xs @ [x]"
  by (simp add: take_Suc_conv_app_nth)

lemma slice_append_read [slices]:
  assumes "slice_append spare zero x hp s = (hp', s')" and "slice_ok hp s"
  shows "slice_read hp' s' = slice_read hp s @ [x]" "slice_ok hp' s'"
  using assms slice_make_read
  by (fastforce simp: slice_append_def slice_read_def slice_ok_def take_Suc_update split: option.splits if_splits)+

text \<open>An \<open>append\<close> is seen by longer slices of the array only.\<close>

definition not_beyond :: "slice \<Rightarrow> slice \<Rightarrow> bool" where
  "not_beyond s t = (case (s, t) of (Some (a, n), Some (b, m)) \<Rightarrow> a = b \<longrightarrow> m \<le> n | _ \<Rightarrow> True)"

lemma slice_append_keeps [slices]:
  assumes "slice_append spare zero x hp s = (hp', s')" and "slice_ok hp t" and "not_beyond s t"
  shows "slice_read hp' t = slice_read hp t" "slice_ok hp' t" "not_beyond s' t" "same_array s' t \<longrightarrow> same_array s t"
  using assms slice_make_keeps(1,2) [of spare zero _ hp hp' s' t]
  by (auto simp: slice_append_def slice_make_def slice_read_def slice_ok_def not_beyond_def same_array_def nth_append nth_update_at split: option.splits if_splits)

lemma slice_write_keeps [slices]:
  assumes "slice_ok hp s" and "slice_ok hp t"
  shows "slice_ok (slice_write f hp s) t"
    and "\<not> same_array s t \<Longrightarrow> slice_read (slice_write f hp s) t = slice_read hp t"
    and "same_array s t \<Longrightarrow> not_beyond s t \<Longrightarrow> slice_read (slice_write f hp s) t = map f (slice_read hp t)"
  using assms by (auto simp: slice_write_def slice_read_def slice_ok_def not_beyond_def same_array_def nth_update_at take_map min_def
      split: option.splits)

lemma slice_write_read [slices]:
  "slice_ok hp s \<Longrightarrow> slice_read (slice_write f hp s) s = map f (slice_read hp s)"
  by (auto simp: slice_write_def slice_read_def slice_ok_def split: option.splits)

lemma not_beyond_simps [simp]: "not_beyond s s" "not_beyond None t" "not_beyond s None" "\<not> same_array None t" "\<not> same_array s None"
  by (simp_all add: not_beyond_def same_array_def split: option.splits prod.splits)

lemma not_same_not_beyond: "\<not> same_array s t \<Longrightarrow> not_beyond s t"
  by (auto simp: not_beyond_def same_array_def split: option.splits)

end
