(* ===== verification/PM_Memory_Heap.thy ===== *)
theory PM_Memory_Heap
  imports PM_Memory PM_Slices PM_Hub
begin

text \<open>
  The in-memory store of \<open>internal/store/memory.go\<close> again, with the slices of ingresses that it shares with its callers.
  \<open>GetDevice\<close>, \<open>GetRoute\<close> and \<open>StageRoute\<close> copy a struct and with it the slice, not the array behind it; \<open>UpdateDeviceCredential\<close> writes into that array.
  A stored device or route is a record with the slice of its ingresses beside it; the list field of the record is not used.
  Providers are cloned on the way in and out and gateways hold no slice, so for them the model by values is exact.
\<close>

section \<open>The store\<close>

record memory_heap =
  mh_arrays :: "device_ingress arrays"
  mh_devices :: "(string, device \<times> slice) gomap"
  mh_routes :: "(string, device_route \<times> slice) gomap"
  mh_pending :: "(string, device_route \<times> slice) gomap"

definition NewMemory_heap :: memory_heap where
  "NewMemory_heap = \<lparr>mh_arrays = [], mh_devices = [], mh_routes = [], mh_pending = []\<rparr>"

text \<open>The struct as a caller sees it that looks into the slice.\<close>

definition load_device :: "device_ingress arrays \<Rightarrow> device \<times> slice \<Rightarrow> device" where
  "load_device hp p = (fst p)\<lparr>d_Ingresses := slice_read hp (snd p)\<rparr>"

definition load_route :: "device_ingress arrays \<Rightarrow> device_route \<times> slice \<Rightarrow> device_route" where
  "load_route hp p = (fst p)\<lparr>r_Ingresses := slice_read hp (snd p)\<rparr>"

definition zero_ingress :: device_ingress where
  "zero_ingress = \<lparr>di_Port = 0, di_Method = [], di_Password = [], di_Primary = False, di_CreatedAt = 0\<rparr>"

text \<open>\<open>EffectiveIngresses\<close>: the slice of the device itself, \<open>nil\<close>, or a literal.\<close>

definition effective_slice :: "device_ingress arrays \<Rightarrow> device \<times> slice \<Rightarrow> device_ingress arrays \<times> slice" where
  "effective_slice hp p =
     (if slice_read hp (snd p) \<noteq> [] then (hp, snd p)
      else if d_IngressPort (fst p) = 0 then (hp, None)
      else slice_make 0 zero_ingress (Device_EffectiveIngresses (load_device hp p)) hp)"

definition port_taken_heap :: "memory_heap \<Rightarrow> int \<Rightarrow> bool" where
  "port_taken_heap x port \<longleftrightarrow>
     list_ex (\<lambda>(did, p). list_ex (\<lambda>i. di_Port i = port) (Device_EffectiveIngresses (load_device (mh_arrays x) p))) (mh_devices x)"

definition Heap_CreateDevice :: "memory_heap \<Rightarrow> device \<times> slice \<Rightarrow> memory_heap \<times> go_error option" where
  "Heap_CreateDevice x p =
     (let d = fst p in
      if gget (mh_devices x) (d_ID d) \<noteq> None then (x, Some ErrConflict)
      else if port_taken_heap x (d_IngressPort d) then (x, Some ErrConflict)
      else case (if slice_read (mh_arrays x) (snd p) = [] \<and> d_IngressPort d \<noteq> 0 then effective_slice (mh_arrays x) p else (mh_arrays x, snd p)) of
             (hp, s) \<Rightarrow> (x\<lparr>mh_arrays := hp, mh_devices := gput (d_ID d) (d, s) (mh_devices x)\<rparr>, None))"

definition Heap_GetDevice :: "memory_heap \<Rightarrow> string \<Rightarrow> go_error + device \<times> slice" where
  "Heap_GetDevice x did = (case gget (mh_devices x) did of None \<Rightarrow> Inl ErrNotFound | Some p \<Rightarrow> Inr p)"

definition set_primary_password :: "string \<Rightarrow> device_ingress \<Rightarrow> device_ingress" where
  "set_primary_password password i = (if di_Primary i then i\<lparr>di_Password := password\<rparr> else i)"

definition rotate_password :: "string \<Rightarrow> string \<Rightarrow> (string, device_route \<times> slice) gomap \<Rightarrow> (string, device_route \<times> slice) gomap" where
  "rotate_password did password rs = (case gget rs did of None \<Rightarrow> rs | Some (r, t) \<Rightarrow> gput did (r\<lparr>r_IngressPassword := password\<rparr>, t) rs)"

definition Heap_UpdateDeviceCredential :: "memory_heap \<Rightarrow> time \<Rightarrow> string \<Rightarrow> string \<Rightarrow> memory_heap \<times> (go_error + device \<times> slice)" where
  "Heap_UpdateDeviceCredential x now did password =
     (case gget (mh_devices x) did of
        None \<Rightarrow> (x, Inl ErrNotFound)
      | Some (d, s) \<Rightarrow>
          let d' = d\<lparr>d_IngressPassword := password, d_UpdatedAt := now\<rparr>;
              hp = slice_write (set_primary_password password) (mh_arrays x) s in
          (x\<lparr>mh_arrays := hp, mh_devices := gput did (d', s) (mh_devices x), mh_routes := rotate_password did password (mh_routes x),
             mh_pending := rotate_password did password (mh_pending x)\<rparr>, Inr (d', s)))"

text \<open>\<open>r.Ingresses = append([]model.DeviceIngress(nil), xs...)\<close> for the route of the device, if there is one.\<close>

definition copy_ingresses ::
    "nat \<Rightarrow> (device_route \<Rightarrow> device_route) \<Rightarrow> device_ingress list \<Rightarrow> string \<Rightarrow> device_ingress arrays \<Rightarrow> (string, device_route \<times> slice) gomap
      \<Rightarrow> device_ingress arrays \<times> (string, device_route \<times> slice) gomap" where
  "copy_ingresses spare f xs did hp rs =
     (case gget rs did of
        None \<Rightarrow> (hp, rs)
      | Some (r, t) \<Rightarrow> (case slice_copy spare zero_ingress xs hp of (hp', s) \<Rightarrow> (hp', gput did (f r, s) rs)))"

definition store_ingresses ::
    "(nat \<Rightarrow> nat) \<Rightarrow> memory_heap \<Rightarrow> string \<Rightarrow> device \<times> slice \<Rightarrow> (device_route \<Rightarrow> device_route) \<Rightarrow> device_ingress arrays \<Rightarrow> memory_heap" where
  "store_ingresses spare x did p f hp =
     (let xs = slice_read hp (snd p);
          (hp1, routes) = copy_ingresses (spare 1) f xs did hp (mh_routes x);
          (hp2, pending) = copy_ingresses (spare 2) f xs did hp1 (mh_pending x)
      in x\<lparr>mh_arrays := hp2, mh_devices := gput did p (mh_devices x), mh_routes := routes, mh_pending := pending\<rparr>)"

definition Heap_AddDeviceIngress ::
    "(nat \<Rightarrow> nat) \<Rightarrow> memory_heap \<Rightarrow> time \<Rightarrow> string \<Rightarrow> device_ingress \<Rightarrow> memory_heap \<times> (go_error + device \<times> slice)" where
  "Heap_AddDeviceIngress spare x now did ingress =
     (case gget (mh_devices x) did of
        None \<Rightarrow> (x, Inl ErrNotFound)
      | Some (d, s) \<Rightarrow>
          if port_taken_heap x (di_Port ingress) then (x, Inl ErrConflict)
          else let (hp1, s1) = effective_slice (mh_arrays x) (d, s);
                   (hp2, s2) = slice_append (spare 0) zero_ingress (ingress\<lparr>di_Primary := False\<rparr>) hp1 s1;
                   d' = d\<lparr>d_UpdatedAt := now\<rparr>
               in (store_ingresses spare x did (d', s2) (\<lambda>r. r) hp2, Inr (d', s2)))"

definition Heap_DeleteDeviceIngress ::
    "(nat \<Rightarrow> nat) \<Rightarrow> memory_heap \<Rightarrow> time \<Rightarrow> string \<Rightarrow> int \<Rightarrow> memory_heap \<times> (go_error + device \<times> slice)" where
  "Heap_DeleteDeviceIngress spare x now did port =
     (case gget (mh_devices x) did of
        None \<Rightarrow> (x, Inl ErrNotFound)
      | Some (d, s) \<Rightarrow>
          let ingresses = Device_EffectiveIngresses (load_device (mh_arrays x) (d, s)) in
          if length ingresses \<le> 1 then (x, Inl ErrConflict)
          else if \<not> list_ex (\<lambda>i. di_Port i = port) ingresses then (x, Inl ErrNotFound)
          else let removed = (remove_ingress port (load_device (mh_arrays x) (d, s)))\<lparr>d_UpdatedAt := now\<rparr>;
                   out = d_Ingresses removed;
                   spare_cells = length ingresses - 1 - length out;
                   (hp, s') = slice_make spare_cells zero_ingress out (mh_arrays x);
                   f = (\<lambda>r. r\<lparr>r_IngressPort := d_IngressPort removed, r_IngressMethod := d_IngressMethod removed,
                              r_IngressPassword := d_IngressPassword removed\<rparr>)
               in (store_ingresses spare x did (removed, s') f hp, Inr (removed, s')))"

definition Heap_version :: "memory_heap \<Rightarrow> string \<Rightarrow> int" where
  "Heap_version x did = (case gget (mh_routes x) did of None \<Rightarrow> 0 | Some (r, s) \<Rightarrow> r_Version r)"

definition Heap_StageRoute :: "memory_heap \<Rightarrow> device_route \<times> slice \<Rightarrow> int \<Rightarrow> memory_heap \<times> go_error option" where
  "Heap_StageRoute x p expected =
     (if Heap_version x (r_DeviceID (fst p)) \<noteq> expected then (x, Some ErrConflict)
      else (x\<lparr>mh_pending := gput (r_DeviceID (fst p)) p (mh_pending x)\<rparr>, None))"

definition Heap_ActivateRoute :: "memory_heap \<Rightarrow> string \<Rightarrow> int \<Rightarrow> memory_heap \<times> go_error option" where
  "Heap_ActivateRoute x did version =
     (case gget (mh_pending x) did of
        None \<Rightarrow> (x, Some ErrConflict)
      | Some (r, s) \<Rightarrow>
          if r_Version r \<noteq> version then (x, Some ErrConflict)
          else (x\<lparr>mh_routes := gput did (r\<lparr>r_Status := RouteActive\<rparr>, s) (mh_routes x), mh_pending := gdel did (mh_pending x)\<rparr>, None))"

definition Heap_GetRoute :: "memory_heap \<Rightarrow> string \<Rightarrow> go_error + device_route \<times> slice" where
  "Heap_GetRoute x did = (case gget (mh_routes x) did of None \<Rightarrow> Inl ErrNotFound | Some p \<Rightarrow> Inr p)"

definition Heap_ListActiveRoutes :: "memory_heap \<Rightarrow> (device_route \<times> slice) list" where
  "Heap_ListActiveRoutes x = map snd (mh_routes x)"

text \<open>
  Lines of \<open>rotateCredential\<close> (\<open>internal/control/api.go\<close>) between \<open>GetDevice\<close> and \<open>DeployDevice\<close>: \<open>proposed := current\<close> copies the
  struct, and the loop that follows writes into the array of the stored device.
\<close>

definition rotate_proposal_heap :: "memory_heap \<Rightarrow> device \<times> slice \<Rightarrow> string \<Rightarrow> memory_heap \<times> (device \<times> slice)" where
  "rotate_proposal_heap x current password =
     (x\<lparr>mh_arrays := slice_write (set_primary_password password) (mh_arrays x) (snd current)\<rparr>,
      ((fst current)\<lparr>d_IngressPassword := password\<rparr>, snd current))"

section \<open>The store by values\<close>

text \<open>
  What the store holds for one who reads every slice. A rotation writes the ingresses of a route, active or pending, only when they are in
  the array of the device, which the values cannot tell, so its counterpart takes that as two arguments.
\<close>

definition heap_values :: "memory_heap \<Rightarrow> memory" where
  "heap_values x = \<lparr>m_devices = map (apsnd (load_device (mh_arrays x))) (mh_devices x),
     m_routes = map (apsnd (load_route (mh_arrays x))) (mh_routes x),
     m_pending = map (apsnd (load_route (mh_arrays x))) (mh_pending x), m_gateways = [], m_providers = []\<rparr>"

definition rotate_route :: "bool \<Rightarrow> string \<Rightarrow> device_route \<Rightarrow> device_route" where
  "rotate_route shared password r = r\<lparr>r_IngressPassword := password,
     r_Ingresses := (if shared then map (set_primary_password password) (r_Ingresses r) else r_Ingresses r)\<rparr>"

definition Memory_UpdateDeviceCredential :: "bool \<times> bool \<Rightarrow> memory \<Rightarrow> time \<Rightarrow> string \<Rightarrow> string \<Rightarrow> memory \<times> (go_error + device)" where
  "Memory_UpdateDeviceCredential shared m now did password =
     (case gget (m_devices m) did of
        None \<Rightarrow> (m, Inl ErrNotFound)
      | Some d \<Rightarrow>
          let d' = d\<lparr>d_IngressPassword := password, d_Ingresses := map (set_primary_password password) (d_Ingresses d), d_UpdatedAt := now\<rparr> in
          (m\<lparr>m_devices := gput did d' (m_devices m), m_routes := update_route (rotate_route (fst shared) password) did (m_routes m),
             m_pending := update_route (rotate_route (snd shared) password) did (m_pending m)\<rparr>, Inr d'))"

text \<open>Whether the route of a device has its ingresses in the array of the device.\<close>

definition shares_array :: "memory_heap \<Rightarrow> string \<Rightarrow> (string, device_route \<times> slice) gomap \<Rightarrow> bool" where
  "shares_array x did rs =
     (case (gget (mh_devices x) did, gget rs did) of (Some (d, s), Some (r, t)) \<Rightarrow> same_array s t | _ \<Rightarrow> False)"

lemma gget_apsnd [simp]: "gget (map (apsnd f) m) k = map_option f (gget m k)"
  by (induction m) auto

lemma gput_apsnd: "map (apsnd f) (gput k v m) = gput k (f v) (map (apsnd f) m)"
  by (induction m) auto

lemma gdel_apsnd: "map (apsnd f) (gdel k m) = gdel k (map (apsnd f) m)"
  by (induction m) auto

lemma gput_entries: "gwf m \<Longrightarrow> (k', v') \<in> set (gput k v m) \<Longrightarrow> k' = k \<and> v' = v \<or> k' \<noteq> k \<and> (k', v') \<in> set m"
  by (induction m) (force simp: gwf_def split: if_splits)+

lemma gput_in: "(k', v') \<in> set (gput k v m) \<Longrightarrow> (k', v') = (k, v) \<or> (k', v') \<in> set m"
  by (induction m) (auto split: if_splits)

lemma gdel_entries: "(k', v') \<in> set (gdel k m) \<Longrightarrow> (k', v') \<in> set m"
  by (induction m) (auto split: if_splits)

section \<open>Who may see an array\<close>

text \<open>
  \<open>K\<close> is the set of all slices that the store holds or has ever returned, with the device they belong to. The slice of a device is the longest
  of its array, and no slice of another device is in that array.
\<close>

definition owns :: "string \<Rightarrow> slice \<Rightarrow> (string \<times> slice) set \<Rightarrow> bool" where
  "owns did s K \<longleftrightarrow> (\<forall>(did', t) \<in> K. same_array s t \<longrightarrow> did' = did \<and> not_beyond s t)"

definition stored_slices :: "(string, 'a \<times> slice) gomap \<Rightarrow> (string \<times> slice) set" where
  "stored_slices m = (\<lambda>(did, v, s). (did, s)) ` set m"

definition heap_slices :: "memory_heap \<Rightarrow> (string \<times> slice) set" where
  "heap_slices x = stored_slices (mh_devices x) \<union> stored_slices (mh_routes x) \<union> stored_slices (mh_pending x)"

definition maps_ok :: "memory_heap \<Rightarrow> bool" where
  "maps_ok x \<longleftrightarrow> gwf (mh_devices x) \<and> gwf (mh_routes x) \<and> gwf (mh_pending x)"

definition heap_ok :: "(string \<times> slice) set \<Rightarrow> memory_heap \<Rightarrow> bool" where
  "heap_ok K x \<longleftrightarrow> maps_ok x \<and> heap_slices x \<subseteq> K \<and> (\<forall>(did, s) \<in> K. slice_ok (mh_arrays x) s) \<and> (\<forall>(did, s) \<in> stored_slices (mh_devices x). owns did s K)"

text \<open>Nobody who holds a slice of \<open>K\<close> can see a difference.\<close>

definition unseen :: "(string \<times> slice) set \<Rightarrow> device_ingress arrays \<Rightarrow> device_ingress arrays \<Rightarrow> bool" where
  "unseen K hp hp' \<longleftrightarrow> (\<forall>(did, s) \<in> K. slice_ok hp' s \<and> slice_read hp' s = slice_read hp s)"

lemma same_array_sym: "same_array s t = same_array t s"
  by (auto simp: same_array_def split: option.splits)

lemma owns_not_beyond: "owns did s K \<Longrightarrow> (k, t) \<in> K \<Longrightarrow> not_beyond s t"
  unfolding owns_def using not_same_not_beyond by fast

lemma stored_mem: "gget m did = Some (v, s) \<Longrightarrow> (did, s) \<in> stored_slices m"
  unfolding stored_slices_def by (force dest: map_of_SomeD)

lemma stored_put: "stored_slices (gput did p m) \<subseteq> insert (did, snd p) (stored_slices m)"
proof
  fix e assume "e \<in> stored_slices (gput did p m)"
  then obtain k v s where e: "e = (k, s)" "(k, v, s) \<in> set (gput did p m)" by (auto simp: stored_slices_def)
  then have "(k, v, s) = (did, p) \<or> (k, v, s) \<in> set m" using gput_in by fastforce
  then show "e \<in> insert (did, snd p) (stored_slices m)" using e(1) by (force simp: stored_slices_def)
qed

lemma stored_put_other:
  assumes "gwf m" and "(k, s) \<in> stored_slices (gput did p m)"
  shows "k = did \<and> s = snd p \<or> k \<noteq> did \<and> (k, s) \<in> stored_slices m"
proof -
  from assms(2) obtain v where "(k, v, s) \<in> set (gput did p m)" by (auto simp: stored_slices_def)
  from gput_entries [OF assms(1) this] show ?thesis by (force simp: stored_slices_def)
qed

lemma heap_okD:
  assumes "heap_ok K x"
  shows "gwf (mh_devices x)" "stored_slices (mh_devices x) \<subseteq> K" "stored_slices (mh_routes x) \<subseteq> K" "stored_slices (mh_pending x) \<subseteq> K"
    "(did, s) \<in> K \<Longrightarrow> slice_ok (mh_arrays x) s" "(did, s) \<in> stored_slices (mh_devices x) \<Longrightarrow> owns did s K"
    "maps_ok x"
  using assms by (auto simp: heap_ok_def heap_slices_def maps_ok_def)

lemma heap_ok_device:
  assumes "heap_ok K x" and "gget (mh_devices x) did = Some (d, s)"
  shows "(did, s) \<in> K" "slice_ok (mh_arrays x) s" "owns did s K"
  using heap_okD [OF assms(1)] stored_mem [OF assms(2)] by blast+

lemma unseen_load:
  assumes "unseen K hp hp'" and "stored_slices m \<subseteq> K"
  shows "map (apsnd (\<lambda>p. f (fst p) (slice_read hp' (snd p)))) m = map (apsnd (\<lambda>p. f (fst p) (slice_read hp (snd p)))) m"
proof (rule map_cong [OF refl], clarify)
  fix k v s assume "(k, v, s) \<in> set m"
  then have "(k, s) \<in> K" using assms(2) by (force simp: stored_slices_def)
  then show "apsnd (\<lambda>p. f (fst p) (slice_read hp' (snd p))) (k, v, s) = apsnd (\<lambda>p. f (fst p) (slice_read hp (snd p))) (k, v, s)"
    using assms(1) by (auto simp: unseen_def)
qed

lemma load_funs: "load_device hp = (\<lambda>p. (fst p)\<lparr>d_Ingresses := slice_read hp (snd p)\<rparr>)"
  "load_route hp = (\<lambda>p. (fst p)\<lparr>r_Ingresses := slice_read hp (snd p)\<rparr>)"
  by (simp_all add: fun_eq_iff load_device_def load_route_def)

lemma unseen_device: "unseen K hp hp' \<Longrightarrow> stored_slices m \<subseteq> K \<Longrightarrow> map (apsnd (load_device hp')) m = map (apsnd (load_device hp)) m"
  unfolding load_funs by (rule unseen_load)

lemma unseen_route: "unseen K hp hp' \<Longrightarrow> stored_slices m \<subseteq> K \<Longrightarrow> map (apsnd (load_route hp')) m = map (apsnd (load_route hp)) m"
  unfolding load_funs by (rule unseen_load)

section \<open>Arrays that only grow in number\<close>

definition grown :: "device_ingress arrays \<Rightarrow> device_ingress arrays \<Rightarrow> bool" where
  "grown hp hp' \<longleftrightarrow> (\<forall>s. slice_ok hp s \<longrightarrow> slice_ok hp' s \<and> slice_read hp' s = slice_read hp s)"

definition fresh :: "device_ingress arrays \<Rightarrow> device_ingress arrays \<Rightarrow> slice set" where
  "fresh hp hp' = {s. slice_ok hp' s \<and> (\<forall>t. slice_ok hp t \<longrightarrow> \<not> same_array s t)}"

lemma grown_refl [simp]: "grown hp hp"
  by (simp add: grown_def)

lemma grown_trans: "grown hp hp' \<Longrightarrow> grown hp' hp'' \<Longrightarrow> grown hp hp''"
  by (simp add: grown_def)

lemma grown_unseen: "unseen K hp hp' \<Longrightarrow> grown hp' hp'' \<Longrightarrow> unseen K hp hp''"
  by (auto simp: grown_def unseen_def)

lemma fresh_mono: "grown hp hp' \<Longrightarrow> grown hp' hp'' \<Longrightarrow> fresh hp hp' \<subseteq> fresh hp hp''" "grown hp hp' \<Longrightarrow> fresh hp' hp'' \<subseteq> fresh hp hp''"
  by (auto simp: grown_def fresh_def)

lemma make_grown:
  assumes "slice_make spare zero xs hp = (hp', s)"
  shows "grown hp hp'" "s \<in> fresh hp hp'" "slice_read hp' s = xs"
  using slice_make_keeps [OF assms] slice_make_read [OF assms] by (auto simp: grown_def fresh_def)

lemma copy_grown:
  assumes "slice_copy spare zero xs hp = (hp', s)"
  shows "grown hp hp'" "s \<in> fresh hp hp'" "slice_read hp' s = xs"
  using slice_copy_keeps [OF assms] slice_copy_read [OF assms] by (auto simp: grown_def fresh_def)

lemma owns_fresh: "s \<in> fresh hp hp' \<Longrightarrow> \<forall>(k, t) \<in> K. slice_ok hp t \<Longrightarrow> owns did s K"
  by (auto simp: owns_def fresh_def)

lemma copy_ingresses_spec:
  assumes "copy_ingresses spare f xs did hp rs = (hp', rs')" and "\<forall>(k, s) \<in> stored_slices rs. slice_ok hp s"
    and f: "\<And>r ys. (f (r\<lparr>r_Ingresses := ys\<rparr>))\<lparr>r_Ingresses := xs\<rparr> = (f r)\<lparr>r_Ingresses := xs\<rparr>"
  shows "grown hp hp'" "stored_slices rs' \<subseteq> stored_slices rs \<union> {did} \<times> fresh hp hp'"
    "map (apsnd (load_route hp')) rs' = update_route (\<lambda>r. (f r)\<lparr>r_Ingresses := xs\<rparr>) did (map (apsnd (load_route hp)) rs)"
proof -
  have "grown hp hp' \<and> stored_slices rs' \<subseteq> stored_slices rs \<union> {did} \<times> fresh hp hp'
    \<and> map (apsnd (load_route hp')) rs' = update_route (\<lambda>r. (f r)\<lparr>r_Ingresses := xs\<rparr>) did (map (apsnd (load_route hp)) rs)"
  proof (cases "gget rs did")
    case None
    then show ?thesis using assms(1) by (simp add: copy_ingresses_def update_route_def)
  next
    case (Some p)
    obtain r t where p: "p = (r, t)" by fastforce
    obtain hq s where c: "slice_copy spare zero_ingress xs hp = (hq, s)" by fastforce
    have r: "hp' = hq" "rs' = gput did (f r, s) rs" using assms(1) Some p c by (simp_all add: copy_ingresses_def)
    note g = copy_grown [OF c]
    have u: "unseen (stored_slices rs) hp hq" using g(1) assms(2) by (auto simp: unseen_def grown_def)
    have "map (apsnd (load_route hq)) rs' = gput did ((f r)\<lparr>r_Ingresses := xs\<rparr>) (map (apsnd (load_route hp)) rs)"
      by (simp add: r(2) gput_apsnd unseen_route [OF u] load_route_def g(3))
    moreover have "(f (load_route hp p))\<lparr>r_Ingresses := xs\<rparr> = (f r)\<lparr>r_Ingresses := xs\<rparr>" using f by (simp add: load_route_def p)
    ultimately show ?thesis using g r stored_put [of did "(f r, s)" rs] by (auto simp: update_route_def Some)
  qed
  then show "grown hp hp'" "stored_slices rs' \<subseteq> stored_slices rs \<union> {did} \<times> fresh hp hp'"
    "map (apsnd (load_route hp')) rs' = update_route (\<lambda>r. (f r)\<lparr>r_Ingresses := xs\<rparr>) did (map (apsnd (load_route hp)) rs)" by blast+
qed

lemma copy_ingresses_gwf: "copy_ingresses spare f xs did hp rs = (hp', rs') \<Longrightarrow> gwf rs \<Longrightarrow> gwf rs'"
  by (auto simp: copy_ingresses_def split: option.splits prod.splits)

lemma copy_ingresses_fresh: "copy_ingresses spare f xs did hp rs = (hp', rs') \<Longrightarrow> gget rs' did = Some (r, t) \<Longrightarrow> t \<in> fresh hp hp'"
  using copy_grown(2) [of spare zero_ingress xs hp] by (auto simp: copy_ingresses_def split: option.splits prod.splits)

text \<open>What \<open>AddDeviceIngress\<close> and \<open>DeleteDeviceIngress\<close> have in common.\<close>

lemma heap_okI:
  assumes "maps_ok x" and "heap_slices x \<subseteq> K" and "\<And>did s. (did, s) \<in> K \<Longrightarrow> slice_ok (mh_arrays x) s"
    and "\<And>did s. (did, s) \<in> stored_slices (mh_devices x) \<Longrightarrow> owns did s K"
  shows "heap_ok K x"
  using assms by (auto simp: heap_ok_def)

lemma fresh_apart: "t \<in> fresh hp hp' \<Longrightarrow> slice_ok hp s \<Longrightarrow> \<not> same_array s t"
  by (simp add: fresh_def same_array_sym [of s t])

lemma owns_extend: "owns did s K \<Longrightarrow> slice_ok hp s \<Longrightarrow> owns did s (K \<union> D \<times> fresh hp hp')"
  by (auto simp: owns_def dest: fresh_apart)

lemma store_ingresses_spec:
  assumes ok: "heap_ok K x" and u: "unseen K (mh_arrays x) hp" and p: "slice_ok hp (snd p)" "owns did (snd p) K"
    and f: "\<And>r xs ys. (f (r\<lparr>r_Ingresses := ys\<rparr>))\<lparr>r_Ingresses := xs\<rparr> = (f r)\<lparr>r_Ingresses := xs\<rparr>"
    and x': "x' = store_ingresses spare x did p f hp"
  shows "heap_ok (K \<union> heap_slices x') x'" "unseen K (mh_arrays x) (mh_arrays x')"
    "heap_values x' = (heap_values x)\<lparr>m_devices := gput did (load_device hp p) (m_devices (heap_values x)),
       m_routes := update_route (\<lambda>r. (f r)\<lparr>r_Ingresses := slice_read hp (snd p)\<rparr>) did (m_routes (heap_values x)),
       m_pending := update_route (\<lambda>r. (f r)\<lparr>r_Ingresses := slice_read hp (snd p)\<rparr>) did (m_pending (heap_values x))\<rparr>"
    "load_device (mh_arrays x') p = load_device hp p"
    "\<not> shares_array x' did (mh_routes x')"
proof -
  let ?xs = "slice_read hp (snd p)"
  obtain hp1 rs where c1: "copy_ingresses (spare 1) f ?xs did hp (mh_routes x) = (hp1, rs)" by fastforce
  obtain hp2 ps where c2: "copy_ingresses (spare 2) f ?xs did hp1 (mh_pending x) = (hp2, ps)" by fastforce
  have x'': "x' = x\<lparr>mh_arrays := hp2, mh_devices := gput did p (mh_devices x), mh_routes := rs, mh_pending := ps\<rparr>"
    by (simp add: x' store_ingresses_def c1 [unfolded One_nat_def] c2)
  have okK: "slice_ok hp s" if "(k, s) \<in> K" for k s using u that by (auto simp: unseen_def)
  have "\<forall>(k, s) \<in> stored_slices (mh_routes x). slice_ok hp s" using okK heap_okD(3) [OF ok] by blast
  note s1 = copy_ingresses_spec [OF c1 this f]
  have u1: "unseen K (mh_arrays x) hp1" by (rule grown_unseen [OF u s1(1)])
  have "\<forall>(k, s) \<in> stored_slices (mh_pending x). slice_ok hp1 s" using u1 heap_okD(4) [OF ok] by (auto simp: unseen_def)
  note s2 = copy_ingresses_spec [OF c2 this f]
  show u2: "unseen K (mh_arrays x) (mh_arrays x')" using grown_unseen [OF u1 s2(1)] by (simp add: x'')
  have g: "grown hp hp2" by (rule grown_trans [OF s1(1) s2(1)])
  have p2: "slice_read hp2 (snd p) = slice_read hp (snd p)" "slice_ok hp2 (snd p)" using g p(1) by (auto simp: grown_def)
  then show ld: "load_device (mh_arrays x') p = load_device hp p" by (simp add: x'' load_device_def)
  show "\<not> shares_array x' did (mh_routes x')"
    using copy_ingresses_fresh [OF c1] fresh_apart p(1) by (fastforce simp: shares_array_def x'' split: option.splits)
  have r1: "map (apsnd (load_route hp2)) rs = map (apsnd (load_route hp1)) rs"
  proof (rule unseen_route)
    show "unseen (stored_slices rs) hp1 hp2"
    proof -
      have "slice_ok hp1 s" if "(k, s) \<in> stored_slices rs" for k s
        using s1(2) heap_okD(3) [OF ok] u1 that by (fastforce simp: unseen_def fresh_def)
      then show ?thesis using s2(1) by (auto simp: unseen_def grown_def)
    qed
  qed simp
  have e: "map (apsnd (load_device hp2)) (mh_devices x) = m_devices (heap_values x)"
    "map (apsnd (load_route hp)) (mh_routes x) = m_routes (heap_values x)"
    "map (apsnd (load_route hp1)) (mh_pending x) = m_pending (heap_values x)"
    using unseen_device [OF u2] unseen_route [OF u] unseen_route [OF u1] heap_okD(2-4) [OF ok] by (simp_all add: x'' heap_values_def)
  show "heap_values x' = (heap_values x)\<lparr>m_devices := gput did (load_device hp p) (m_devices (heap_values x)),
       m_routes := update_route (\<lambda>r. (f r)\<lparr>r_Ingresses := ?xs\<rparr>) did (m_routes (heap_values x)),
       m_pending := update_route (\<lambda>r. (f r)\<lparr>r_Ingresses := ?xs\<rparr>) did (m_pending (heap_values x))\<rparr>"
    using ld r1 s1(3) s2(3) e by (simp add: x'' heap_values_def gput_apsnd del: map_eq_conv)
  define F where "F = K \<union> {(did, snd p)} \<union> {did} \<times> fresh hp hp2"
  have "stored_slices rs \<subseteq> F" "stored_slices ps \<subseteq> F"
    using s1(2) s2(2) heap_okD(3,4) [OF ok] fresh_mono(1) [OF s1(1) s2(1)] fresh_mono(2) [OF s1(1), of hp2] by (auto simp: F_def)
  moreover have "stored_slices (gput did p (mh_devices x)) \<subseteq> F" using stored_put [of did p "mh_devices x"] heap_okD(2) [OF ok] by (auto simp: F_def)
  ultimately have sub: "K \<union> heap_slices x' \<subseteq> F" by (auto simp: F_def heap_slices_def x'')
  have Fok: "slice_ok hp2 s" if "(k, s) \<in> F" for k s using that p2(2) u2 by (auto simp: F_def fresh_def unseen_def x'')
  have own: "owns k s F" if "(k, s) \<in> stored_slices (gput did p (mh_devices x))" for k s
    using stored_put_other [OF heap_okD(1) [OF ok] that]
  proof (elim disjE conjE)
    assume "k = did" "s = snd p"
    then show ?thesis using owns_extend [OF p(2,1), of "{did}" hp2] by (auto simp: F_def owns_def)
  next
    assume k: "k \<noteq> did" "(k, s) \<in> stored_slices (mh_devices x)"
    then have K: "(k, s) \<in> K" "owns k s K" using heap_okD(2,6) [OF ok] by auto
    then have "\<not> same_array s (snd p)" using p(2) k(1) same_array_sym unfolding owns_def by blast
    then show ?thesis using owns_extend [OF K(2) okK [OF K(1)], of "{did}" hp2] by (auto simp: F_def owns_def)
  qed
  have "owns k s (K \<union> heap_slices x')" if "(k, s) \<in> stored_slices (mh_devices x')" for k s
    using own [of k s] that sub by (force simp: x'' owns_def)
  then show "heap_ok (K \<union> heap_slices x') x'"
    using sub Fok heap_okD(7) [OF ok] copy_ingresses_gwf [OF c1] copy_ingresses_gwf [OF c2] by (intro heap_okI) (auto simp: x'' maps_ok_def)
qed

section \<open>Each operation by values\<close>

definition result_values :: "device_ingress arrays \<Rightarrow> go_error + device \<times> slice \<Rightarrow> go_error + device" where
  "result_values hp res = map_sum (\<lambda>err. err) (load_device hp) res"

text \<open>A step that nobody who holds an older slice can see.\<close>

definition quiet :: "(string \<times> slice) set \<Rightarrow> memory_heap \<Rightarrow> memory_heap \<Rightarrow> bool" where
  "quiet K x x' \<longleftrightarrow> heap_ok (K \<union> heap_slices x') x' \<and> unseen K (mh_arrays x) (mh_arrays x')"

lemma unseen_refl: "heap_ok K x \<Longrightarrow> unseen K (mh_arrays x) (mh_arrays x)"
  by (auto simp: heap_ok_def unseen_def)

lemma quiet_refl: "heap_ok K x \<Longrightarrow> quiet K x x"
  using unseen_refl [of K x] by (auto simp: quiet_def heap_ok_def Un_absorb2)

lemma port_taken_values: "port_taken (heap_values x) port = port_taken_heap x port"
  by (simp add: port_taken_def port_taken_heap_def heap_values_def list_ex_iff split_def)

lemma heap_values_get [simp]:
  "gget (m_devices (heap_values x)) did = map_option (load_device (mh_arrays x)) (gget (mh_devices x) did)"
  "gget (m_routes (heap_values x)) did = map_option (load_route (mh_arrays x)) (gget (mh_routes x) did)"
  "gget (m_pending (heap_values x)) did = map_option (load_route (mh_arrays x)) (gget (mh_pending x) did)"
  by (simp_all add: heap_values_def)

lemma effective_slice_spec:
  assumes "effective_slice hp (d, s) = (hp', s')" and "slice_ok hp s"
  shows "grown hp hp'" "slice_ok hp' s'" "slice_read hp' s' = Device_EffectiveIngresses (load_device hp (d, s))"
    "\<forall>(k, t) \<in> K. slice_ok hp t \<Longrightarrow> owns did s K \<Longrightarrow> owns did s' K"
proof -
  have eff: "Device_EffectiveIngresses (load_device hp (d, s)) = slice_read hp s" if "slice_read hp s \<noteq> []"
    using that by (simp add: Device_EffectiveIngresses_def load_device_def)
  have "grown hp hp' \<and> slice_ok hp' s' \<and> slice_read hp' s' = Device_EffectiveIngresses (load_device hp (d, s))
    \<and> ((\<forall>(k, t) \<in> K. slice_ok hp t) \<longrightarrow> owns did s K \<longrightarrow> owns did s' K)"
  proof (cases "slice_read hp s \<noteq> [] \<or> d_IngressPort d = 0")
    case True
    then have "hp' = hp \<and> (slice_read hp s \<noteq> [] \<and> s' = s \<or> slice_read hp s = [] \<and> s' = None)"
      using assms(1) by (cases "slice_read hp s = []") (simp_all add: effective_slice_def)
    then show ?thesis using True assms(2) eff by (auto simp: Device_EffectiveIngresses_def load_device_def owns_def)
  next
    case False
    then have m: "slice_make 0 zero_ingress (Device_EffectiveIngresses (load_device hp (d, s))) hp = (hp', s')"
      using assms(1) by (simp add: effective_slice_def)
    show ?thesis using make_grown [OF m] owns_fresh [of s' hp hp' K did] by (auto simp: fresh_def)
  qed
  then show "grown hp hp'" "slice_ok hp' s'" "slice_read hp' s' = Device_EffectiveIngresses (load_device hp (d, s))"
    "\<forall>(k, t) \<in> K. slice_ok hp t \<Longrightarrow> owns did s K \<Longrightarrow> owns did s' K" by blast+
qed

lemma append_unseen:
  assumes "slice_append spare zero x hp s = (hp', s')" and "\<forall>(k, t) \<in> K. slice_ok hp t" and "owns did s K"
  shows "unseen K hp hp'" "owns did s' K"
proof -
  have "slice_ok hp' t \<and> slice_read hp' t = slice_read hp t \<and> not_beyond s' t \<and> (same_array s' t \<longrightarrow> same_array s t)" if "(k, t) \<in> K" for k t
    using slice_append_keeps [OF assms(1), of t] owns_not_beyond [OF assms(3) that] assms(2) that by auto
  then show "unseen K hp hp'" "owns did s' K" using assms(3) by (auto simp: unseen_def owns_def)
qed

lemma unseen_trans: "unseen K hp hp' \<Longrightarrow> unseen K hp' hp'' \<Longrightarrow> unseen K hp hp''"
  unfolding unseen_def by fastforce

text \<open>The slice that \<open>append(d.EffectiveIngresses(), ingress)\<close> gives.\<close>

lemma appended_slice:
  assumes ok: "heap_ok K x" and d: "gget (mh_devices x) did = Some (d, s)" and e: "effective_slice (mh_arrays x) (d, s) = (hp1, s1)"
    and a: "slice_append spare zero_ingress ingress hp1 s1 = (hp2, s2)"
  shows "unseen K (mh_arrays x) hp2" "slice_ok hp2 s2" "owns did s2 K"
    "slice_read hp2 s2 = Device_EffectiveIngresses (load_device (mh_arrays x) (d, s)) @ [ingress]"
proof -
  note dev = heap_ok_device [OF ok d]
  note es = effective_slice_spec [OF e dev(2)]
  have K: "\<forall>(k, t) \<in> K. slice_ok (mh_arrays x) t" using ok by (simp add: heap_ok_def)
  have u1: "unseen K (mh_arrays x) hp1" by (rule grown_unseen [OF unseen_refl [OF ok] es(1)])
  then have "\<forall>(k, t) \<in> K. slice_ok hp1 t" by (auto simp: unseen_def)
  note au = append_unseen [OF a this es(4) [OF K dev(3)]]
  show "unseen K (mh_arrays x) hp2" "owns did s2 K" using unseen_trans [OF u1 au(1)] au(2) .
  show "slice_ok hp2 s2" "slice_read hp2 s2 = Device_EffectiveIngresses (load_device (mh_arrays x) (d, s)) @ [ingress]"
    using slice_append_read [OF a es(2)] es(3) by (simp_all only:)
qed

lemma heap_add:
  assumes ok: "heap_ok K x" and c: "Heap_AddDeviceIngress spare x now did ingress = (x', res)"
  shows "quiet K x x'" "Memory_AddDeviceIngress (heap_values x) now did ingress = (heap_values x', result_values (mh_arrays x') res)"
proof -
  have "quiet K x x' \<and> Memory_AddDeviceIngress (heap_values x) now did ingress = (heap_values x', result_values (mh_arrays x') res)"
  proof (cases "gget (mh_devices x) did")
    case None
    then show ?thesis using c quiet_refl [OF ok] by (auto simp: Heap_AddDeviceIngress_def Memory_AddDeviceIngress_def result_values_def)
  next
    case (Some p)
    obtain d s where p: "p = (d, s)" by fastforce
    show ?thesis
    proof (cases "port_taken_heap x (di_Port ingress)")
      case True
      then show ?thesis using c Some p quiet_refl [OF ok]
        by (auto simp: Heap_AddDeviceIngress_def Memory_AddDeviceIngress_def port_taken_values result_values_def)
    next
      case False
      obtain hp1 s1 where e: "effective_slice (mh_arrays x) (d, s) = (hp1, s1)" by fastforce
      obtain hp2 s2 where a: "slice_append (spare 0) zero_ingress (ingress\<lparr>di_Primary := False\<rparr>) hp1 s1 = (hp2, s2)" by fastforce
      let ?p = "(d\<lparr>d_UpdatedAt := now\<rparr>, s2)"
      have x': "x' = store_ingresses spare x did ?p (\<lambda>r. r) hp2" and res: "res = Inr ?p"
        using c Some p False e a by (simp_all add: Heap_AddDeviceIngress_def Let_def)
      note as = appended_slice [OF ok Some [unfolded p] e a]
      have idf: "r\<lparr>r_Ingresses := ys, r_Ingresses := xs\<rparr> = r\<lparr>r_Ingresses := xs\<rparr>" for r :: device_route and xs ys by simp
      have sp: "slice_ok hp2 (snd ?p)" "owns did (snd ?p) K" using as(2,3) by simp_all
      note st = store_ingresses_spec [OF ok as(1) _ _ _ x']
      let ?d = "load_device (mh_arrays x) p"
      have rd: "slice_read hp2 s2 = Device_EffectiveIngresses ?d @ [ingress\<lparr>di_Primary := False\<rparr>]" using as(4) by (simp only: p)
      have ld: "load_device hp2 ?p = ?d\<lparr>d_Ingresses := Device_EffectiveIngresses ?d @ [ingress\<lparr>di_Primary := False\<rparr>], d_UpdatedAt := now\<rparr>"
        unfolding load_device_def snd_conv rd [unfolded load_device_def] by (simp add: p)
      have "Memory_AddDeviceIngress (heap_values x) now did ingress = (heap_values x', Inr (load_device hp2 ?p))"
        unfolding st(3) [OF sp idf] ld snd_conv rd
        by (simp add: Memory_AddDeviceIngress_def Some port_taken_values False Let_def)
      then show ?thesis using st(1,2,4) [OF sp idf] by (simp add: quiet_def result_values_def res)
    qed
  qed
  then show "quiet K x x'" "Memory_AddDeviceIngress (heap_values x) now did ingress = (heap_values x', result_values (mh_arrays x') res)" by blast+
qed

lemma Memory_AddDeviceIngress_done:
  assumes "Memory_AddDeviceIngress m now did ingress = (m', Inr d)"
  shows "gget (m_devices m') did = Some d" "gget (m_routes m) did = Some r \<Longrightarrow> gget (m_routes m') did = Some (r\<lparr>r_Ingresses := d_Ingresses d\<rparr>)"
  using assms by (auto simp: Memory_AddDeviceIngress_def update_route_def Let_def split: option.splits if_splits)

lemma heap_add_unshares:
  assumes ok: "heap_ok K x" and c: "Heap_AddDeviceIngress spare x now did ingress = (x', Inr q)"
  shows "\<not> shares_array x' did (mh_routes x')"
proof -
  obtain d s where d: "gget (mh_devices x) did = Some (d, s)" using c by (auto simp: Heap_AddDeviceIngress_def split: option.splits)
  obtain hp1 s1 where e: "effective_slice (mh_arrays x) (d, s) = (hp1, s1)" by fastforce
  obtain hp2 s2 where a: "slice_append (spare 0) zero_ingress (ingress\<lparr>di_Primary := False\<rparr>) hp1 s1 = (hp2, s2)" by fastforce
  have x': "x' = store_ingresses spare x did (d\<lparr>d_UpdatedAt := now\<rparr>, s2) (\<lambda>r. r) hp2"
    using c d e a by (auto simp: Heap_AddDeviceIngress_def Let_def split: if_splits)
  note as = appended_slice [OF ok d e a]
  show ?thesis by (rule store_ingresses_spec(5) [OF ok as(1) _ _ _ x']) (use as(2,3) in simp_all)
qed

lemma heap_delete:
  assumes ok: "heap_ok K x" and c: "Heap_DeleteDeviceIngress spare x now did port = (x', res)"
  shows "quiet K x x'" "Memory_DeleteDeviceIngress (heap_values x) now did port = (heap_values x', result_values (mh_arrays x') res)"
proof -
  have "quiet K x x' \<and> Memory_DeleteDeviceIngress (heap_values x) now did port = (heap_values x', result_values (mh_arrays x') res)"
  proof (cases "gget (mh_devices x) did")
    case None
    then show ?thesis using c quiet_refl [OF ok] by (auto simp: Heap_DeleteDeviceIngress_def Memory_DeleteDeviceIngress_def result_values_def)
  next
    case (Some p)
    obtain d s where p: "p = (d, s)" by fastforce
    let ?d = "load_device (mh_arrays x) (d, s)"
    let ?is = "Device_EffectiveIngresses ?d"
    show ?thesis
    proof (cases "length ?is \<le> 1 \<or> \<not> list_ex (\<lambda>i. di_Port i = port) ?is")
      case True
      then have "x' = x \<and> res = Inl (if length ?is \<le> 1 then ErrConflict else ErrNotFound)"
        using c by (simp add: Heap_DeleteDeviceIngress_def Some p Let_def split: if_splits)
      then show ?thesis using quiet_refl [OF ok] True by (auto simp: Memory_DeleteDeviceIngress_def Some p Let_def result_values_def)
    next
      case False
      define removed where "removed = (remove_ingress port ?d)\<lparr>d_UpdatedAt := now\<rparr>"
      define f where "f = (\<lambda>r. r\<lparr>r_IngressPort := d_IngressPort removed, r_IngressMethod := d_IngressMethod removed,
        r_IngressPassword := d_IngressPassword removed\<rparr> :: device_route)"
      obtain hp s' where m: "slice_make (length ?is - 1 - length (d_Ingresses removed)) zero_ingress (d_Ingresses removed) (mh_arrays x) = (hp, s')"
        by fastforce
      have x': "x' = store_ingresses spare x did (removed, s') f hp" and res: "res = Inr (removed, s')"
        using c False by (simp_all add: Heap_DeleteDeviceIngress_def Some p Let_def removed_def [symmetric] m [simplified] f_def [symmetric])
      note g = make_grown [OF m]
      have K: "\<forall>(k, t) \<in> K. slice_ok (mh_arrays x) t" using ok by (simp add: heap_ok_def)
      have ff: "(f (r\<lparr>r_Ingresses := ys\<rparr>))\<lparr>r_Ingresses := xs\<rparr> = (f r)\<lparr>r_Ingresses := xs\<rparr>" for r xs ys by (simp add: f_def)
      have sp: "slice_ok hp (snd (removed, s'))" "owns did (snd (removed, s')) K" using g(2) owns_fresh [OF g(2) K] by (simp_all add: fresh_def)
      note st = store_ingresses_spec [OF ok grown_unseen [OF unseen_refl [OF ok] g(1)] sp ff x']
      have ld: "load_device hp (removed, s') = removed" by (simp add: load_device_def g(3))
      have "Memory_DeleteDeviceIngress (heap_values x) now did port = (heap_values x', Inr removed)"
        unfolding st(3) snd_conv g(3) ld using False
        by (simp add: Memory_DeleteDeviceIngress_def Some p Let_def removed_def [symmetric] f_def)
      then show ?thesis using st(1,2,4) by (simp add: quiet_def result_values_def res ld)
    qed
  qed
  then show "quiet K x x'" "Memory_DeleteDeviceIngress (heap_values x) now did port = (heap_values x', result_values (mh_arrays x') res)" by blast+
qed

text \<open>The API creates devices without ingresses, so the new device owns the array made for it.\<close>

lemma heap_create:
  assumes ok: "heap_ok K x" and c: "Heap_CreateDevice x (d, None) = (x', res)"
  shows "quiet K x x'" "Memory_CreateDevice (heap_values x) (d\<lparr>d_Ingresses := []\<rparr>) = (heap_values x', res)"
proof -
  have "quiet K x x' \<and> Memory_CreateDevice (heap_values x) (d\<lparr>d_Ingresses := []\<rparr>) = (heap_values x', res)"
  proof (cases "gget (mh_devices x) (d_ID d) \<noteq> None \<or> port_taken_heap x (d_IngressPort d)")
    case True
    then show ?thesis using c quiet_refl [OF ok]
      by (auto simp: Heap_CreateDevice_def Memory_CreateDevice_def port_taken_values split: if_splits)
  next
    case False
    obtain hp s where e: "effective_slice (mh_arrays x) (d, None) = (hp, s)" by fastforce
    have x': "x' = x\<lparr>mh_arrays := hp, mh_devices := gput (d_ID d) (d, s) (mh_devices x)\<rparr>" and res: "res = None"
      using c False e by (auto simp: Heap_CreateDevice_def effective_slice_def split: if_splits)
    note es = effective_slice_spec [OF e slice_read_None(2)]
    have K: "\<forall>(k, t) \<in> K. slice_ok (mh_arrays x) t" using ok by (simp add: heap_ok_def)
    have u: "unseen K (mh_arrays x) hp" by (rule grown_unseen [OF unseen_refl [OF ok] es(1)])
    have own: "owns (d_ID d) s K" using es(4) [OF K] by (simp add: owns_def)
    have apart: "\<not> same_array t s" if "(k, t) \<in> stored_slices (mh_devices x)" "k \<noteq> d_ID d" for k t
      using own that heap_okD(2) [OF ok] same_array_sym unfolding owns_def by blast
    define F where "F = insert (d_ID d, s) K"
    have slices: "K \<union> heap_slices x' = F"
    proof -
      have "heap_slices x' \<subseteq> F" using stored_put [of "d_ID d" "(d, s)" "mh_devices x"] heap_okD(2-4) [OF ok] by (auto simp: heap_slices_def x' F_def)
      moreover have "(d_ID d, s) \<in> heap_slices x'"
        using stored_mem [of "gput (d_ID d) (d, s) (mh_devices x)" "d_ID d" d s] by (simp add: heap_slices_def x')
      ultimately show ?thesis by (auto simp: F_def)
    qed
    have "heap_ok F x'"
    proof (rule heap_okI)
      fix k t assume "(k, t) \<in> stored_slices (mh_devices x')"
      then have "k = d_ID d \<and> t = s \<or> k \<noteq> d_ID d \<and> (k, t) \<in> stored_slices (mh_devices x)"
        using stored_put_other [OF heap_okD(1) [OF ok], of k t "d_ID d" "(d, s)"] by (simp add: x')
      then show "owns k t F" using own apart heap_okD(6) [OF ok] by (fastforce simp: F_def owns_def)
    qed (use heap_okD(7) [OF ok] slices u es(2) in \<open>auto simp: x' F_def unseen_def maps_ok_def\<close>)
    moreover have "heap_values x' = (heap_values x)\<lparr>m_devices := gput (d_ID d) (load_device hp (d, s)) (m_devices (heap_values x))\<rparr>"
      using unseen_device [OF u heap_okD(2) [OF ok]] unseen_route [OF u heap_okD(3) [OF ok]] unseen_route [OF u heap_okD(4) [OF ok]]
      by (simp add: x' heap_values_def gput_apsnd del: map_eq_conv)
    moreover have "load_device hp (d, s) = (if d_IngressPort d \<noteq> 0 then d\<lparr>d_Ingresses := Device_EffectiveIngresses (d\<lparr>d_Ingresses := []\<rparr>)\<rparr> else d\<lparr>d_Ingresses := []\<rparr>)"
      using es(3) by (simp add: load_device_def) (simp add: Device_EffectiveIngresses_def)
    ultimately show ?thesis using slices u False
      by (simp add: quiet_def res Memory_CreateDevice_def port_taken_values Let_def) (simp add: x')
  qed
  then show "quiet K x x'" "Memory_CreateDevice (heap_values x) (d\<lparr>d_Ingresses := []\<rparr>) = (heap_values x', res)" by blast+
qed

lemma Heap_version_values: "Memory_version (heap_values x) did = Heap_version x did"
  by (auto simp: Memory_version_def Heap_version_def load_route_def split: option.splits)

lemma load_route_simps [simp]:
  "r_DeviceID (load_route hp p) = r_DeviceID (fst p)" "r_Version (load_route hp p) = r_Version (fst p)"
  "(load_route hp (r, s))\<lparr>r_Status := st\<rparr> = load_route hp (r\<lparr>r_Status := st\<rparr>, s)"
  by (simp_all add: load_route_def)

lemma heap_values_put:
  "heap_values (x\<lparr>mh_pending := gput did p (mh_pending x)\<rparr>)
     = (heap_values x)\<lparr>m_pending := gput did (load_route (mh_arrays x) p) (m_pending (heap_values x))\<rparr>"
  "heap_values (x\<lparr>mh_routes := gput did p (mh_routes x), mh_pending := gdel did (mh_pending x)\<rparr>)
     = (heap_values x)\<lparr>m_routes := gput did (load_route (mh_arrays x) p) (m_routes (heap_values x)), m_pending := gdel did (m_pending (heap_values x))\<rparr>"
  by (simp_all add: heap_values_def gput_apsnd gdel_apsnd)

text \<open>Steps that touch no array.\<close>

lemma heap_ok_routes:
  assumes "heap_ok K x" and "mh_arrays x' = mh_arrays x" and "mh_devices x' = mh_devices x" and "maps_ok x'"
    and "heap_slices x' \<subseteq> insert (did, s) K" and "(did, s) \<in> K"
  shows "quiet K x x'"
proof -
  have "K \<union> heap_slices x' = K" using assms(5,6) by blast
  then show ?thesis using assms unseen_refl [OF assms(1)] by (auto simp: quiet_def heap_ok_def insert_absorb)
qed

lemma heap_stage:
  assumes ok: "heap_ok K x" and K: "(r_DeviceID r, s) \<in> K" and c: "Heap_StageRoute x (r, s) expected = (x', res)"
  shows "quiet K x x'" "Memory_StageRoute (heap_values x) (load_route (mh_arrays x) (r, s)) expected = (heap_values x', res)"
proof -
  have "heap_slices x' \<subseteq> insert (r_DeviceID r, s) K"
    using c stored_put [of "r_DeviceID r" "(r, s)" "mh_pending x"] heap_okD(2-4) [OF ok]
    by (auto simp: Heap_StageRoute_def heap_slices_def split: if_splits)
  moreover have "mh_arrays x' = mh_arrays x" "mh_devices x' = mh_devices x" "maps_ok x'"
    using c heap_okD(7) [OF ok] by (auto simp: Heap_StageRoute_def maps_ok_def split: if_splits)
  ultimately show "quiet K x x'" using heap_ok_routes [OF ok _ _ _ _ K] by blast
  show "Memory_StageRoute (heap_values x) (load_route (mh_arrays x) (r, s)) expected = (heap_values x', res)"
    using c by (auto simp: Memory_StageRoute_def Heap_StageRoute_def Heap_version_values heap_values_put split: if_splits)
qed

lemma heap_activate:
  assumes ok: "heap_ok K x" and c: "Heap_ActivateRoute x did v = (x', res)"
  shows "quiet K x x'" "Memory_ActivateRoute (heap_values x) did v = (heap_values x', res)"
proof -
  have "quiet K x x' \<and> Memory_ActivateRoute (heap_values x) did v = (heap_values x', res)"
  proof (cases "\<exists>r s. gget (mh_pending x) did = Some (r, s) \<and> r_Version r = v")
    case False
    then have "x' = x \<and> res = Some ErrConflict" using c by (auto simp: Heap_ActivateRoute_def split: option.splits prod.splits if_splits)
    then show ?thesis using quiet_refl [OF ok] False by (auto simp: Memory_ActivateRoute_def split: option.splits)
  next
    case True
    then obtain r s where r: "gget (mh_pending x) did = Some (r, s)" "r_Version r = v" by blast
    then have x': "x' = x\<lparr>mh_routes := gput did (r\<lparr>r_Status := RouteActive\<rparr>, s) (mh_routes x), mh_pending := gdel did (mh_pending x)\<rparr>" and res: "res = None"
      using c by (simp_all add: Heap_ActivateRoute_def)
    have K: "(did, s) \<in> K" using stored_mem [OF r(1)] heap_okD(4) [OF ok] by blast
    have "stored_slices (gdel did (mh_pending x)) \<subseteq> K" using heap_okD(4) [OF ok] by (force simp: stored_slices_def dest: gdel_entries)
    then have "heap_slices x' \<subseteq> insert (did, s) K"
      using stored_put [of did "(r\<lparr>r_Status := RouteActive\<rparr>, s)" "mh_routes x"] heap_okD(2,3) [OF ok] by (auto simp: heap_slices_def x')
    then have "quiet K x x'" using heap_ok_routes [OF ok _ _ _ _ K] heap_okD(7) [OF ok] by (simp add: x' maps_ok_def)
    moreover have "Memory_ActivateRoute (heap_values x) did v = (heap_values x', res)"
      using r by (simp add: Memory_ActivateRoute_def res x' heap_values_put)
    ultimately show ?thesis by blast
  qed
  then show "quiet K x x'" "Memory_ActivateRoute (heap_values x) did v = (heap_values x', res)" by blast+
qed

section \<open>Rotation\<close>

lemma heap_ok_write:
  assumes ok: "heap_ok K x" and "(k, s) \<in> K"
  shows "heap_ok K (x\<lparr>mh_arrays := slice_write f (mh_arrays x) s\<rparr>)"
  using assms slice_write_keeps(1) [OF heap_okD(5) [OF ok assms(2)] heap_okD(5) [OF ok]] by (auto simp: heap_ok_def heap_slices_def maps_ok_def)

text \<open>One who holds a slice sees the new password exactly when the slice is of the array of the device.\<close>

lemma rotate_read:
  assumes "heap_ok K x" and "gget (mh_devices x) did = Some (d, s)" and "(k, t) \<in> K"
  shows "slice_read (slice_write f (mh_arrays x) s) t = (if same_array s t then map f (slice_read (mh_arrays x) t) else slice_read (mh_arrays x) t)"
  using slice_write_keeps(2,3) [of "mh_arrays x" s t f] heap_ok_device(2,3) [OF assms(1,2)] heap_okD(5) [OF assms(1,3)] owns_not_beyond [OF _ assms(3)]
  by simp

lemma gput_cong:
  assumes "gwf m" and "\<And>k v. (k, v) \<in> set m \<Longrightarrow> k \<noteq> did \<Longrightarrow> f v = g v"
  shows "gput did y (map (apsnd f) m) = gput did y (map (apsnd g) m)"
  using assms by (induction m) (force simp: gwf_def split: if_splits)+

lemma map_other_cong:
  assumes "gget m did = None" and "\<And>k v. (k, v) \<in> set m \<Longrightarrow> k \<noteq> did \<Longrightarrow> f v = g v"
  shows "map (apsnd f) m = map (apsnd g) m"
  using assms by (auto simp: map_of_eq_None_iff image_iff)

lemma stored_rotate: "stored_slices (rotate_password did password rs) \<subseteq> stored_slices rs" "gwf rs \<Longrightarrow> gwf (rotate_password did password rs)"
  using stored_put [of did _ rs] stored_mem [of rs did] by (auto simp: rotate_password_def split: option.splits) fastforce

lemma rotate_password_values:
  assumes "gwf rs" and "\<And>k r t. (k, r, t) \<in> set rs \<Longrightarrow> k \<noteq> did \<Longrightarrow> slice_read hp' t = slice_read hp t"
    and "\<And>r t. gget rs did = Some (r, t) \<Longrightarrow> slice_read hp' t = (if shared then map (set_primary_password password) (slice_read hp t) else slice_read hp t)"
  shows "map (apsnd (load_route hp')) (rotate_password did password rs) = update_route (rotate_route shared password) did (map (apsnd (load_route hp)) rs)"
proof -
  have other: "load_route hp' v = load_route hp v" if "(k, v) \<in> set rs" "k \<noteq> did" for k v
    using assms(2) [of k "fst v" "snd v"] that by (simp add: load_route_def)
  show ?thesis
  proof (cases "gget rs did")
    case None
    then show ?thesis using map_other_cong [OF None other] by (simp add: rotate_password_def update_route_def)
  next
    case (Some p)
    obtain r t where p: "p = (r, t)" by fastforce
    have "load_route hp' (r\<lparr>r_IngressPassword := password\<rparr>, t) = rotate_route shared password (load_route hp (r, t))"
      using assms(3) [of r t] Some p by (simp add: load_route_def rotate_route_def)
    then show ?thesis using gput_cong [OF assms(1) other] by (simp add: rotate_password_def update_route_def Some p gput_apsnd)
  qed
qed

lemma Memory_UpdateDeviceCredential_found:
  assumes "gget (m_devices m) did = Some d"
    and "d' = d\<lparr>d_IngressPassword := password, d_Ingresses := map (set_primary_password password) (d_Ingresses d), d_UpdatedAt := now\<rparr>"
  shows "Memory_UpdateDeviceCredential shared m now did password
    = (m\<lparr>m_devices := gput did d' (m_devices m), m_routes := update_route (rotate_route (fst shared) password) did (m_routes m),
         m_pending := update_route (rotate_route (snd shared) password) did (m_pending m)\<rparr>, Inr d')"
  by (simp add: Memory_UpdateDeviceCredential_def assms Let_def)

lemma heap_rotate:
  assumes ok: "heap_ok K x" and c: "Heap_UpdateDeviceCredential x now did password = (x', res)"
  shows "heap_ok K x'"
    "Memory_UpdateDeviceCredential (shares_array x did (mh_routes x), shares_array x did (mh_pending x)) (heap_values x) now did password
       = (heap_values x', result_values (mh_arrays x') res)"
proof -
  have "heap_ok K x' \<and> Memory_UpdateDeviceCredential (shares_array x did (mh_routes x), shares_array x did (mh_pending x)) (heap_values x) now did password
       = (heap_values x', result_values (mh_arrays x') res)"
  proof (cases "gget (mh_devices x) did")
    case None
    then show ?thesis using c ok by (auto simp: Heap_UpdateDeviceCredential_def Memory_UpdateDeviceCredential_def result_values_def)
  next
    case (Some p)
    obtain d s where p: "p = (d, s)" by fastforce
    note dev = heap_ok_device [OF ok Some [unfolded p]]
    let ?f = "set_primary_password password"
    define hp where "hp = slice_write ?f (mh_arrays x) s"
    define d' where "d' = d\<lparr>d_IngressPassword := password, d_UpdatedAt := now\<rparr>"
    have x': "x' = x\<lparr>mh_arrays := hp, mh_devices := gput did (d', s) (mh_devices x), mh_routes := rotate_password did password (mh_routes x),
        mh_pending := rotate_password did password (mh_pending x)\<rparr>" and res: "res = Inr (d', s)"
      using c by (simp_all add: Heap_UpdateDeviceCredential_def Some p hp_def d'_def Let_def)
    have g: "gwf (mh_devices x)" "gwf (mh_routes x)" "gwf (mh_pending x)" using heap_okD(7) [OF ok] by (simp_all add: maps_ok_def)
    have read: "slice_read hp t = (if same_array s t then map ?f (slice_read (mh_arrays x) t) else slice_read (mh_arrays x) t)" if "(k, t) \<in> K" for k t
      using rotate_read [OF ok Some [unfolded p] that] by (simp add: hp_def)
    then have other: "slice_read hp t = slice_read (mh_arrays x) t" if "(k, t) \<in> K" "k \<noteq> did" for k t
      using dev(3) that by (fastforce simp: owns_def)
    have kept: "(k, t) \<in> K" if "(k, v, t) \<in> set m" "stored_slices m \<subseteq> K" for k t and v :: 'z and m :: "(string, 'z \<times> slice) gomap"
      using that by (force simp: stored_slices_def)
    have shr: "slice_read hp t = (if shares_array x did rs then map ?f (slice_read (mh_arrays x) t) else slice_read (mh_arrays x) t)"
      if "gget rs did = Some (r, t)" "stored_slices rs \<subseteq> K" for r t and rs
      using read [of did t] stored_mem [OF that(1)] that Some p by (auto simp: shares_array_def)
    have dother: "load_device hp v = load_device (mh_arrays x) v" if "(k, v) \<in> set (mh_devices x)" "k \<noteq> did" for k v
      using other [of k "snd v"] kept [of k "fst v" "snd v", OF _ heap_okD(2) [OF ok]] that by (simp add: load_device_def)
    have dv: "map (apsnd (load_device hp)) (gput did (d', s) (mh_devices x))
        = gput did (load_device hp (d', s)) (map (apsnd (load_device (mh_arrays x))) (mh_devices x))"
      unfolding gput_apsnd by (rule gput_cong [OF g(1) dother])
    have getd: "gget (m_devices (heap_values x)) did = Some (load_device (mh_arrays x) (d, s))" by (simp add: Some p)
    have ld: "load_device hp (d', s) = (load_device (mh_arrays x) (d, s))\<lparr>d_IngressPassword := password,
        d_Ingresses := map ?f (d_Ingresses (load_device (mh_arrays x) (d, s))), d_UpdatedAt := now\<rparr>"
      using slice_write_read [OF dev(2), of ?f] by (simp add: load_device_def d'_def hp_def)
    have rt: "map (apsnd (load_route hp)) (rotate_password did password rs)
        = update_route (rotate_route (shares_array x did rs) password) did (map (apsnd (load_route (mh_arrays x))) rs)"
      if "gwf rs" "stored_slices rs \<subseteq> K" for rs
      by (rule rotate_password_values [OF that(1)]) (use other kept [OF _ that(2)] shr [OF _ that(2)] in blast)+
    have "heap_values x' = (heap_values x)\<lparr>m_devices := gput did (load_device hp (d', s)) (m_devices (heap_values x)),
        m_routes := update_route (rotate_route (shares_array x did (mh_routes x)) password) did (m_routes (heap_values x)),
        m_pending := update_route (rotate_route (shares_array x did (mh_pending x)) password) did (m_pending (heap_values x))\<rparr>"
      using dv rt [OF g(2) heap_okD(3) [OF ok]] rt [OF g(3) heap_okD(4) [OF ok]] by (simp add: x' heap_values_def del: map_eq_conv)
    then have "Memory_UpdateDeviceCredential (shares_array x did (mh_routes x), shares_array x did (mh_pending x)) (heap_values x) now did password
        = (heap_values x', Inr (load_device hp (d', s)))"
      using Memory_UpdateDeviceCredential_found [OF getd ld] by (simp only: fst_conv snd_conv)
    moreover have "result_values (mh_arrays x') res = Inr (load_device hp (d', s))" by (simp add: x' res result_values_def)
    moreover have "heap_ok K x'"
    proof (rule heap_okI)
      fix k t assume "(k, t) \<in> stored_slices (mh_devices x')"
      then show "owns k t K" using stored_put_other [OF g(1), of k t did "(d', s)"] dev(3) heap_okD(6) [OF ok] by (auto simp: x')
    next
      have "stored_slices (gput did (d', s) (mh_devices x)) \<subseteq> K" using stored_put [of did "(d', s)" "mh_devices x"] heap_okD(2) [OF ok] dev(1) by auto
      moreover have "stored_slices (rotate_password did password rs) \<subseteq> K" if "stored_slices rs \<subseteq> K" for rs using stored_rotate(1) that by (rule subset_trans)
      ultimately show "heap_slices x' \<subseteq> K" using heap_okD(3,4) [OF ok] by (simp add: heap_slices_def x')
    qed (use g stored_rotate(2) heap_okD(5) [OF heap_ok_write [OF ok dev(1), of ?f]] in \<open>auto simp: x' maps_ok_def hp_def\<close>)
    ultimately show ?thesis by simp
  qed
  then show "heap_ok K x'"
    "Memory_UpdateDeviceCredential (shares_array x did (mh_routes x), shares_array x did (mh_pending x)) (heap_values x) now did password
       = (heap_values x', result_values (mh_arrays x') res)" by blast+
qed

section \<open>All calls\<close>

text \<open>
  The calls of the API in any order: it creates devices without ingresses, stages a route with the slice of a device that it
  has read at any time before, and proposes a rotation to a device that it has read at any time before.
\<close>

inductive heap_call :: "(string \<times> slice) set \<times> memory_heap \<Rightarrow> (string \<times> slice) set \<times> memory_heap \<Rightarrow> bool" where
  call_create: "Heap_CreateDevice x (d, None) = (x', res) \<Longrightarrow> heap_call (K, x) (K \<union> heap_slices x', x')"
| call_add: "Heap_AddDeviceIngress spare x now did ingress = (x', res') \<Longrightarrow> heap_call (K, x) (K \<union> heap_slices x', x')"
| call_delete: "Heap_DeleteDeviceIngress spare x now did port = (x', res') \<Longrightarrow> heap_call (K, x) (K \<union> heap_slices x', x')"
| call_stage: "(r_DeviceID r, s) \<in> K \<Longrightarrow> Heap_StageRoute x (r, s) expected = (x', res) \<Longrightarrow> heap_call (K, x) (K \<union> heap_slices x', x')"
| call_activate: "Heap_ActivateRoute x did v = (x', res) \<Longrightarrow> heap_call (K, x) (K \<union> heap_slices x', x')"
| call_rotate: "Heap_UpdateDeviceCredential x now did password = (x', res') \<Longrightarrow> heap_call (K, x) (K, x')"
| call_propose: "(did, s) \<in> K \<Longrightarrow> rotate_proposal_heap x (d, s) password = (x', p) \<Longrightarrow> heap_call (K, x) (K, x')"

definition heap_init :: "(string \<times> slice) set \<times> memory_heap \<Rightarrow> bool" where
  "heap_init st \<longleftrightarrow> st = ({}, NewMemory_heap)"

interpretation heap_inv: invariant_of heap_init heap_call "\<lambda>(K, x). heap_ok K x"
proof unfold_locales
  fix st assume "heap_init st"
  then show "case st of (K, x) \<Rightarrow> heap_ok K x"
    by (simp add: heap_init_def NewMemory_heap_def heap_ok_def heap_slices_def stored_slices_def maps_ok_def)
next
  fix st st' assume ok: "case st of (K, x) \<Rightarrow> heap_ok K x" and "heap_call st st'"
  from this(2) show "case st' of (K, x) \<Rightarrow> heap_ok K x"
  proof cases
    case (call_create x d x' res K)
    then show ?thesis using heap_create(1) [of K x d x' res] ok by (simp add: quiet_def)
  next
    case (call_add spare x now did ingress x' res' K)
    then show ?thesis using heap_add(1) [of K x spare now did ingress x' res'] ok by (simp add: quiet_def)
  next
    case (call_delete spare x now did port x' res' K)
    then show ?thesis using heap_delete(1) [of K x spare now did port x' res'] ok by (simp add: quiet_def)
  next
    case (call_stage r s K x expected x' res)
    then show ?thesis using heap_stage(1) [of K x r s expected x' res] ok by (simp add: quiet_def)
  next
    case (call_activate x did v x' res K)
    then show ?thesis using heap_activate(1) [of K x did v x' res] ok by (simp add: quiet_def)
  next
    case (call_rotate x now did password x' res' K)
    then show ?thesis using heap_rotate(1) [of K x now did password x' res'] ok by simp
  next
    case (call_propose did s K x d password x' p)
    then show ?thesis using heap_ok_write [of K x did s] ok by (auto simp: rotate_proposal_heap_def)
  qed
qed

lemma reach_heap_ok: "reach heap_init heap_call (K, x) \<Longrightarrow> heap_ok K x"
  using heap_inv.reach_inv by force

text \<open>
  A call as one who reads every slice sees it.
\<close>

definition by_values :: "memory_heap \<times> (go_error + device \<times> slice) \<Rightarrow> memory \<times> (go_error + device)" where
  "by_values c = (heap_values (fst c), result_values (mh_arrays (fst c)) (snd c))"

text \<open>
  C39: the in-memory store never lets a caller see a change through a slice that it was given earlier, except by a rotation: in every state that the calls of the API reach, creating a
  device, adding and removing an ingress, staging and activating do exactly what they do on values, and everything that any slice
  ever returned shows stays as it is. A rotation does what it does on values that are told which routes share the array of the device.
\<close>

theorem memory_store_by_values:
  assumes "reach heap_init heap_call (K, x)"
  shows "by_values (Heap_AddDeviceIngress spare x now did ingress) = Memory_AddDeviceIngress (heap_values x) now did ingress
    \<and> by_values (Heap_DeleteDeviceIngress spare x now did port) = Memory_DeleteDeviceIngress (heap_values x) now did port
    \<and> by_values (Heap_UpdateDeviceCredential x now did password) =
        Memory_UpdateDeviceCredential (shares_array x did (mh_routes x), shares_array x did (mh_pending x)) (heap_values x) now did password
    \<and> apfst heap_values (Heap_CreateDevice x (d, None)) = Memory_CreateDevice (heap_values x) (d\<lparr>d_Ingresses := []\<rparr>)
    \<and> ((r_DeviceID r, s) \<in> K \<longrightarrow>
         apfst heap_values (Heap_StageRoute x (r, s) expected) = Memory_StageRoute (heap_values x) (load_route (mh_arrays x) (r, s)) expected)
    \<and> apfst heap_values (Heap_ActivateRoute x did version) = Memory_ActivateRoute (heap_values x) did version
    \<and> unseen K (mh_arrays x) (mh_arrays (fst (Heap_AddDeviceIngress spare x now did ingress)))
    \<and> unseen K (mh_arrays x) (mh_arrays (fst (Heap_DeleteDeviceIngress spare x now did port)))
    \<and> unseen K (mh_arrays x) (mh_arrays (fst (Heap_CreateDevice x (d, None))))"
proof -
  note ok = reach_heap_ok [OF assms]
  show ?thesis
    using heap_add [OF ok prod.collapse [symmetric]] heap_delete [OF ok prod.collapse [symmetric]] heap_rotate(2) [OF ok prod.collapse [symmetric]]
      heap_create [OF ok prod.collapse [symmetric]] heap_stage(2) [OF ok _ prod.collapse [symmetric]] heap_activate(2) [OF ok prod.collapse [symmetric]]
    by (simp add: by_values_def quiet_def prod_eq_iff)
qed

text \<open>One run, for the witnesses: a device with a route, staged with the slice of the device and activated.\<close>

definition mem_device :: device where
  "mem_device = zero_device\<lparr>d_ID := ''d1'', d_Username := ''d1'', d_IngressPort := 50000, d_IngressMethod := ''aes-256-gcm'', d_IngressPassword := ''old'', d_Enabled := True\<rparr>"

definition mem_route :: device_route where
  "mem_route = zero_route\<lparr>r_DeviceID := ''d1'', r_IngressPort := 50000, r_IngressMethod := ''aes-256-gcm'', r_IngressPassword := ''old'', r_Version := 1\<rparr>"

definition mem_ingress :: device_ingress where
  "mem_ingress = zero_ingress\<lparr>di_Port := 50001, di_Method := ''aes-128-gcm'', di_Password := ''second''\<rparr>"

definition mem_created :: memory_heap where
  "mem_created = fst (Heap_CreateDevice NewMemory_heap (mem_device, None))"

definition mem_active :: memory_heap where
  "mem_active = fst (Heap_ActivateRoute (fst (Heap_StageRoute mem_created (mem_route, Some (0, 1)) 0)) ''d1'' 1)"

lemma mem_active_reach:
  obtains K where "reach heap_init heap_call (K, mem_active)" and "(''d1'', Some (0, 1)) \<in> K"
proof -
  have 0: "reach heap_init heap_call ({}, NewMemory_heap)" by (rule reach_init) (simp add: heap_init_def)
  have 1: "reach heap_init heap_call ({} \<union> heap_slices mem_created, mem_created)"
    by (rule reach_step [OF 0], rule call_create [of _ mem_device _ "snd (Heap_CreateDevice NewMemory_heap (mem_device, None))"]) (simp add: mem_created_def)
  define K where "K = {} \<union> heap_slices mem_created"
  have "(''d1'', Some (0, 1)) \<in> heap_slices mem_created" by code_simp
  then have k: "(''d1'', Some (0, 1)) \<in> K" by (simp add: K_def)
  have "r_DeviceID mem_route = ''d1''" by (simp add: mem_route_def)
  then have r: "(r_DeviceID mem_route, Some (0, 1)) \<in> K" using k by simp
  let ?x = "fst (Heap_StageRoute mem_created (mem_route, Some (0, 1)) 0)"
  have 2: "reach heap_init heap_call (K \<union> heap_slices ?x, ?x)"
    by (rule reach_step [OF 1 [folded K_def]], rule call_stage [OF r]) (rule prod.collapse [symmetric])
  have "reach heap_init heap_call (K \<union> heap_slices ?x \<union> heap_slices mem_active, mem_active)"
    unfolding mem_active_def by (rule reach_step [OF 2], rule call_activate) (rule prod.collapse [symmetric])
  then show thesis by (rule that) (use k in simp)
qed

theorem memory_store_by_values_witness:
  "\<exists>K. reach heap_init heap_call (K, mem_active)
    \<and> by_values (Heap_AddDeviceIngress (\<lambda>_. 0) mem_active 7 ''d1'' mem_ingress) = Memory_AddDeviceIngress (heap_values mem_active) 7 ''d1'' mem_ingress
    \<and> unseen K (mh_arrays mem_active) (mh_arrays (fst (Heap_AddDeviceIngress (\<lambda>_. 0) mem_active 7 ''d1'' mem_ingress)))"
proof -
  obtain K where "reach heap_init heap_call (K, mem_active)" by (rule mem_active_reach)
  then show ?thesis using memory_store_by_values [of K mem_active "\<lambda>_. 0" 7 "''d1''" mem_ingress] by blast
qed

text \<open>
  In the in-memory store a rotation after an ingress was added leaves the active route with the old password: the field beside the
  list is new, but the list, which is what gateways listen with when they load the route, still holds the
  ingresses from before the rotation.
\<close>

theorem memory_rotation_stale_route:
  assumes "reach heap_init heap_call (K, x)" and "gget (mh_routes x) did = Some rp"
    and "Heap_AddDeviceIngress spare x now did ingress = (x1, Inr p)" and "Heap_UpdateDeviceCredential x1 now' did password = (x2, Inr q)"
  shows "\<exists>r. Memory_GetRoute (heap_values x2) did = Inr r \<and> r_IngressPassword r = password \<and> r_Ingresses r = d_Ingresses (load_device (mh_arrays x1) p)
    \<and> d_Ingresses (load_device (mh_arrays x2) q) = map (set_primary_password password) (d_Ingresses (load_device (mh_arrays x1) p))"
proof -
  note ok = reach_heap_ok [OF assms(1)]
  have add: "Memory_AddDeviceIngress (heap_values x) now did ingress = (heap_values x1, Inr (load_device (mh_arrays x1) p))"
    using heap_add(2) [OF ok assms(3)] by (simp add: result_values_def)
  have ok1: "heap_ok (K \<union> heap_slices x1) x1" using heap_add(1) [OF ok assms(3)] by (simp add: quiet_def)
  have rot: "Memory_UpdateDeviceCredential (False, shares_array x1 did (mh_pending x1)) (heap_values x1) now' did password
      = (heap_values x2, Inr (load_device (mh_arrays x2) q))"
    using heap_rotate(2) [OF ok1 assms(4)] heap_add_unshares [OF ok assms(3)] by (simp add: result_values_def)
  let ?d = "load_device (mh_arrays x1) p"
  let ?r = "(load_route (mh_arrays x) rp)\<lparr>r_Ingresses := d_Ingresses ?d\<rparr>"
  have d1: "gget (m_devices (heap_values x1)) did = Some ?d" and r1: "gget (m_routes (heap_values x1)) did = Some ?r"
    using Memory_AddDeviceIngress_done [OF add] assms(2) by (simp_all add: heap_values_get(2) [of x])
  note found = Memory_UpdateDeviceCredential_found [OF d1 refl, of "(False, shares_array x1 did (mh_pending x1))" now' password, unfolded rot]
  have "gget (m_routes (heap_values x2)) did = Some (rotate_route False password ?r)"
    using arg_cong [OF found, of "\<lambda>c. m_routes (fst c)"] r1 by (simp add: update_route_def del: heap_values_get)
  then show ?thesis using arg_cong [OF found, of snd] by (simp add: Memory_GetRoute_def rotate_route_def del: heap_values_get)
qed

definition mem_added :: memory_heap where
  "mem_added = fst (Heap_AddDeviceIngress (\<lambda>_. 0) mem_active 7 ''d1'' mem_ingress)"

definition mem_rotated :: memory_heap where
  "mem_rotated = fst (Heap_UpdateDeviceCredential mem_added 8 ''d1'' ''new'')"

theorem memory_rotation_stale_route_witness:
  "\<exists>r d. Memory_GetRoute (heap_values mem_rotated) ''d1'' = Inr r \<and> r_IngressPassword r = ''new'' \<and> map di_Password (r_Ingresses r) = [''old'', ''second'']
    \<and> Memory_GetDevice (heap_values mem_rotated) ''d1'' = Inr d \<and> map di_Password (d_Ingresses d) = [''new'', ''second'']"
proof -
  obtain K where K: "reach heap_init heap_call (K, mem_active)" by (rule mem_active_reach)
  have "snd (Heap_AddDeviceIngress (\<lambda>_. 0) mem_active 7 ''d1'' mem_ingress) = Inr (the (gget (mh_devices mem_added) ''d1''))" by code_simp
  then have a: "Heap_AddDeviceIngress (\<lambda>_. 0) mem_active 7 ''d1'' mem_ingress = (mem_added, Inr (the (gget (mh_devices mem_added) ''d1'')))"
    by (simp add: mem_added_def prod_eq_iff)
  have "snd (Heap_UpdateDeviceCredential mem_added 8 ''d1'' ''new'') = Inr (the (gget (mh_devices mem_rotated) ''d1''))" by code_simp
  then have u: "Heap_UpdateDeviceCredential mem_added 8 ''d1'' ''new'' = (mem_rotated, Inr (the (gget (mh_devices mem_rotated) ''d1'')))"
    by (simp add: mem_rotated_def prod_eq_iff)
  have "gget (mh_routes mem_active) ''d1'' \<noteq> None" by code_simp
  then obtain rp where "gget (mh_routes mem_active) ''d1'' = Some rp" by blast
  note stale = memory_rotation_stale_route [OF K this a u]
  moreover have "map di_Password (d_Ingresses (load_device (mh_arrays mem_added) (the (gget (mh_devices mem_added) ''d1'')))) = [''old'', ''second'']" by code_simp
  moreover have "map_option (\<lambda>d. map di_Password (d_Ingresses d)) (gget (m_devices (heap_values mem_rotated)) ''d1'') = Some [''new'', ''second'']" by code_simp
  ultimately show ?thesis by (auto simp: Memory_GetDevice_def)
qed

text \<open>
  In the in-memory store a rotation that no gateway acknowledges still changes the stored device. \<open>rotateCredential\<close> builds its proposal in the array that the
  store holds, so when \<open>DeployDevice\<close> refuses for want of a ready gateway, and \<open>UpdateDeviceCredential\<close> is never called, the device already has the new password in its primary
  ingress, beside the old one in the field of the struct.
\<close>

theorem refused_rotation_changes_memory:
  assumes "reach heap_init heap_call (K, x)" and "Heap_GetDevice x did = Inr current" and "rotate_proposal_heap x current password = (x', proposed)"
    and "h_store h = x'" and "readySessions h = []"
  shows "\<exists>dp d. h_deploy (DeployDevice h rid (load_device (mh_arrays x') proposed) commit) = Some dp
      \<and> dp_pc dp = Returned (Some (ErrMsg ''no ready gateways connected'')) \<and> h_store (DeployDevice h rid (load_device (mh_arrays x') proposed) commit) = x'
      \<and> Memory_GetDevice (heap_values x) did = Inr d
      \<and> Memory_GetDevice (heap_values x') did = Inr (d\<lparr>d_Ingresses := map (set_primary_password password) (d_Ingresses d)\<rparr>)"
proof -
  obtain d s where cur: "gget (mh_devices x) did = Some (d, s)" "current = (d, s)"
    using assms(2) by (cases current) (auto simp: Heap_GetDevice_def split: option.splits)
  note dev = heap_ok_device [OF reach_heap_ok [OF assms(1)] cur(1)]
  have x': "x' = x\<lparr>mh_arrays := slice_write (set_primary_password password) (mh_arrays x) s\<rparr>"
    using assms(3) cur(2) by (simp add: rotate_proposal_heap_def)
  have "load_device (mh_arrays x') (d, s) = (load_device (mh_arrays x) (d, s))
      \<lparr>d_Ingresses := map (set_primary_password password) (d_Ingresses (load_device (mh_arrays x) (d, s)))\<rparr>"
    using slice_write_read [OF dev(2)] by (simp add: x' load_device_def)
  then have "Memory_GetDevice (heap_values x') did = Inr ((load_device (mh_arrays x) (d, s))
      \<lparr>d_Ingresses := map (set_primary_password password) (d_Ingresses (load_device (mh_arrays x) (d, s)))\<rparr>)"
    "Memory_GetDevice (heap_values x) did = Inr (load_device (mh_arrays x) (d, s))"
    using cur(1) by (simp_all add: Memory_GetDevice_def) (simp_all add: x')
  then show ?thesis using assms(4,5) by (simp add: DeployDevice_def start_deployment_def Let_def)
qed

definition mem_proposal :: "memory_heap \<times> (device \<times> slice)" where
  "mem_proposal = rotate_proposal_heap mem_active (the (gget (mh_devices mem_active) ''d1'')) ''new''"

theorem refused_rotation_changes_memory_witness:
  "\<exists>dp d. h_deploy (DeployDevice (NewHub (fst mem_proposal)) ''1'' (load_device (mh_arrays (fst mem_proposal)) (snd mem_proposal)) (\<lambda>x. (x, None))) = Some dp
    \<and> dp_pc dp = Returned (Some (ErrMsg ''no ready gateways connected''))
    \<and> Memory_GetDevice (heap_values (fst mem_proposal)) ''d1'' = Inr d \<and> d_IngressPassword d = ''old'' \<and> map di_Password (d_Ingresses d) = [''new'']"
proof -
  obtain K where K: "reach heap_init heap_call (K, mem_active)" by (rule mem_active_reach)
  have "gget (mh_devices mem_active) ''d1'' \<noteq> None" by code_simp
  then have g: "Heap_GetDevice mem_active ''d1'' = Inr (the (gget (mh_devices mem_active) ''d1''))" by (auto simp: Heap_GetDevice_def)
  have p: "rotate_proposal_heap mem_active (the (gget (mh_devices mem_active) ''d1'')) ''new'' = (fst mem_proposal, snd mem_proposal)"
    by (simp add: mem_proposal_def)
  have h: "h_store (NewHub (fst mem_proposal)) = fst mem_proposal" "readySessions (NewHub (fst mem_proposal)) = []"
    by (simp_all add: NewHub_def readySessions_def)
  have "map_option (\<lambda>d. (d_IngressPassword d, map di_Password (d_Ingresses d))) (gget (m_devices (heap_values (fst mem_proposal))) ''d1'') = Some (''old'', [''new''])"
    by code_simp
  then show ?thesis using refused_rotation_changes_memory [OF K g p h, of "''1''" "\<lambda>x. (x, None)"]
    by (auto simp: Memory_GetDevice_def)
qed

end
