(* ===== verification/Spec2Isabelle.thy ===== *)
theory Spec2Isabelle
  imports PM_Overlap PM_Generate PM_Routing PM_Client_Loop PM_Relay PM_Acks PM_Broadcast PM_Memory_Heap
begin

text \<open>
  ProxyMesh: a control plane and its proxy gateways.

  \<^bold>\<open>The program.\<close> A device connects with Shadowsocks to a port of any gateway. The gateway relays the connection through the SOCKS5 upstream of the route that
  is active for the device. Devices, routes and upstream credentials live in PostgreSQL behind the control plane, which has an HTTP API for operators
  and a gRPC stream to every gateway. A change of a route or of a device's ingresses is a two-phase deployment: the control plane sends a prepare frame to
  the ready gateways, commits to the database when all have acknowledged, and then sends the frame that makes the change effective. A gateway keeps
  its routes in a table, an encrypted snapshot of them on disk, and one listener per ingress port.

  \<^bold>\<open>Conventions.\<close> A Go function is a HOL function that takes and returns the state it changes. An error is a value (\<open>go_error\<close>); \<open>None\<close> is the error nil where
  only an error is returned, \<open>Inl\<close> the error otherwise. A Go map is an association list in the order of one iteration, and statements hold for every
  order. \<open>int\<close> and \<open>int64\<close> are \<open>int\<close> with the wrap-around written out (\<open>s64\<close>), unsigned numbers are words. Strings are ASCII, times are nanoseconds. A method under a mutex is one
  step. What is not in the repository is a parameter: AES-GCM, SHA-256, go-shadowsocks2, the random source, JSON, the operating
  system, the peer of a connection, and the failure of any SQL statement, write or system call. What the program relies on of a parameter is a named predicate
  (\<open>aead_ok\<close>, \<open>disk_ok\<close>, \<open>rand_ok\<close>, \<open>accepts_documented_keys\<close>, \<open>env_ok\<close>), and every theorem that uses one has a witness with a concrete instance.

  \<^bold>\<open>Theories.\<close> \<open>PM_Prelude\<close> holds errors, maps, bytes, reachability and the locale of inductive invariants. Then, by component:

  \<^item> \<open>PM_Model\<close>: \<open>internal/model/model.go\<close>, devices, ingresses, credentials, routes, gateways.
  \<^item> \<open>PM_Table\<close>: \<open>internal/dataplane/table.go\<close>, the routing table. Every reachable table is well formed, versions never fall, a snapshot reloads to the
    same routes, and the lookup by username is the lookup by device.
  \<^item> \<open>PM_Connections\<close>: \<open>internal/dataplane/connections.go\<close>, tracked connections. The registry refines the set of live connections and its total counts them.
  \<^item> \<open>PM_Base64\<close>, \<open>PM_Ssconfig\<close>, \<open>PM_Cryptox\<close>: \<open>internal/ssconfig/credentials.go\<close> and \<open>internal/cryptox/cipher.go\<close>. Generated passwords validate; decryption undoes encryption.
  \<^item> \<open>PM_Net\<close>, \<open>PM_Socks5\<close>, \<open>PM_Upstream\<close>: \<open>internal/proxy/socks5.go\<close> with the parts of \<open>net\<close> and \<open>strconv\<close> it uses. The messages decode to what was asked for, the replies
    are consumed exactly, and against a server that follows RFC 1928 and RFC 1929 dialling succeeds exactly with the server's credentials.
  \<^item> \<open>PM_Gateway\<close>, \<open>PM_Relay\<close>: \<open>internal/dataplane/gateway.go\<close>. Reconciliation opens exactly the ports that the table asks for and keeps unchanged listeners, preparation is invisible, sockets
    do not leak, a connection is relayed only when it is admitted, and when a relay ends.
  \<^item> \<open>PM_Snapshot\<close>: \<open>internal/dataplane/snapshot.go\<close>, the atomic replacement of the snapshot.
  \<^item> \<open>PM_Rpc\<close>, \<open>PM_Control_Client\<close>, \<open>PM_Client_Loop\<close>: \<open>internal/controlrpc/control.go\<close> and \<open>internal/dataplane/control_client.go\<close>. A synchronised gateway listens, routes and has on disk what the
    control plane last sent, through restarts too; only a snapshot brings a gateway back that has lost its synchronisation. The goroutines of one stream are a transition system: acknowledgements
    leave in the order of the frames they answer, and a stream that ends leaves its sender behind.
  \<^item> \<open>PM_Hub\<close>, \<open>PM_Deploy\<close>, \<open>PM_Broadcast\<close>, \<open>PM_Acks\<close>: \<open>internal/control/hub.go\<close>. The hub with its sessions, queues and gateways is one transition system, in which deployments interleave with
    heartbeats, reconnects, other requests and failures. A deployment that returns without error has reached every gateway it addressed, the commit happens only after every prepare was
    acknowledged, and no gateway is told to activate before the commit. A broadcast outside a deployment that returns without error was handled by every gateway it addressed. An acknowledgement can be lost to a concurrent request, and then the deployment fails.
  \<^item> \<open>PM_Provider\<close>, \<open>PM_Sampling\<close>, \<open>PM_Generate\<close>: \<open>internal/provider/provider.go\<close>. Sampling ends and is uniform, weighted choice is proportional, templates render token by
    token, and generated endpoints and sessions are within their bounds.
  \<^item> \<open>PM_Postgres\<close>, \<open>PM_Store\<close>, \<open>PM_Routes\<close>: \<open>internal/store/postgres.go\<close> on the tables and constraints of \<open>db/migrations\<close>. The tables stay consistent and sealed under
    failures anywhere, staging is a compare-and-set on the version, and an activated route reads back.
  \<^item> \<open>PM_Memory\<close>, \<open>PM_Slices\<close>, \<open>PM_Memory_Heap\<close>: \<open>internal/store/memory.go\<close>, and the contract about versions as a locale (\<open>versioned_routes\<close>), interpreted on both stores. The store is modelled
    by values and again on a heap of Go slices that it shares with its callers; the second refines the first, and shows where a rotation of credentials is seen too early or not at all.
  \<^item> \<open>PM_Api\<close>, \<open>PM_Routing\<close>, \<open>PM_Proposals\<close>, \<open>PM_Requests\<close>, \<open>PM_Overlap\<close>: \<open>internal/control/api.go\<close>. One handler for each request, and none but the one for liveness without the token; what a handler sends
    to the gateways is what its commit leaves in the tables; the outcomes of creating a device and of putting a route; and interleavings of two requests after which tables and gateways disagree.
  \<^item> \<open>PM_Process\<close>, \<open>PM_Control_Plane\<close>: \<open>internal/config/config.go\<close>, \<open>apps/gateway/main.go\<close>, \<open>apps/control-plane/main.go\<close>: settings, health, canary, shutdown, transport security, start-up.

  \<^bold>\<open>Bounds and loops.\<close> The loop of \<open>cryptoUint\<close> may run for ever and is a \<open>partial_function (option)\<close>; it is shown to return exactly when the source delivers an acceptable
  word or an error. \<open>createDevice\<close> tries 64 ports, as the code does, by recursion on the number of attempts left. The parser of IPv6 addresses takes at most eight turns
  because each adds two of sixteen bytes. All other loops are structural recursion or have a measure.

  \<^bold>\<open>Not modelled.\<close> The gRPC plumbing (\<open>controlrpc\<close> beyond its frame), the HTTP servers, the JSON codec (\<open>decode\<close> and \<open>Codec\<close>), TLS itself, logging, signals and tickers, the text of the SQL migrations and
  connection pools: calls of libraries without logic of the program. The constraints that the migrations declare are in the statements of \<open>PM_Postgres\<close>. A \<open>BroadcastDevice\<close> has no caller, so it is modelled as a request but is
  not among the steps that a deployment has to tolerate.
\<close>

end
